(* ===== verification/Prelude.thy ===== *)
theory Prelude
  imports "HOL-Library.Word" "HOL-Library.Sublist" "HOL-Library.Char_ord"
    "HOL-Library.List_Lexorder" "HOL-Library.Multiset" "HOL-Library.Code_Target_Nat"
begin

unbundle bit_operations_syntax

text \<open>
  What the components share: the reading of Rust's types in HOL, the operations of the Rust
  standard library that the daemon and its client call, and the generic lemmas about them.

  \<^item> A byte of a frame, a file or a string is a \<open>char\<close> (HOL's \<open>char\<close> is exactly 8 bits), so a
    \<open>&[u8]\<close> and a \<open>&str\<close> are both a \<open>string\<close>: a \<open>&str\<close> is its UTF-8 byte sequence, and \<open>len()\<close>
    is \<open>length\<close>, as in Rust. Where the code computes with a byte (tokens, receipts) it is an
    \<open>8 word\<close>.
  \<^item> \<open>Instant\<close> and \<open>Duration\<close> are natural numbers of nanoseconds, with the limits of the standard
    library's representation written out where an operation saturates or fails.
  \<^item> \<open>Result<T, E>\<close> is \<open>'e + 'a\<close> with \<open>Inl\<close> for \<open>Err\<close>.
  \<^item> \<open>Iterator::find\<close> is \<open>List.find\<close>, \<open>Vec::retain\<close> is \<open>filter\<close>, \<open>Vec::push\<close> appends at the end,
    and a mutation through \<open>iter_mut().find(..)\<close> is \<open>update_first\<close>.
\<close>

type_synonym u8 = "8 word"
type_synonym instant = nat
type_synonym duration = nat

named_theorems rust_simps \<open>evaluation rules of the standard-library operations\<close>
named_theorems table_simps \<open>how lookups in the daemon's tables read after an update\<close>

section \<open>Integers, instants and durations\<close>

definition U64_MAX :: nat where "U64_MAX = 2 ^ 64 - 1"
definition U32_MAX :: nat where "U32_MAX = 2 ^ 32 - 1"
definition U8_MAX :: nat where "U8_MAX = 2 ^ 8 - 1"

definition saturating_add_u64 :: "nat \<Rightarrow> nat \<Rightarrow> nat" where
  "saturating_add_u64 a b = min (a + b) U64_MAX"

definition nanos_per_sec :: nat where "nanos_per_sec = 1000000000"

definition from_secs :: "nat \<Rightarrow> duration" where "from_secs s = s * nanos_per_sec"

text \<open>\<open>Duration::MAX\<close>: \<open>u64::MAX\<close> seconds and 999999999 nanoseconds.\<close>

definition duration_max :: duration where
  "duration_max = U64_MAX * nanos_per_sec + (nanos_per_sec - 1)"

definition duration_saturating_mul :: "duration \<Rightarrow> nat \<Rightarrow> duration" where
  "duration_saturating_mul d n = min (d * n) duration_max"

definition as_secs :: "duration \<Rightarrow> nat" where "as_secs d = d div nanos_per_sec"

text \<open>\<open>Instant::checked_duration_since\<close>, \<open>Instant::duration_since\<close> (saturating at zero) and
  \<open>Instant::checked_add\<close>, which fails when the seconds leave the range of \<open>i64\<close>.\<close>

definition checked_duration_since :: "instant \<Rightarrow> instant \<Rightarrow> duration option" where
  "checked_duration_since now earlier = (if earlier \<le> now then Some (now - earlier) else None)"

definition duration_since :: "instant \<Rightarrow> instant \<Rightarrow> duration" where
  "duration_since now earlier = now - earlier"

definition instant_checked_add :: "instant \<Rightarrow> duration \<Rightarrow> instant option" where
  "instant_checked_add i d = (if (i + d) div nanos_per_sec < 2 ^ 63 then Some (i + d) else None)"

section \<open>Results\<close>

text \<open>The \<open>?\<close> operator (\<open>Result::and_then\<close>), \<open>Option::ok_or\<close>, \<open>Result::map_err\<close> and
  \<open>Result::ok\<close>.\<close>

definition and_then :: "'e + 'a \<Rightarrow> ('a \<Rightarrow> 'e + 'b) \<Rightarrow> 'e + 'b" where
  "and_then r f = (case r of Inl e \<Rightarrow> Inl e | Inr x \<Rightarrow> f x)"

definition ok_or :: "'e \<Rightarrow> 'a option \<Rightarrow> 'e + 'a" where
  "ok_or e x = (case x of None \<Rightarrow> Inl e | Some v \<Rightarrow> Inr v)"

definition map_err :: "('e \<Rightarrow> 'f) \<Rightarrow> 'e + 'a \<Rightarrow> 'f + 'a" where
  "map_err f r = (case r of Inl e \<Rightarrow> Inl (f e) | Inr x \<Rightarrow> Inr x)"

definition ok :: "'e + 'a \<Rightarrow> 'a option" where
  "ok r = (case r of Inl e \<Rightarrow> None | Inr x \<Rightarrow> Some x)"

section \<open>Lists\<close>

fun update_first :: "('a \<Rightarrow> bool) \<Rightarrow> ('a \<Rightarrow> 'a) \<Rightarrow> 'a list \<Rightarrow> 'a list" where
  "update_first P f [] = []"
| "update_first P f (x # xs) = (if P x then f x # xs else x # update_first P f xs)"

fun find_map :: "('a \<Rightarrow> 'b option) \<Rightarrow> 'a list \<Rightarrow> 'b option" where
  "find_map f [] = None"
| "find_map f (x # xs) = (case f x of Some y \<Rightarrow> Some y | None \<Rightarrow> find_map f xs)"

text \<open>\<open>Vec::swap_remove\<close>: the last element takes the place of the removed one.\<close>

definition swap_remove :: "nat \<Rightarrow> 'a list \<Rightarrow> 'a list" where
  "swap_remove i xs =
     (if Suc i = length xs then butlast xs else butlast (xs[i := last xs]))"

section \<open>Strings\<close>

definition byte_val :: "char \<Rightarrow> nat" where "byte_val c = of_char c"

definition newline :: char where "newline = CHR 0x0A"
definition carriage_return :: char where "carriage_return = CHR 0x0D"
definition tab :: char where "tab = CHR 0x09"
definition nul :: char where "nul = CHR 0x00"

definition is_ascii_lowercase :: "char \<Rightarrow> bool" where
  "is_ascii_lowercase c \<longleftrightarrow> 97 \<le> byte_val c \<and> byte_val c \<le> 122"
definition is_ascii_uppercase :: "char \<Rightarrow> bool" where
  "is_ascii_uppercase c \<longleftrightarrow> 65 \<le> byte_val c \<and> byte_val c \<le> 90"
definition is_ascii_digit :: "char \<Rightarrow> bool" where
  "is_ascii_digit c \<longleftrightarrow> 48 \<le> byte_val c \<and> byte_val c \<le> 57"
definition is_ascii_alphabetic :: "char \<Rightarrow> bool" where
  "is_ascii_alphabetic c \<longleftrightarrow> is_ascii_lowercase c \<or> is_ascii_uppercase c"
definition is_ascii_alphanumeric :: "char \<Rightarrow> bool" where
  "is_ascii_alphanumeric c \<longleftrightarrow> is_ascii_alphabetic c \<or> is_ascii_digit c"
definition is_ascii_graphic :: "char \<Rightarrow> bool" where
  "is_ascii_graphic c \<longleftrightarrow> 33 \<le> byte_val c \<and> byte_val c \<le> 126"
definition is_ascii :: "char \<Rightarrow> bool" where
  "is_ascii c \<longleftrightarrow> byte_val c < 128"

definition to_ascii_uppercase :: "char \<Rightarrow> char" where
  "to_ascii_uppercase c = (if is_ascii_lowercase c then char_of (byte_val c - 32) else c)"
definition to_ascii_lowercase :: "char \<Rightarrow> char" where
  "to_ascii_lowercase c = (if is_ascii_uppercase c then char_of (byte_val c + 32) else c)"

text \<open>\<open>char::to_digit\<close> for a radix up to 36.\<close>

definition to_digit :: "nat \<Rightarrow> char \<Rightarrow> nat option" where
  "to_digit radix c =
     (let d = (if is_ascii_digit c then byte_val c - 48
               else if is_ascii_lowercase c then byte_val c - 87
               else if is_ascii_uppercase c then byte_val c - 55 else 36)
      in if d < radix then Some d else None)"

definition is_ascii_hexdigit :: "char \<Rightarrow> bool" where
  "is_ascii_hexdigit c \<longleftrightarrow> to_digit 16 c \<noteq> None"

fun from_digits :: "nat \<Rightarrow> nat \<Rightarrow> string \<Rightarrow> nat option" where
  "from_digits radix acc [] = Some acc"
| "from_digits radix acc (c # cs) =
     (case to_digit radix c of None \<Rightarrow> None | Some d \<Rightarrow> from_digits radix (acc * radix + d) cs)"

text \<open>
  \<open>from_str_radix\<close> (and \<open>parse\<close>, with radix 10) of an unsigned type with maximum \<open>m\<close>: one leading
  \<open>+\<close> is accepted, at least one digit is required, overflow is an error. For \<open>i32\<close> a leading \<open>-\<close> is
  accepted too.
\<close>

definition parse_unsigned :: "nat \<Rightarrow> nat \<Rightarrow> string \<Rightarrow> nat option" where
  "parse_unsigned radix m s =
     (let ds = (case s of [] \<Rightarrow> [] | c # cs \<Rightarrow> if c = CHR ''+'' then cs else s)
      in if ds = [] then None
         else case from_digits radix 0 ds of
             None \<Rightarrow> None
           | Some n \<Rightarrow> if n \<le> m then Some n else None)"

definition parse_i32 :: "string \<Rightarrow> int option" where
  "parse_i32 s =
     (case s of
        c # cs \<Rightarrow>
          if c = CHR ''-'' then
            (if cs = [] then None
             else case from_digits 10 0 cs of
                 None \<Rightarrow> None
               | Some n \<Rightarrow> if n \<le> 2 ^ 31 then Some (- int n) else None)
          else map_option int (parse_unsigned 10 (2 ^ 31 - 1) s)
      | [] \<Rightarrow> None)"

text \<open>\<open>to_string\<close> of an unsigned integer.\<close>

definition digit_char :: "nat \<Rightarrow> char" where "digit_char d = char_of (48 + d)"

fun nat_to_string :: "nat \<Rightarrow> string" where
  "nat_to_string n =
     (if n < 10 then [digit_char n] else nat_to_string (n div 10) @ [digit_char (n mod 10)])"

declare nat_to_string.simps [simp del]

fun strip_prefix :: "'a list \<Rightarrow> 'a list \<Rightarrow> 'a list option" where
  "strip_prefix [] ys = Some ys"
| "strip_prefix (x # xs) [] = None"
| "strip_prefix (x # xs) (y # ys) = (if x = y then strip_prefix xs ys else None)"

definition strip_suffix :: "'a list \<Rightarrow> 'a list \<Rightarrow> 'a list option" where
  "strip_suffix p s = map_option rev (strip_prefix (rev p) (rev s))"

text \<open>\<open>split\<close> on one separator yields at least one piece; \<open>split_once\<close> cuts at the first one.\<close>

fun split_on :: "'a \<Rightarrow> 'a list \<Rightarrow> 'a list list" where
  "split_on c [] = [[]]"
| "split_on c (x # xs) =
     (if x = c then [] # split_on c xs
      else (case split_on c xs of [] \<Rightarrow> [[x]] | p # ps \<Rightarrow> (x # p) # ps))"

fun join_with :: "'a \<Rightarrow> 'a list list \<Rightarrow> 'a list" where
  "join_with c [] = []"
| "join_with c [p] = p"
| "join_with c (p # q # ps) = p @ c # join_with c (q # ps)"

fun split_once :: "'a \<Rightarrow> 'a list \<Rightarrow> ('a list \<times> 'a list) option" where
  "split_once c [] = None"
| "split_once c (x # xs) =
     (if x = c then Some ([], xs) else map_option (\<lambda>(a, b). (x # a, b)) (split_once c xs))"

text \<open>\<open>split_inclusive\<close> keeps the separator with the piece it ends and yields no empty last piece;
  \<open>lines\<close> strips a newline, and a carriage return before it, from each such piece.\<close>

fun split_inclusive :: "'a \<Rightarrow> 'a list \<Rightarrow> 'a list list" where
  "split_inclusive c [] = []"
| "split_inclusive c (x # xs) =
     (if x = c then [x] # split_inclusive c xs
      else (case split_inclusive c xs of [] \<Rightarrow> [[x]] | p # ps \<Rightarrow> (x # p) # ps))"

definition strip_line :: "string \<Rightarrow> string" where
  "strip_line l =
     (case strip_suffix [newline] l of
        None \<Rightarrow> l
      | Some l' \<Rightarrow> (case strip_suffix [carriage_return] l' of None \<Rightarrow> l' | Some l'' \<Rightarrow> l''))"

definition lines :: "string \<Rightarrow> string list" where
  "lines s = map strip_line (split_inclusive newline s)"

section \<open>UTF-8\<close>

text \<open>
  \<open>std::str::from_utf8\<close> accepts exactly the well-formed byte sequences of the Unicode standard: no
  overlong forms, no surrogates, nothing above U+10FFFF. \<open>utf8_decode\<close> gives the scalar values
  (\<open>chars()\<close>), \<open>utf8_encode\<close> renders them back.
\<close>

definition utf8_cont :: "char \<Rightarrow> bool" where
  "utf8_cont c \<longleftrightarrow> 128 \<le> byte_val c \<and> byte_val c \<le> 191"

text \<open>The number of continuation bytes a lead byte announces, with its payload bits.\<close>

definition utf8_lead :: "nat \<Rightarrow> (nat \<times> nat) option" where
  "utf8_lead x =
     (if x < 128 then Some (0, x)
      else if x < 194 then None
      else if x < 224 then Some (1, x - 192)
      else if x < 240 then Some (2, x - 224)
      else if x < 245 then Some (3, x - 240)
      else None)"

definition utf8_tail_ok :: "nat \<Rightarrow> string \<Rightarrow> bool" where
  "utf8_tail_ok x cs \<longleftrightarrow>
     list_all utf8_cont cs
     \<and> (case cs of [] \<Rightarrow> True
        | b # _ \<Rightarrow> (x = 224 \<longrightarrow> 160 \<le> byte_val b) \<and> (x = 237 \<longrightarrow> byte_val b \<le> 159)
                 \<and> (x = 240 \<longrightarrow> 144 \<le> byte_val b) \<and> (x = 244 \<longrightarrow> byte_val b \<le> 143))"

definition utf8_first :: "string \<Rightarrow> (nat \<times> string) option" where
  "utf8_first s =
     (case s of [] \<Rightarrow> None
      | b # bs \<Rightarrow>
        (case utf8_lead (byte_val b) of None \<Rightarrow> None
         | Some (w, payload) \<Rightarrow>
             if w \<le> length bs \<and> utf8_tail_ok (byte_val b) (take w bs)
             then Some (foldl (\<lambda>n c. n * 64 + (byte_val c - 128)) payload (take w bs), drop w bs)
             else None))"

lemma utf8_first_shorter: "utf8_first s = Some (n, r) \<Longrightarrow> length r < length s"
  by (auto simp: utf8_first_def split: list.splits if_splits option.splits)

function utf8_decode :: "string \<Rightarrow> nat list option" where
  "utf8_decode s =
     (if s = [] then Some []
      else case utf8_first s of
          None \<Rightarrow> None
        | Some (n, r) \<Rightarrow> map_option ((#) n) (utf8_decode r))"
  by pat_completeness auto
termination
  by (relation "measure length") (auto dest: utf8_first_shorter)

declare utf8_decode.simps [simp del]

definition from_utf8 :: "string \<Rightarrow> string option" where
  "from_utf8 bytes = (if utf8_decode bytes = None then None else Some bytes)"

definition utf8_encode_char :: "nat \<Rightarrow> string" where
  "utf8_encode_char n =
     (if n < 128 then [char_of n]
      else if n < 2048 then [char_of (192 + n div 64), char_of (128 + n mod 64)]
      else if n < 65536 then
        [char_of (224 + n div 4096), char_of (128 + n div 64 mod 64), char_of (128 + n mod 64)]
      else
        [char_of (240 + n div 262144), char_of (128 + n div 4096 mod 64),
         char_of (128 + n div 64 mod 64), char_of (128 + n mod 64)])"

definition utf8_encode :: "nat list \<Rightarrow> string" where
  "utf8_encode ns = concat (map utf8_encode_char ns)"

text \<open>\<open>to_string_lossy\<close>, which \<open>Path::display\<close> shows: a sequence that is broken off gives one replacement
  character for its lead byte and the continuation bytes that still fit it.\<close>

definition utf8_broken :: "string \<Rightarrow> nat" where
  "utf8_broken s =
     (case s of [] \<Rightarrow> 0
      | b # bs \<Rightarrow>
        (case utf8_lead (byte_val b) of None \<Rightarrow> 0
         | Some (w, _) \<Rightarrow>
             if bs \<noteq> [] \<and> utf8_tail_ok (byte_val b) [hd bs] then length (takeWhile utf8_cont (take w bs)) else 0))"

function to_string_lossy :: "string \<Rightarrow> string" where
  "to_string_lossy s =
     (if s = [] then []
      else case utf8_first s of
          Some (n, r) \<Rightarrow> utf8_encode_char n @ to_string_lossy r
        | None \<Rightarrow> utf8_encode_char 65533 @ to_string_lossy (drop (1 + utf8_broken s) s))"
  by pat_completeness auto
termination
  by (relation "measure length") (auto dest: utf8_first_shorter)

declare to_string_lossy.simps [simp del]

text \<open>\<open>char::is_whitespace\<close> (the Unicode property White\_Space) and \<open>str::trim\<close>.\<close>

definition is_whitespace :: "nat \<Rightarrow> bool" where
  "is_whitespace n \<longleftrightarrow>
     (9 \<le> n \<and> n \<le> 13) \<or> n = 32 \<or> n = 133 \<or> n = 160 \<or> n = 5760 \<or> (8192 \<le> n \<and> n \<le> 8202)
     \<or> n = 8232 \<or> n = 8233 \<or> n = 8239 \<or> n = 8287 \<or> n = 12288"

definition trim_start_chars :: "nat list \<Rightarrow> nat list" where
  "trim_start_chars ns = dropWhile is_whitespace ns"

definition trim :: "string \<Rightarrow> string" where
  "trim s =
     (case utf8_decode s of
        None \<Rightarrow> s
      | Some ns \<Rightarrow> utf8_encode (rev (trim_start_chars (rev (trim_start_chars ns)))))"

text \<open>\<open>str::is_char_boundary\<close> and \<open>str::get(start..end)\<close>: no slice outside the string or through a
  character.\<close>

definition is_char_boundary :: "string \<Rightarrow> nat \<Rightarrow> bool" where
  "is_char_boundary s i \<longleftrightarrow> i = 0 \<or> i = length s \<or> (i < length s \<and> \<not> utf8_cont (s ! i))"

definition str_get :: "string \<Rightarrow> nat \<Rightarrow> nat \<Rightarrow> string option" where
  "str_get s start stop =
     (if start \<le> stop \<and> stop \<le> length s \<and> is_char_boundary s start \<and> is_char_boundary s stop
      then Some (take (stop - start) (drop start s)) else None)"

section \<open>Lemmas on results\<close>

lemma and_then_simps [simp, rust_simps]:
  "and_then (Inl e) f = Inl e" "and_then (Inr x) f = f x"
  by (simp_all add: and_then_def)

lemma and_then_Inr: "and_then r f = Inr y \<longleftrightarrow> (\<exists>x. r = Inr x \<and> f x = Inr y)"
  by (cases r) auto

lemma and_then_Inl: "and_then r f = Inl e \<longleftrightarrow> r = Inl e \<or> (\<exists>x. r = Inr x \<and> f x = Inl e)"
  by (cases r) auto

lemma ok_or_simps [simp, rust_simps]: "ok_or e None = Inl e" "ok_or e (Some v) = Inr v"
  by (simp_all add: ok_or_def)

lemma ok_or_Inr: "ok_or e x = Inr v \<longleftrightarrow> x = Some v"
  by (cases x) auto

lemma map_err_simps [simp, rust_simps]: "map_err f (Inl e) = Inl (f e)" "map_err f (Inr x) = Inr x"
  by (simp_all add: map_err_def)

lemma ok_simps [simp, rust_simps]: "ok (Inl e) = None" "ok (Inr x) = Some x"
  by (simp_all add: ok_def)

section \<open>Lemmas on the list operations\<close>

lemma update_first_set: "x \<in> set (update_first P f xs) \<Longrightarrow> x \<in> set xs \<or> (\<exists>y \<in> set xs. P y \<and> x = f y)"
  by (induction xs) (auto split: if_splits)

lemma length_update_first [simp]: "length (update_first P f xs) = length xs"
  by (induction xs) auto

lemma map_update_first_same:
  "(\<And>x. P x \<Longrightarrow> g (f x) = g x) \<Longrightarrow> map g (update_first P f xs) = map g xs"
  by (induction xs) auto

lemma update_first_none: "find P xs = None \<Longrightarrow> update_first P f xs = xs"
  by (induction xs) (auto split: if_splits)

text \<open>Under distinct keys, changing the first element with a key changes the only one.\<close>

lemma update_first_eq_map:
  "distinct (map k xs) \<Longrightarrow>
   update_first (\<lambda>x. k x = i) f xs = map (\<lambda>x. if k x = i then f x else x) xs"
proof (induction xs)
  case (Cons x xs)
  show ?case
  proof (cases "k x = i")
    case True
    with Cons.prems have "\<forall>y \<in> set xs. k y \<noteq> i" by (auto simp: image_iff)
    then have "map (\<lambda>x. if k x = i then f x else x) xs = xs"
      by (induction xs) auto
    with True show ?thesis by simp
  next
    case False
    with Cons show ?thesis by simp
  qed
qed simp

lemma find_Some_in: "find P xs = Some x \<Longrightarrow> x \<in> set xs \<and> P x"
  by (induction xs) (auto split: if_splits)

lemma find_None_all: "find P xs = None \<longleftrightarrow> (\<forall>x \<in> set xs. \<not> P x)"
  by (induction xs) auto

lemma find_append: "find P (xs @ ys) = (case find P xs of Some x \<Rightarrow> Some x | None \<Rightarrow> find P ys)"
  by (induction xs) auto

lemma find_filter_weaker:
  "(\<And>x. x \<in> set xs \<Longrightarrow> P x \<Longrightarrow> Q x) \<Longrightarrow> find P (filter Q xs) = find P xs"
  by (induction xs) auto

lemma find_filter_none: "(\<And>x. P x \<Longrightarrow> \<not> Q x) \<Longrightarrow> find P (filter Q xs) = None"
  by (induction xs) auto

lemma option_eqI: "(\<And>x. a = Some x \<longleftrightarrow> b = Some x) \<Longrightarrow> a = b"
  by (cases a; cases b) auto

text \<open>Under distinct keys, \<open>find\<close> by key is membership.\<close>

lemma find_by_key:
  "distinct (map k xs) \<Longrightarrow> find (\<lambda>x. k x = i) xs = Some x \<longleftrightarrow> x \<in> set xs \<and> k x = i"
  by (induction xs) (auto split: if_splits)

lemma distinct_map_filter: "distinct (map f xs) \<Longrightarrow> distinct (map f (filter P xs))"
  by (induction xs) auto

lemma length_filter_mono:
  "(\<And>x. Q x \<Longrightarrow> P x) \<Longrightarrow> length (filter Q xs) \<le> length (filter P xs)"
  by (induction xs) (auto intro: le_SucI)

lemma mset_swap_remove:
  assumes "i < length xs"
  shows "mset (swap_remove i xs) = mset xs - {# xs ! i #}"
proof (cases "Suc i = length xs")
  case True
  then have "xs = butlast xs @ [xs ! i]"
    using assms by (metis append_butlast_last_id diff_Suc_1 last_conv_nth list.size(3) not_less_zero)
  then have "mset xs = mset (butlast xs) + {# xs ! i #}"
    by (metis mset.simps(1) mset.simps(2) mset_append)
  with True show ?thesis by (simp add: swap_remove_def)
next
  case False
  with assms have ne: "xs \<noteq> []" and lt: "i < length xs - 1" by auto
  let ?ys = "xs[i := last xs]"
  have "last ?ys = last xs" and ne': "?ys \<noteq> []"
    using ne lt by (auto simp: last_conv_nth)
  then have "mset ?ys = mset (butlast ?ys) + {# last xs #}"
    by (metis append_butlast_last_id mset.simps(1) mset.simps(2) mset_append)
  moreover have "mset ?ys = mset xs - {# xs ! i #} + {# last xs #}"
    using assms by (simp add: mset_update)
  ultimately show ?thesis using False by (simp add: swap_remove_def)
qed

section \<open>Lemmas on strings\<close>

lemma strip_prefix_Some [rust_simps]: "strip_prefix p s = Some r \<longleftrightarrow> s = p @ r"
  by (induction p s rule: strip_prefix.induct) auto

lemma strip_prefix_append [simp]: "strip_prefix p (p @ r) = Some r"
  by (simp add: strip_prefix_Some)

lemma strip_suffix_Some [rust_simps]: "strip_suffix p s = Some r \<longleftrightarrow> s = r @ p"
proof -
  have "strip_suffix p s = Some r \<longleftrightarrow> strip_prefix (rev p) (rev s) = Some (rev r)"
    by (auto simp: strip_suffix_def)
  also have "\<dots> \<longleftrightarrow> rev s = rev (r @ p)"
    by (simp add: strip_prefix_Some)
  also have "\<dots> \<longleftrightarrow> s = r @ p" by (simp only: rev_is_rev_conv)
  finally show ?thesis .
qed

lemma strip_suffix_append [simp]: "strip_suffix p (r @ p) = Some r"
  by (simp add: strip_suffix_Some)

lemma strip_suffix_None: "strip_suffix p s = None \<longleftrightarrow> (\<forall>r. s \<noteq> r @ p)"
  using strip_suffix_Some [of p s] by (metis not_None_eq)

lemma split_on_nonempty [simp]: "split_on c s \<noteq> []"
  by (induction s) (auto split: list.splits)

lemma split_on_no_sep [simp]: "c \<notin> set s \<Longrightarrow> split_on c s = [s]"
  by (induction s) auto

lemma split_on_append_sep [simp]: "c \<notin> set p \<Longrightarrow> split_on c (p @ c # s) = p # split_on c s"
  by (induction p) auto

lemma concat_split_inclusive: "concat (split_inclusive c xs) = xs"
  by (induction xs) (auto split: list.split)

lemma split_inclusive_row: "c \<notin> set r \<Longrightarrow> split_inclusive c (r @ c # s) = (r @ [c]) # split_inclusive c s"
  by (induction r) auto

lemma strip_line_row: "r = [] \<or> last r \<noteq> carriage_return \<Longrightarrow> strip_line (r @ [newline]) = r"
proof -
  assume "r = [] \<or> last r \<noteq> carriage_return"
  then have "strip_suffix [carriage_return] r = None" by (auto simp: strip_suffix_None)
  then show ?thesis by (simp add: strip_line_def)
qed

text \<open>The lines of a text that is written line by line.\<close>

lemma lines_rows:
  "\<forall>r \<in> set rs. newline \<notin> set r \<and> (r = [] \<or> last r \<noteq> carriage_return) \<Longrightarrow>
     lines (concat (map (\<lambda>r. r @ [newline]) rs)) = rs"
  by (induction rs) (auto simp: lines_def split_inclusive_row strip_line_row)

lemma join_split_on: "join_with c (split_on c s) = s"
proof (induction s)
  case (Cons x s)
  obtain p ps where s: "split_on c s = p # ps"
    by (cases "split_on c s") auto
  show ?case
  proof (cases "x = c")
    case True
    with Cons s show ?thesis by simp
  next
    case False
    with Cons s show ?thesis by (cases ps) auto
  qed
qed simp

lemma split_on_join:
  "ps \<noteq> [] \<Longrightarrow> \<forall>p \<in> set ps. c \<notin> set p \<Longrightarrow> split_on c (join_with c ps) = ps"
  by (induction c ps rule: join_with.induct) auto

lemma split_on_pieces_no_sep: "p \<in> set (split_on c s) \<Longrightarrow> c \<notin> set p"
proof (induction s arbitrary: p)
  case (Cons x s)
  then show ?case by (cases "split_on c s") (auto split: if_splits)
qed simp

lemma split_once_Some: "split_once c s = Some (a, b) \<longleftrightarrow> s = a @ c # b \<and> c \<notin> set a"
proof (induction s arbitrary: a)
  case (Cons x s)
  show ?case
  proof (cases "x = c")
    case True
    then show ?thesis by (cases a) auto
  next
    case False
    then have "split_once c (x # s) = Some (a, b) \<longleftrightarrow> (\<exists>a'. a = x # a' \<and> split_once c s = Some (a', b))"
      by auto
    also have "\<dots> \<longleftrightarrow> (\<exists>a'. a = x # a' \<and> s = a' @ c # b \<and> c \<notin> set a')"
      by (simp add: Cons.IH)
    also have "\<dots> \<longleftrightarrow> x # s = a @ c # b \<and> c \<notin> set a"
      using False by (auto simp: Cons_eq_append_conv)
    finally show ?thesis .
  qed
qed simp

lemma split_once_append [simp]: "c \<notin> set a \<Longrightarrow> split_once c (a @ c # b) = Some (a, b)"
  by (simp add: split_once_Some)

lemma split_once_None: "split_once c s = None \<longleftrightarrow> c \<notin> set s"
  by (induction s) auto

section \<open>Lemmas on UTF-8\<close>

lemma utf8_first_append: "utf8_first s = Some (n, r) \<Longrightarrow> utf8_first (s @ t) = Some (n, r @ t)"
  by (auto simp: utf8_first_def split: list.splits if_splits option.splits)

lemma utf8_tail_ok_ascii: "is_ascii c \<Longrightarrow> c \<in> set cs \<Longrightarrow> \<not> utf8_tail_ok x cs"
  by (fastforce simp: utf8_tail_ok_def list_all_iff utf8_cont_def is_ascii_def)

lemma utf8_first_append_none:
  assumes none: "utf8_first s = None" and ne: "s \<noteq> []" and c: "is_ascii c"
  shows "utf8_first (s @ c # t) = None"
proof -
  obtain b bs where s: "s = b # bs" using ne by (cases s) auto
  show ?thesis
  proof (cases "utf8_lead (byte_val b)")
    case None
    with s show ?thesis by (simp add: utf8_first_def)
  next
    case (Some wp)
    obtain w payload where wp: "wp = (w, payload)" by (cases wp)
    show ?thesis
    proof (cases "w \<le> length bs")
      case True
      with none s Some wp show ?thesis by (simp add: utf8_first_def split: if_splits)
    next
      case False
      then have "c \<in> set (take w (bs @ c # t))"
        by (cases "w - length bs") auto
      with s Some wp c show ?thesis by (simp add: utf8_first_def utf8_tail_ok_ascii)
    qed
  qed
qed

lemma utf8_decode_ascii_Cons:
  "is_ascii c \<Longrightarrow> utf8_decode (c # s) = map_option ((#) (byte_val c)) (utf8_decode s)"
  by (subst utf8_decode.simps)
    (simp add: utf8_first_def utf8_lead_def utf8_tail_ok_def is_ascii_def)

lemma utf8_decode_Nil [simp]: "utf8_decode [] = Some []"
  by (subst utf8_decode.simps) simp

lemma utf8_decode_append_ascii:
  assumes "is_ascii c"
  shows "utf8_decode (xs @ c # ys) =
    (case utf8_decode xs of None \<Rightarrow> None
     | Some ns \<Rightarrow> map_option (\<lambda>ms. ns @ byte_val c # ms) (utf8_decode ys))"
proof (induction xs rule: utf8_decode.induct)
  case (1 s)
  show ?case
  proof (cases "s = []")
    case True
    then show ?thesis using assms by (simp add: utf8_decode_ascii_Cons)
  next
    case False
    show ?thesis
    proof (cases "utf8_first s")
      case None
      with False assms show ?thesis
        by (simp add: utf8_decode.simps [of s] utf8_decode.simps [of "s @ c # ys"]
            utf8_first_append_none)
    next
      case (Some nr)
      obtain n r where nr: "nr = (n, r)" by (cases nr)
      with Some have "utf8_first (s @ c # ys) = Some (n, r @ c # ys)"
        by (simp add: utf8_first_append)
      with False Some nr "1.IH" [OF False Some nr [symmetric]] show ?thesis
        by (simp add: utf8_decode.simps [of s] utf8_decode.simps [of "s @ c # ys"]
            option.map_comp comp_def split: option.splits)
    qed
  qed
qed

lemma utf8_decode_ascii: "list_all is_ascii s \<Longrightarrow> utf8_decode s = Some (map byte_val s)"
  by (induction s) (auto simp: utf8_decode_ascii_Cons)

lemma from_utf8_ascii: "list_all is_ascii s \<Longrightarrow> from_utf8 s = Some s"
  by (simp add: from_utf8_def utf8_decode_ascii)

lemma from_utf8_Some: "from_utf8 s = Some t \<Longrightarrow> t = s"
  by (auto simp: from_utf8_def split: if_splits)

lemma utf8_decode_join_None:
  "is_ascii c \<Longrightarrow> utf8_decode (join_with c ps) = None \<longleftrightarrow> (\<exists>p \<in> set ps. utf8_decode p = None)"
  by (induction c ps rule: join_with.induct) (auto simp: utf8_decode_append_ascii split: option.splits)

section \<open>Lemmas on numbers in text\<close>

lemma byte_val_lt: "byte_val c < 256"
  by (simp add: byte_val_def)

lemma byte_val_char_of [simp]: "n < 256 \<Longrightarrow> byte_val (char_of n) = n"
  by (simp add: byte_val_def)

lemma byte_val_inject: "byte_val a = byte_val b \<longleftrightarrow> a = b"
  by (simp add: byte_val_def)

lemma digit_char_digit: "d < 10 \<Longrightarrow> to_digit 10 (digit_char d) = Some d"
  by (simp add: to_digit_def digit_char_def is_ascii_digit_def Let_def)

lemma is_ascii_digit_digit_char: "d < 10 \<Longrightarrow> is_ascii_digit (digit_char d)"
  by (simp add: digit_char_def is_ascii_digit_def)

lemma from_digits_append:
  "from_digits r a (xs @ ys) = (case from_digits r a xs of None \<Rightarrow> None | Some b \<Rightarrow> from_digits r b ys)"
  by (induction r a xs rule: from_digits.induct) (auto split: option.splits)

lemma nat_to_string_nonempty [simp]: "nat_to_string n \<noteq> []"
  by (subst nat_to_string.simps) simp

lemma nat_to_string_digits: "\<forall>c \<in> set (nat_to_string n). is_ascii_digit c"
proof (induction n rule: nat_to_string.induct)
  case (1 n)
  show ?case
  proof (cases "n < 10")
    case True
    then show ?thesis by (subst nat_to_string.simps) (simp add: is_ascii_digit_digit_char)
  next
    case False
    with "1.IH" have "\<forall>c \<in> set (nat_to_string (n div 10)). is_ascii_digit c" by simp
    with False show ?thesis
      by (subst nat_to_string.simps) (auto simp: is_ascii_digit_digit_char)
  qed
qed

lemma from_digits_nat_to_string: "from_digits 10 0 (nat_to_string n) = Some n"
proof (induction n rule: nat_to_string.induct)
  case (1 n)
  show ?case
  proof (cases "n < 10")
    case True
    then show ?thesis by (subst nat_to_string.simps) (simp add: digit_char_digit)
  next
    case False
    with "1.IH" show ?thesis
      by (subst nat_to_string.simps) (simp add: from_digits_append digit_char_digit)
  qed
qed

lemma length_nat_to_string_le: "n < 10 ^ m \<Longrightarrow> 0 < m \<Longrightarrow> length (nat_to_string n) \<le> m"
proof (induction n arbitrary: m rule: nat_to_string.induct)
  case (1 n)
  show ?case
  proof (cases "n < 10")
    case True
    with "1.prems" show ?thesis by (subst nat_to_string.simps) simp
  next
    case False
    with "1.prems" obtain m' where m: "m = Suc m'" "0 < m'" by (cases m; cases "m - 1") auto
    with "1.prems"(1) have "n div 10 < 10 ^ m'" by (simp add: less_mult_imp_div_less mult.commute)
    with "1.IH" [OF False] m False show ?thesis by (subst nat_to_string.simps) simp
  qed
qed

lemma nat_to_string_no_plus: "nat_to_string n \<noteq> CHR ''+'' # cs"
proof
  assume "nat_to_string n = CHR ''+'' # cs"
  then have "is_ascii_digit CHR ''+''" using nat_to_string_digits [of n] by simp
  then show False by (simp add: is_ascii_digit_def byte_val_def)
qed

lemma parse_nat_to_string:
  "n \<le> m \<Longrightarrow> parse_unsigned 10 m (nat_to_string n) = Some n"
proof -
  assume n: "n \<le> m"
  obtain c cs where s: "nat_to_string n = c # cs"
    by (cases "nat_to_string n") auto
  with nat_to_string_no_plus [of n cs] have "c \<noteq> CHR ''+''" by auto
  with s n from_digits_nat_to_string [of n] show ?thesis
    by (simp add: parse_unsigned_def)
qed

lemma parse_unsigned_bound: "parse_unsigned r m s = Some n \<Longrightarrow> n \<le> m"
  by (auto simp: parse_unsigned_def Let_def split: if_splits option.splits)

section \<open>Tables with an index\<close>

text \<open>
  The daemon keeps its grants, its sessions and its requests as vectors that it searches for the first
  entry with an index, filters and pushes to. The locale states what such a table promises as long as no
  two entries share their index; a provider interprets it on its own search, push and retain.
\<close>

locale keyed_table =
  fixes look :: "'t \<Rightarrow> 'i \<Rightarrow> 'g option"
    and put :: "'g \<Rightarrow> 't \<Rightarrow> 't"
    and keep :: "('g \<Rightarrow> bool) \<Rightarrow> 't \<Rightarrow> 't"
    and idx :: "'g \<Rightarrow> 'i"
    and wf :: "'t \<Rightarrow> bool"
  assumes look_idx: "look t i = Some g \<Longrightarrow> idx g = i"
    and look_put: "look t (idx g) = None \<Longrightarrow> look (put g t) = (look t)(idx g \<mapsto> g)"
    and wf_put: "wf t \<Longrightarrow> look t (idx g) = None \<Longrightarrow> wf (put g t)"
    and look_keep: "wf t \<Longrightarrow> look (keep P t) i = Option.bind (look t i) (\<lambda>g. if P g then Some g else None)"
    and wf_keep: "wf t \<Longrightarrow> wf (keep P t)"
begin

definition replace :: "'g \<Rightarrow> 't \<Rightarrow> 't" where
  "replace g t = put g (keep (\<lambda>h. idx h \<noteq> idx g) t)"

lemma look_keep_other: "wf t \<Longrightarrow> look (keep (\<lambda>h. idx h \<noteq> j) t) i = (if i = j then None else look t i)"
  by (cases "look t i") (auto simp: look_keep dest: look_idx)

lemma wf_replace: "wf t \<Longrightarrow> wf (replace g t)"
  by (simp add: replace_def wf_put wf_keep look_keep_other)

lemma look_replace: "wf t \<Longrightarrow> look (replace g t) = (look t)(idx g \<mapsto> g)"
  by (rule ext) (simp add: replace_def look_put look_keep_other)

lemma look_keep_Some: "wf t \<Longrightarrow> look (keep P t) i = Some g \<longleftrightarrow> look t i = Some g \<and> P g"
  by (cases "look t i") (auto simp: look_keep)

lemma look_keep_None: "wf t \<Longrightarrow> look t i = None \<Longrightarrow> look (keep P t) i = None"
  by (simp add: look_keep)

lemma look_keep_unaffected:
  assumes "wf t" and "\<And>g. idx g = i \<Longrightarrow> P g"
  shows "look (keep P t) i = look t i"
  using assms by (cases "look t i") (auto simp: look_keep dest: look_idx)

end

text \<open>A list searched for the first match, pushed to and filtered keeps the promise.\<close>

lemma find_key_filter:
  "distinct (map f xs) \<Longrightarrow>
   find (\<lambda>g. f g = i) (filter P xs) =
     Option.bind (find (\<lambda>g. f g = i) xs) (\<lambda>g. if P g then Some g else None)"
proof (induction xs)
  case (Cons a xs)
  have "f a \<notin> f ` set xs" using Cons.prems by auto
  then have "find (\<lambda>g. f g = f a) (filter P xs) = None" by (simp add: find_None_all image_iff) metis
  with Cons show ?case by auto
qed simp

lemma find_push:
  "find (\<lambda>g. f g = f x) xs = None \<Longrightarrow>
   (\<lambda>i. find (\<lambda>g. f g = i) (xs @ [x])) = (\<lambda>i. find (\<lambda>g. f g = i) xs)(f x \<mapsto> x)"
  by (rule ext) (auto simp: find_append split: option.split)

lemma distinct_push:
  "distinct (map f xs) \<Longrightarrow> find (\<lambda>g. f g = f x) xs = None \<Longrightarrow> distinct (map f (xs @ [x]))"
  by (auto simp: find_None_all)

lemma find_key_idx: "find (\<lambda>g. f g = i) xs = Some g \<Longrightarrow> f g = i"
  by (auto dest: find_Some_in)

lemmas list_table_laws = find_key_idx find_push distinct_push find_key_filter distinct_map_filter

end
