(* ===== verification/Proto.thy ===== *)
theory Proto
  imports Prelude
begin

text \<open>
  The wire protocol (\<open>src/proto.rs\<close>, \<open>src/proto/response.rs\<close>): error codes and their stable wire
  tokens, the request frame parser, the response header printer and the redacting \<open>Debug\<close> rendering
  of a request. The lemmas show that the wire tokens round-trip (the locale \<open>wire_codec\<close>, which other
  encoders of the daemon interpret too), that a repeated field is refused whatever it carries, that
  the order of the fields does not matter, and that a response header is always exactly one line.
\<close>

section \<open>Error codes\<close>

datatype err_code =
    BadRequest | UnknownOp | VersionMismatch | UnknownToken | NoScope | AgentTty | ForeignCaller
  | NotHumanKey | AmbiguousKey | Denied | Timeout | YubikeyUnreachable | TooManyPending | Internal

fun ErrCode_wire :: "err_code \<Rightarrow> string" where
  "ErrCode_wire BadRequest = ''BAD_REQUEST''"
| "ErrCode_wire UnknownOp = ''UNKNOWN_OP''"
| "ErrCode_wire VersionMismatch = ''VERSION_MISMATCH''"
| "ErrCode_wire UnknownToken = ''UNKNOWN_TOKEN''"
| "ErrCode_wire NoScope = ''NO_SCOPE''"
| "ErrCode_wire AgentTty = ''AGENT_TTY''"
| "ErrCode_wire ForeignCaller = ''FOREIGN_CALLER''"
| "ErrCode_wire NotHumanKey = ''NOT_HUMAN_KEY''"
| "ErrCode_wire AmbiguousKey = ''AMBIGUOUS_KEY''"
| "ErrCode_wire Denied = ''DENIED''"
| "ErrCode_wire Timeout = ''TIMEOUT''"
| "ErrCode_wire YubikeyUnreachable = ''YUBIKEY_UNREACHABLE''"
| "ErrCode_wire TooManyPending = ''TOO_MANY_PENDING''"
| "ErrCode_wire Internal = ''INTERNAL''"

definition ErrCode_parse_wire :: "string \<Rightarrow> err_code option" where
  "ErrCode_parse_wire token =
     (if token = ''BAD_REQUEST'' then Some BadRequest
      else if token = ''UNKNOWN_OP'' then Some UnknownOp
      else if token = ''VERSION_MISMATCH'' then Some VersionMismatch
      else if token = ''UNKNOWN_TOKEN'' then Some UnknownToken
      else if token = ''NO_SCOPE'' then Some NoScope
      else if token = ''AGENT_TTY'' then Some AgentTty
      else if token = ''FOREIGN_CALLER'' then Some ForeignCaller
      else if token = ''NOT_HUMAN_KEY'' then Some NotHumanKey
      else if token = ''AMBIGUOUS_KEY'' then Some AmbiguousKey
      else if token = ''DENIED'' then Some Denied
      else if token = ''TIMEOUT'' then Some Timeout
      else if token = ''YUBIKEY_UNREACHABLE'' then Some YubikeyUnreachable
      else if token = ''TOO_MANY_PENDING'' then Some TooManyPending
      else if token = ''INTERNAL'' then Some Internal
      else None)"

section \<open>Requests\<close>

definition PROTOCOL_VERSION :: nat where "PROTOCOL_VERSION = 3"
definition MAX_FRAME_BYTES :: nat where "MAX_FRAME_BYTES = 4096"

datatype request =
    Hello (hello_version: nat)
  | Register (register_token_hex: string) (register_session: string) (register_pid: int)
  | Unregister (unregister_session: string)
  | Get (get_key: string) (get_token_hex: "string option") (get_tty: "string option")
  | RequestGrant (grant_key: string) (grant_token_hex: "string option") (grant_tty: "string option")
  | Authorize (authorize_cap: string) (authorize_token_hex: "string option")
      (authorize_tty: "string option")
  | Redeem (redeem_receipt_hex: string) (redeem_cap: string)
  | Grants
  | Deny (deny_id: nat)
  | Lock

type_synonym fields = "(string \<times> string) list"

definition field :: "fields \<Rightarrow> string \<Rightarrow> string option" where
  "field fs name = map_option snd (find (\<lambda>(k, _). k = name) fs)"

definition required :: "fields \<Rightarrow> string \<Rightarrow> err_code + string" where
  "required fs name = ok_or BadRequest (field fs name)"

text \<open>The loop of \<open>parse_request\<close> over the tab-separated parts after the operation.\<close>

fun parse_fields :: "fields \<Rightarrow> string list \<Rightarrow> err_code + fields" where
  "parse_fields fs [] = Inr fs"
| "parse_fields fs (part # parts) =
     (case split_once CHR ''='' part of
        None \<Rightarrow> Inl BadRequest
      | Some (k, v) \<Rightarrow>
          if field fs k \<noteq> None then Inl BadRequest else parse_fields (fs @ [(k, v)]) parts)"

text \<open>The \<open>match op\<close> at the end of \<open>parse_request\<close>.\<close>

definition build_request :: "string \<Rightarrow> fields \<Rightarrow> err_code + request" where
  "build_request op fs =
     (if op = ''HELLO'' then
        and_then (required fs ''version'') (\<lambda>raw.
        and_then (ok_or BadRequest (parse_unsigned 10 U32_MAX raw)) (\<lambda>v. Inr (Hello v)))
      else if op = ''REGISTER'' then
        and_then (required fs ''token'') (\<lambda>token.
        and_then (required fs ''session'') (\<lambda>session.
        and_then (required fs ''pid'') (\<lambda>raw.
        and_then (ok_or BadRequest (parse_i32 raw)) (\<lambda>pid. Inr (Register token session pid)))))
      else if op = ''UNREGISTER'' then
        and_then (required fs ''session'') (\<lambda>session. Inr (Unregister session))
      else if op = ''GET'' then
        and_then (required fs ''key'') (\<lambda>key.
          Inr (Get key (field fs ''token'') (field fs ''tty'')))
      else if op = ''REQUEST'' then
        and_then (required fs ''key'') (\<lambda>key.
          Inr (RequestGrant key (field fs ''token'') (field fs ''tty'')))
      else if op = ''AUTHORIZE'' then
        and_then (required fs ''cap'') (\<lambda>cap.
          Inr (Authorize cap (field fs ''token'') (field fs ''tty'')))
      else if op = ''REDEEM'' then
        and_then (required fs ''receipt'') (\<lambda>receipt.
        and_then (required fs ''cap'') (\<lambda>cap. Inr (Redeem receipt cap)))
      else if op = ''GRANTS'' then Inr Grants
      else if op = ''DENY'' then
        and_then (required fs ''id'') (\<lambda>raw.
        and_then (ok_or BadRequest (parse_unsigned 10 U64_MAX raw)) (\<lambda>i. Inr (Deny i)))
      else if op = ''LOCK'' then Inr Lock
      else Inl UnknownOp)"

definition parse_request :: "string \<Rightarrow> err_code + request" where
  "parse_request line =
     (if line = [] \<or> length line > MAX_FRAME_BYTES then Inl BadRequest
      else
        and_then (ok_or BadRequest (from_utf8 line)) (\<lambda>text.
          case split_on tab text of
            [] \<Rightarrow> Inl BadRequest
          | op # parts \<Rightarrow> and_then (parse_fields [] parts) (\<lambda>fs. build_request op fs)))"

section \<open>Redacted rendering\<close>

text \<open>
  \<open>impl Debug for Request\<close> builds a \<open>debug_struct\<close>: a name and, per field, either the value or the
  literal \<open><redacted>\<close>. The formatter's escaping of the values is the standard library's; the model
  keeps the structure handed to it. A value whose own \<open>Debug\<close> writes a fixed text is \<open>DebugWritten\<close>, a
  nested structure \<open>DebugStruct\<close>.
\<close>

datatype debug_value =
    DebugNat nat
  | DebugInt int
  | DebugBool bool
  | DebugStr string
  | DebugOpt "string option"
  | DebugBytes string
  | DebugCode err_code
  | DebugWritten string
  | DebugStruct string "(string \<times> debug_value) list"

type_synonym debug_struct = "string \<times> (string \<times> debug_value) list"

definition redacted :: debug_value where "redacted = DebugStr ''<redacted>''"

fun Request_fmt :: "request \<Rightarrow> debug_struct" where
  "Request_fmt (Hello version) = (''Hello'', [(''version'', DebugNat version)])"
| "Request_fmt (Register _ session pid) =
     (''Register'', [(''token_hex'', redacted), (''session'', DebugStr session), (''pid'', DebugInt pid)])"
| "Request_fmt (Unregister session) = (''Unregister'', [(''session'', DebugStr session)])"
| "Request_fmt (Get key _ tty) =
     (''Get'', [(''key'', DebugStr key), (''token_hex'', redacted), (''tty'', DebugOpt tty)])"
| "Request_fmt (RequestGrant key _ tty) =
     (''RequestGrant'', [(''key'', DebugStr key), (''token_hex'', redacted), (''tty'', DebugOpt tty)])"
| "Request_fmt (Authorize cap _ tty) =
     (''Authorize'', [(''cap'', DebugStr cap), (''token_hex'', redacted), (''tty'', DebugOpt tty)])"
| "Request_fmt (Redeem _ cap) =
     (''Redeem'', [(''receipt_hex'', redacted), (''cap'', DebugStr cap)])"
| "Request_fmt Grants = (''Grants'', [])"
| "Request_fmt (Deny i) = (''Deny'', [(''id'', DebugNat i)])"
| "Request_fmt Lock = (''Lock'', [])"

section \<open>Responses\<close>

datatype response =
    RespOk
  | RespOkFields string
  | RespOkBytes nat
  | RespFailed err_code string

definition sanitize :: "string \<Rightarrow> string" where
  "sanitize text =
     map (\<lambda>c. if c = newline \<or> c = carriage_return \<or> c = tab then CHR '' '' else c) text"

fun format_response :: "response \<Rightarrow> string" where
  "format_response RespOk = ''OK'' @ [newline]"
| "format_response (RespOkFields fs) = ''OK'' @ [tab] @ sanitize fs @ [newline]"
| "format_response (RespOkBytes len) = ''OK'' @ [tab] @ ''len='' @ nat_to_string len @ [newline]"
| "format_response (RespFailed code message) =
     ''ERR'' @ [tab] @ ErrCode_wire code @ [tab] @ sanitize message @ [newline]"

text \<open>The tripwire of \<open>format_response\<close>, a \<open>debug_assert!\<close> compiled out of release builds.\<close>

definition ok_fields_shape :: "string \<Rightarrow> bool" where
  "ok_fields_shape fs \<longleftrightarrow>
     list_all (\<lambda>f. f \<noteq> [] \<and> CHR ''='' \<in> set f) (split_on CHR '' '' (sanitize fs))"

section \<open>Encoders and decoders\<close>

text \<open>
  The contract of a textual encoding: what is printed is read back, and only printed texts are
  accepted. Injectivity and the exact domain of the decoder follow once and for all.
\<close>

locale wire_codec =
  fixes encode :: "'a \<Rightarrow> string"
    and decode :: "string \<Rightarrow> 'a option"
    and valid :: "'a \<Rightarrow> bool"
  assumes decode_encode: "valid x \<Longrightarrow> decode (encode x) = Some x"
    and decode_sound: "decode s = Some x \<Longrightarrow> valid x \<and> encode x = s"
begin

lemma encode_inject: "valid x \<Longrightarrow> valid y \<Longrightarrow> encode x = encode y \<longleftrightarrow> x = y"
  by (metis decode_encode option.inject)

lemma decode_iff: "decode s = Some x \<longleftrightarrow> valid x \<and> encode x = s"
  using decode_encode decode_sound by blast

lemma decode_None_iff: "decode s = None \<longleftrightarrow> (\<forall>x. valid x \<longrightarrow> encode x \<noteq> s)"
  using decode_iff by (metis not_None_eq)

end

lemma ErrCode_parse_wire_wire: "ErrCode_parse_wire (ErrCode_wire c) = Some c"
  by (cases c) (simp_all add: ErrCode_parse_wire_def)

lemma ErrCode_wire_parse_wire: "ErrCode_parse_wire s = Some c \<Longrightarrow> ErrCode_wire c = s"
  by (auto simp: ErrCode_parse_wire_def split: if_splits)

interpretation err_wire: wire_codec ErrCode_wire ErrCode_parse_wire "\<lambda>_. True"
  by unfold_locales (simp_all add: ErrCode_parse_wire_wire ErrCode_wire_parse_wire)


section \<open>The request parser\<close>

definition part_pair :: "string \<Rightarrow> string \<times> string" where
  "part_pair p = the (split_once CHR ''='' p)"

lemma field_eq_map_of: "field fs name = map_of fs name"
  by (induction fs) (auto simp: field_def)

lemma field_None_iff: "field fs name = None \<longleftrightarrow> name \<notin> fst ` set fs"
  by (simp add: field_eq_map_of map_of_eq_None_iff)

lemma parse_fields_Inl: "parse_fields fs parts = Inl e \<Longrightarrow> e = BadRequest"
  by (induction fs parts rule: parse_fields.induct) (auto split: option.splits if_splits)

text \<open>The parser accepts the parts exactly when each has an equals sign and no key repeats.\<close>

lemma parse_fields_Inr:
  "distinct (map fst fs) \<Longrightarrow>
   parse_fields fs parts = Inr r \<longleftrightarrow>
     (\<forall>p \<in> set parts. CHR ''='' \<in> set p)
     \<and> distinct (map fst (fs @ map part_pair parts)) \<and> r = fs @ map part_pair parts"
proof (induction parts arbitrary: fs)
  case (Cons p parts)
  show ?case
  proof (cases "split_once CHR ''='' p")
    case None
    then show ?thesis using split_once_None [of "CHR ''=''" p] by simp
  next
    case (Some kv)
    obtain k v where kv: "kv = (k, v)" by (cases kv)
    have has: "CHR ''='' \<in> set p" using Some split_once_None [of "CHR ''=''" p] by auto
    have pp: "part_pair p = (k, v)" using Some kv by (simp add: part_pair_def)
    show ?thesis
    proof (cases "k \<in> fst ` set fs")
      case True
      with Some kv pp show ?thesis by (auto simp: field_eq_map_of dest: map_of_eq_None_iff [THEN iffD1])
    next
      case False
      then have "distinct (map fst (fs @ [(k, v)]))" using Cons.prems by simp
      from Cons.IH [OF this] False Some kv pp has show ?thesis
        by (simp add: field_None_iff)
    qed
  qed
qed auto

lemma parse_fields_cases:
  "parse_fields [] parts = Inl BadRequest \<or> parse_fields [] parts = Inr (map part_pair parts)"
proof (cases "parse_fields [] parts")
  case (Inl e)
  then show ?thesis using parse_fields_Inl by blast
next
  case (Inr r)
  then show ?thesis using parse_fields_Inr [of "[]" parts r] by simp
qed

lemma parse_fields_mset:
  assumes "mset parts = mset parts'"
  shows "(\<exists>r. parse_fields [] parts = Inr r) \<longleftrightarrow> (\<exists>r. parse_fields [] parts' = Inr r)"
proof -
  have s: "set parts = set parts'" using assms by (rule mset_eq_setD)
  have "mset (map fst (map part_pair parts)) = mset (map fst (map part_pair parts'))"
    using assms by simp
  then have "distinct (map fst (map part_pair parts)) \<longleftrightarrow> distinct (map fst (map part_pair parts'))"
    by (rule mset_eq_imp_distinct_iff)
  with s show ?thesis by (simp add: parse_fields_Inr)
qed

lemma build_request_cong:
  "(\<And>n. field fs n = field fs' n) \<Longrightarrow> build_request op fs = build_request op fs'"
  by (simp add: build_request_def required_def)

lemma parse_fields_permute:
  assumes "mset parts = mset parts'"
  shows "and_then (parse_fields [] parts) (build_request op) =
         and_then (parse_fields [] parts') (build_request op)"
proof (cases "parse_fields [] parts")
  case (Inl e)
  with parse_fields_mset [OF assms] parse_fields_Inl [OF Inl] show ?thesis
    by (cases "parse_fields [] parts'") (auto dest: parse_fields_Inl)
next
  case (Inr r)
  with parse_fields_mset [OF assms] obtain r' where r': "parse_fields [] parts' = Inr r'" by auto
  have d: "distinct (map fst r)" "distinct (map fst r')"
    and e: "r = map part_pair parts" "r' = map part_pair parts'"
    using Inr r' by (simp_all add: parse_fields_Inr)
  have "set r = set r'" using e mset_eq_setD [OF assms] by simp
  then have "map_of r = map_of r'" using d by (simp add: map_of_inject_set)
  then have "build_request op r = build_request op r'"
    by (intro build_request_cong) (simp add: field_eq_map_of)
  with Inr r' show ?thesis by simp
qed

lemma is_ascii_tab: "is_ascii tab"
  by (simp add: is_ascii_def tab_def byte_val_def)

lemma parse_request_join:
  assumes "tab \<notin> set op" and "\<forall>p \<in> set parts. tab \<notin> set p"
  shows "parse_request (join_with tab (op # parts)) =
    (let line = join_with tab (op # parts) in
     if line = [] \<or> length line > MAX_FRAME_BYTES \<or> utf8_decode line = None then Inl BadRequest
     else and_then (parse_fields [] parts) (build_request op))"
  using split_on_join [of "op # parts" tab] assms
  by (simp add: parse_request_def Let_def from_utf8_def)

text \<open>The order of the fields of a request frame carries no meaning: two frames with the same
  operation whose tab-separated parts are a permutation of each other parse to the same result,
  errors included.\<close>

theorem parse_request_field_order:
  assumes "tab \<notin> set op" and "\<forall>p \<in> set parts. tab \<notin> set p" and "mset parts = mset parts'"
  shows "parse_request (join_with tab (op # parts)) = parse_request (join_with tab (op # parts'))"
proof -
  have len: "length (join_with tab ps) = sum_list (map (Suc \<circ> length) ps) - 1" for ps :: "string list"
    by (induction tab ps rule: join_with.induct) auto
  have dec: "utf8_decode (join_with tab (op # ps)) = None \<longleftrightarrow> (\<exists>p \<in> set (op # ps). utf8_decode p = None)"
    for ps by (rule utf8_decode_join_None [OF is_ascii_tab])
  have s: "set parts = set parts'" using assms(3) by (rule mset_eq_setD)
  have l: "length (join_with tab (op # parts)) = length (join_with tab (op # parts'))"
    unfolding len using assms(3) by (metis (no_types) list.simps(9) mset_map sum_mset_sum_list sum_list.Cons)
  have "and_then (parse_fields [] parts) (build_request op) =
        and_then (parse_fields [] parts') (build_request op)"
    by (rule parse_fields_permute [OF assms(3)])
  moreover have "join_with tab (op # parts) = [] \<longleftrightarrow> join_with tab (op # parts') = []"
    using l by (metis length_0_conv)
  moreover have "utf8_decode (join_with tab (op # parts)) = None \<longleftrightarrow>
                 utf8_decode (join_with tab (op # parts')) = None"
    unfolding dec using s by simp
  moreover have p': "\<forall>p \<in> set parts'. tab \<notin> set p" using assms(2) s by simp
  ultimately show ?thesis
    using l parse_request_join [OF assms(1,2)] parse_request_join [OF assms(1) p']
    by (simp only: Let_def)
qed

text \<open>A \<open>GET\<close> frame whose terminal comes before its key.\<close>

theorem parse_request_field_order_witness:
  "parse_request (join_with tab [''GET'', ''key=K'', ''tty=/dev/pts/3'']) =
     parse_request (join_with tab [''GET'', ''tty=/dev/pts/3'', ''key=K''])
   \<and> parse_request (join_with tab [''GET'', ''key=K'', ''tty=/dev/pts/3'']) =
       Inr (Get ''K'' None (Some ''/dev/pts/3''))"
proof
  show "parse_request (join_with tab [''GET'', ''key=K'', ''tty=/dev/pts/3'']) =
     parse_request (join_with tab [''GET'', ''tty=/dev/pts/3'', ''key=K''])"
    by (rule parse_request_field_order) (simp_all add: tab_def add_mset_commute)
  show "parse_request (join_with tab [''GET'', ''key=K'', ''tty=/dev/pts/3'']) =
       Inr (Get ''K'' None (Some ''/dev/pts/3''))"
    by code_simp
qed

text \<open>A frame that carries two parts with the same key is refused as malformed, whatever the
  operation, the values and the position of the parts.\<close>

theorem parse_request_duplicate_field:
  assumes "tab \<notin> set op" and "\<forall>p \<in> set parts. tab \<notin> set p"
    and "i < j" and "j < length parts"
    and "parts ! i = k @ CHR ''='' # v" and "parts ! j = k @ CHR ''='' # w" and "CHR ''='' \<notin> set k"
  shows "parse_request (join_with tab (op # parts)) = Inl BadRequest"
proof -
  have "part_pair (parts ! i) = (k, v)" "part_pair (parts ! j) = (k, w)"
    using assms(5-7) by (simp_all add: part_pair_def)
  then have "map fst (map part_pair parts) ! i = map fst (map part_pair parts) ! j"
    using assms(3,4) by simp
  then have "\<not> distinct (map fst (map part_pair parts))"
    using assms(3,4)
    by (metis length_map less_irrefl less_trans nth_eq_iff_index_eq)
  then have "\<nexists>r. parse_fields [] parts = Inr r"
    by (simp add: parse_fields_Inr)
  then have "parse_fields [] parts = Inl BadRequest"
    using parse_fields_cases by blast
  then show ?thesis by (simp add: parse_request_join [OF assms(1,2)] Let_def)
qed

theorem parse_request_duplicate_field_witness:
  "parse_request (join_with tab [''AUTHORIZE'', ''cap=browser'', ''cap=admin'']) = Inl BadRequest"
  by (rule parse_request_duplicate_field
        [where i = 0 and j = 1 and k = "''cap''" and v = "''browser''" and w = "''admin''"])
    (simp_all add: tab_def)

section \<open>Framing and redaction\<close>

lemma sanitize_no_break: "newline \<notin> set (sanitize s) \<and> carriage_return \<notin> set (sanitize s) \<and> tab \<notin> set (sanitize s)"
  by (auto simp: sanitize_def newline_def carriage_return_def tab_def split: if_splits)

lemma wire_no_newline: "newline \<notin> set (ErrCode_wire c)"
  by (cases c) (simp_all add: newline_def)

lemma nat_to_string_no_newline: "newline \<notin> set (nat_to_string n)"
  using nat_to_string_digits [of n] by (auto simp: newline_def is_ascii_digit_def byte_val_def)

text \<open>Whatever text the daemon puts in a response, the header it prints is exactly one line:
  the header without its last byte holds no newline, and that last byte is one. A field or message
  can therefore never be read as a second header or as payload.\<close>

theorem format_response_one_line:
  "\<exists>h. format_response r = h @ [newline] \<and> newline \<notin> set h"
  by (cases r)
    (auto simp: sanitize_no_break wire_no_newline nat_to_string_no_newline,
     auto simp: newline_def tab_def)

text \<open>The \<open>Debug\<close> rendering of a request does not depend on the bearer credentials in it: two
  requests that differ only in their token or receipt render alike.\<close>

lemma Request_fmt_redacts:
  "Request_fmt (Register t s p) = Request_fmt (Register t' s p)
   \<and> Request_fmt (Get k u y) = Request_fmt (Get k u' y)
   \<and> Request_fmt (RequestGrant k u y) = Request_fmt (RequestGrant k u' y)
   \<and> Request_fmt (Authorize c u y) = Request_fmt (Authorize c u' y)
   \<and> Request_fmt (Redeem r c) = Request_fmt (Redeem r' c)"
  by simp

end
