(* ===== verification/Secret.thy ===== *)
theory Secret
  imports Proto
begin

text \<open>
  Secret names, human-tier file names and decrypted plaintext (\<open>src/secret.rs\<close>). A \<open>SecretName\<close> is
  the newtype of the source, ordered as its string is; \<open>SecretBytes\<close> is its byte sequence (wiping it
  on drop has no counterpart in a functional model). The lemmas show that a file name determines its
  key and tier and back, that a validated name is safe as a path component, and that the plaintext
  check accepts exactly the files with one assignment, to the requested key.
\<close>

section \<open>Names\<close>

definition MAX_NAME_LEN :: nat where "MAX_NAME_LEN = 128"

datatype secret_name = SecretName (as_str: string)

instantiation secret_name :: linorder
begin

definition less_eq_secret_name :: "secret_name \<Rightarrow> secret_name \<Rightarrow> bool" where
  "less_eq_secret_name a b \<longleftrightarrow> as_str a \<le> as_str b"

definition less_secret_name :: "secret_name \<Rightarrow> secret_name \<Rightarrow> bool" where
  "less_secret_name a b \<longleftrightarrow> as_str a < as_str b"

instance
  by standard (auto simp: less_eq_secret_name_def less_secret_name_def secret_name.expand)

end

definition name_char :: "char \<Rightarrow> bool" where
  "name_char c \<longleftrightarrow> is_ascii_alphanumeric c \<or> c = CHR ''_''"

definition SecretName_parse :: "string \<Rightarrow> err_code + secret_name" where
  "SecretName_parse raw =
     (if raw = [] \<or> length raw > MAX_NAME_LEN then Inl BadRequest
      else case raw of
          [] \<Rightarrow> Inl BadRequest
        | first # rest \<Rightarrow>
            if \<not> is_ascii_alphabetic first \<and> first \<noteq> CHR ''_'' then Inl BadRequest
            else if \<not> list_all name_char rest then Inl BadRequest
            else Inr (SecretName raw))"

definition file_name :: "secret_name \<Rightarrow> string" where
  "file_name n = as_str n @ ''.env''"

definition local_file_name :: "secret_name \<Rightarrow> string" where
  "local_file_name n = as_str n @ ''.local.env''"

datatype human_file_name =
    Ignored
  | Key (key_name: secret_name) (key_local: bool)
  | Invalid

definition parse_human_file_name :: "string \<Rightarrow> human_file_name" where
  "parse_human_file_name f =
     (case strip_suffix ''.env'' f of
        None \<Rightarrow> Ignored
      | Some stem \<Rightarrow>
          (let (raw_name, is_local) =
             (case strip_suffix ''.local'' stem of
                None \<Rightarrow> (stem, False) | Some raw \<Rightarrow> (raw, True))
           in case SecretName_parse raw_name of
                Inl _ \<Rightarrow> Invalid
              | Inr name \<Rightarrow> Key name is_local))"

section \<open>Plaintext\<close>

type_synonym secret_bytes = string

definition SecretBytes_fmt :: "secret_bytes \<Rightarrow> debug_value" where
  "SecretBytes_fmt bytes = DebugWritten ''SecretBytes(<redacted>)''"

definition strip_cr :: "string \<Rightarrow> string" where
  "strip_cr l = (case strip_suffix [carriage_return] l of None \<Rightarrow> l | Some l' \<Rightarrow> l')"

definition skipped_line :: "string \<Rightarrow> bool" where
  "skipped_line l \<longleftrightarrow> l = [] \<or> hd l = CHR ''#''"

text \<open>The loop of \<open>parse_single_assignment\<close>, with the value found so far.\<close>

fun scan_assignments :: "secret_name \<Rightarrow> string option \<Rightarrow> string list \<Rightarrow> err_code + string option" where
  "scan_assignments expected found [] = Inr found"
| "scan_assignments expected found (raw # rest) =
     (let line = strip_cr raw in
      if skipped_line line then scan_assignments expected found rest
      else case split_once CHR ''='' line of
          None \<Rightarrow> Inl Internal
        | Some (name, value) \<Rightarrow>
            if name \<noteq> as_str expected \<or> found \<noteq> None \<or> nul \<in> set value then Inl Internal
            else scan_assignments expected (Some value) rest)"

definition parse_single_assignment :: "string \<Rightarrow> secret_name \<Rightarrow> err_code + secret_bytes" where
  "parse_single_assignment plaintext expected =
     and_then (scan_assignments expected None (split_on newline plaintext)) (ok_or Internal)"

section \<open>Validity\<close>

definition valid_name :: "string \<Rightarrow> bool" where
  "valid_name s \<longleftrightarrow>
     s \<noteq> [] \<and> length s \<le> MAX_NAME_LEN \<and> (is_ascii_alphabetic (hd s) \<or> hd s = CHR ''_'')
     \<and> list_all name_char s"

lemma SecretName_parse_Inr: "SecretName_parse s = Inr n \<longleftrightarrow> valid_name s \<and> n = SecretName s"
  by (cases s) (auto simp: SecretName_parse_def valid_name_def name_char_def is_ascii_alphanumeric_def)

lemma SecretName_parse_Inl: "SecretName_parse s = Inl e \<longleftrightarrow> \<not> valid_name s \<and> e = BadRequest"
  by (cases s) (auto simp: SecretName_parse_def valid_name_def name_char_def is_ascii_alphanumeric_def)

lemma SecretName_parse_valid [simp]: "valid_name s \<Longrightarrow> SecretName_parse s = Inr (SecretName s)"
  by (simp add: SecretName_parse_Inr)

lemma valid_name_chars: "valid_name s \<Longrightarrow> c \<in> set s \<Longrightarrow> name_char c"
  by (simp add: valid_name_def list_all_iff)

lemma not_name_char: "\<not> name_char CHR ''.''" "\<not> name_char CHR ''/''" "\<not> name_char CHR ''=''"
  "\<not> name_char newline" "\<not> name_char carriage_return" "\<not> name_char tab" "\<not> name_char CHR ''#''"
  "\<not> name_char nul" "\<not> name_char CHR '' ''"
  by (simp_all add: name_char_def is_ascii_alphanumeric_def is_ascii_alphabetic_def
      is_ascii_lowercase_def is_ascii_uppercase_def is_ascii_digit_def byte_val_def
      newline_def carriage_return_def tab_def nul_def)

lemma valid_name_no_local: "valid_name s \<Longrightarrow> strip_suffix ''.local'' s = None"
  using not_name_char(1) valid_name_chars by (force simp: strip_suffix_None)

section \<open>File names\<close>

lemma parse_human_file_name_Key:
  "parse_human_file_name f = Key n l \<longleftrightarrow>
     valid_name (as_str n) \<and> f = (if l then local_file_name n else file_name n)"
proof
  assume k: "parse_human_file_name f = Key n l"
  then obtain stem where stem: "f = stem @ ''.env''"
    by (auto simp: parse_human_file_name_def strip_suffix_Some split: option.splits)
  show "valid_name (as_str n) \<and> f = (if l then local_file_name n else file_name n)"
    using k stem
    by (auto simp: parse_human_file_name_def file_name_def local_file_name_def SecretName_parse_Inr
        SecretName_parse_Inl strip_suffix_Some split: option.splits sum.splits)
next
  assume "valid_name (as_str n) \<and> f = (if l then local_file_name n else file_name n)"
  then show "parse_human_file_name f = Key n l"
    using strip_suffix_append [of "''.env''" "as_str n @ ''.local''"]
      strip_suffix_append [of "''.env''" "as_str n"] strip_suffix_append [of "''.local''" "as_str n"]
    by (auto simp: parse_human_file_name_def file_name_def local_file_name_def valid_name_no_local)
qed

definition encode_file :: "secret_name \<times> bool \<Rightarrow> string" where
  "encode_file nl = (if snd nl then local_file_name (fst nl) else file_name (fst nl))"

definition decode_file :: "string \<Rightarrow> (secret_name \<times> bool) option" where
  "decode_file f = (case parse_human_file_name f of Key n l \<Rightarrow> Some (n, l) | _ \<Rightarrow> None)"

interpretation human_file: wire_codec encode_file decode_file "\<lambda>nl. valid_name (as_str (fst nl))"
proof unfold_locales
  fix nl :: "secret_name \<times> bool"
  assume "valid_name (as_str (fst nl))"
  then have "parse_human_file_name (encode_file nl) = Key (fst nl) (snd nl)"
    by (simp add: parse_human_file_name_Key encode_file_def)
  then show "decode_file (encode_file nl) = Some nl" by (simp add: decode_file_def)
next
  fix f and nl :: "secret_name \<times> bool"
  assume "decode_file f = Some nl"
  then have "parse_human_file_name f = Key (fst nl) (snd nl)"
    by (auto simp: decode_file_def split: human_file_name.splits)
  then show "valid_name (as_str (fst nl)) \<and> encode_file nl = f"
    by (simp add: parse_human_file_name_Key encode_file_def)
qed

text \<open>A human-tier file name and the key with its tier determine each other: a file is
  classified as the key \<open>n\<close> exactly when \<open>n\<close> is a valid name and the file is called
  \<open>n.local.env\<close> (machine-local) or \<open>n.env\<close> (committed). The classification of any name without
  the suffix \<open>.env\<close> is \<open>Ignored\<close>, of any other name with it \<open>Invalid\<close>.\<close>

theorem human_file_name_determines_key:
  "parse_human_file_name f =
     (if \<nexists>stem. f = stem @ ''.env'' then Ignored
      else case decode_file f of Some (n, l) \<Rightarrow> Key n l | None \<Rightarrow> Invalid)
   \<and> (decode_file f = Some (n, l) \<longleftrightarrow>
        valid_name (as_str n) \<and> f = (if l then local_file_name n else file_name n))"
proof
  have "parse_human_file_name f = Ignored \<longleftrightarrow> strip_suffix ''.env'' f = None"
    by (simp add: parse_human_file_name_def Let_def split: option.split prod.split sum.split)
  then have ign: "parse_human_file_name f = Ignored \<longleftrightarrow> (\<nexists>stem. f = stem @ ''.env'')"
    by (simp only: strip_suffix_None not_ex)
  show "parse_human_file_name f =
     (if \<nexists>stem. f = stem @ ''.env'' then Ignored
      else case decode_file f of Some (n, l) \<Rightarrow> Key n l | None \<Rightarrow> Invalid)"
    unfolding ign [symmetric]
    by (cases "parse_human_file_name f") (simp_all add: decode_file_def)
  show "decode_file f = Some (n, l) \<longleftrightarrow>
        valid_name (as_str n) \<and> f = (if l then local_file_name n else file_name n)"
    using human_file.decode_iff [of f "(n, l)"] unfolding encode_file_def by (metis fst_conv snd_conv)
qed

text \<open>A name a client can get accepted is safe to build a path from: the file names derived
  from it are single path components, longer than one byte, without a slash and without a leading
  dot, so they name neither a parent nor a hidden file nor anything in another directory.\<close>

theorem accepted_name_is_path_component:
  assumes "SecretName_parse raw = Inr n"
  shows "CHR ''/'' \<notin> set (file_name n) \<and> CHR ''/'' \<notin> set (local_file_name n)
    \<and> hd (file_name n) \<noteq> CHR ''.'' \<and> hd (local_file_name n) \<noteq> CHR ''.''
    \<and> length (file_name n) \<le> MAX_NAME_LEN + 4 \<and> length (local_file_name n) \<le> MAX_NAME_LEN + 10"
proof -
  have n: "as_str n = raw" and v: "valid_name raw" using assms by (auto simp: SecretName_parse_Inr)
  then have c: "CHR ''/'' \<notin> set raw" "CHR ''.'' \<notin> set raw"
    using not_name_char valid_name_chars by blast+
  moreover obtain x xs where r: "raw = x # xs" using v by (cases raw) (auto simp: valid_name_def)
  ultimately show ?thesis
    using v n by (auto simp: file_name_def local_file_name_def valid_name_def)
qed

theorem accepted_name_is_path_component_witness:
  "SecretName_parse ''DEEL_API_KEY'' = Inr (SecretName ''DEEL_API_KEY'')
   \<and> CHR ''/'' \<notin> set (file_name (SecretName ''DEEL_API_KEY''))
   \<and> length (file_name (SecretName ''DEEL_API_KEY'')) \<le> 132"
proof -
  have p: "SecretName_parse ''DEEL_API_KEY'' = Inr (SecretName ''DEEL_API_KEY'')" by code_simp
  from p accepted_name_is_path_component [OF p] show ?thesis by (simp add: MAX_NAME_LEN_def)
qed

section \<open>The anti-swap check\<close>

definition significant_lines :: "string \<Rightarrow> string list" where
  "significant_lines plaintext = filter (\<lambda>l. \<not> skipped_line l) (map strip_cr (split_on newline plaintext))"

lemma scan_assignments_found:
  "scan_assignments n (Some v) ls = Inr r \<longleftrightarrow>
     filter (\<lambda>l. \<not> skipped_line l) (map strip_cr ls) = [] \<and> r = Some v"
  by (induction ls) (auto simp: Let_def split: option.splits prod.splits)

lemma scan_assignments_none:
  assumes "CHR ''='' \<notin> set (as_str n)"
  shows "scan_assignments n None ls = Inr (Some v) \<longleftrightarrow>
     filter (\<lambda>l. \<not> skipped_line l) (map strip_cr ls) = [as_str n @ CHR ''='' # v] \<and> nul \<notin> set v"
proof (induction ls)
  case (Cons l ls)
  show ?case
  proof (cases "skipped_line (strip_cr l)")
    case True
    with Cons show ?thesis by simp
  next
    case skip: False
    show ?thesis
    proof (cases "split_once CHR ''='' (strip_cr l)")
      case None
      then have "CHR ''='' \<notin> set (strip_cr l)" using split_once_None by metis
      then have "strip_cr l \<noteq> as_str n @ CHR ''='' # v" by auto
      with None skip show ?thesis by simp
    next
      case (Some kv)
      obtain k w where kv: "kv = (k, w)" by (cases kv)
      with Some have l: "strip_cr l = k @ CHR ''='' # w" "CHR ''='' \<notin> set k"
        using split_once_Some by metis+
      have eq: "k @ CHR ''='' # w = as_str n @ CHR ''='' # v \<longleftrightarrow> k = as_str n \<and> w = v"
        using assms l(2) split_once_append [of "CHR ''=''" k w]
          split_once_append [of "CHR ''=''" "as_str n" v] by (metis option.inject prod.inject)
      show ?thesis
        using skip Some kv by (auto simp: scan_assignments_found l(1) eq)
    qed
  qed
qed simp

lemma parse_single_assignment_iff:
  assumes "valid_name (as_str n)"
  shows "parse_single_assignment plaintext n = Inr v \<longleftrightarrow>
    significant_lines plaintext = [as_str n @ CHR ''='' # v] \<and> nul \<notin> set v"
proof -
  have "CHR ''='' \<notin> set (as_str n)" using assms not_name_char(3) valid_name_chars by blast
  from scan_assignments_none [OF this] show ?thesis
    by (simp add: parse_single_assignment_def significant_lines_def and_then_Inr ok_or_Inr)
qed

text \<open>C39: The anti-swap check is exact: decrypted plaintext yields the value \<open>v\<close> for a validated
  key exactly when, comments and blank lines aside, the file holds one line, that line assigns
  \<open>v\<close> to this very key, and \<open>v\<close> holds no NUL byte. Substituted ciphertext of another key, or a
  file with a second assignment, never yields a value.\<close>

theorem parse_single_assignment_exact:
  assumes "valid_name (as_str n)"
  shows "parse_single_assignment plaintext n = Inr v \<longleftrightarrow>
    significant_lines plaintext = [as_str n @ CHR ''='' # v] \<and> nul \<notin> set v"
  using assms by (rule parse_single_assignment_iff)

theorem parse_single_assignment_exact_witness:
  "valid_name ''K'' \<and> parse_single_assignment (''# c'' @ [newline] @ ''K=a=b'' @ [newline]) (SecretName ''K'') = Inr ''a=b''"
proof -
  have v: "valid_name (as_str (SecretName ''K''))" by code_simp
  have "significant_lines (''# c'' @ [newline] @ ''K=a=b'' @ [newline]) = [as_str (SecretName ''K'') @ CHR ''='' # ''a=b'']
    \<and> nul \<notin> set ''a=b''" by code_simp
  with v parse_single_assignment_exact [OF v] show ?thesis by simp
qed

lemma scan_assignments_no_nul:
  "scan_assignments n found ls = Inr (Some v) \<Longrightarrow> found = Some v \<or> nul \<notin> set v"
  by (induction n found ls rule: scan_assignments.induct) (auto simp: Let_def split: if_splits option.splits)

lemma parse_single_assignment_no_nul: "parse_single_assignment plaintext n = Inr v \<Longrightarrow> nul \<notin> set v"
  by (auto simp: parse_single_assignment_def and_then_Inr ok_or_Inr dest: scan_assignments_no_nul)

text \<open>A value never carries a line break, so it cannot be read back as a second assignment.\<close>

lemma parse_single_assignment_no_newline:
  assumes "valid_name (as_str n)" and "parse_single_assignment plaintext n = Inr v"
  shows "newline \<notin> set v"
proof -
  have "as_str n @ CHR ''='' # v \<in> set (significant_lines plaintext)"
    using assms(2) unfolding parse_single_assignment_iff [OF assms(1)] by simp
  then obtain l where l: "l \<in> set (split_on newline plaintext)" "strip_cr l = as_str n @ CHR ''='' # v"
    by (auto simp: significant_lines_def)
  have "set (strip_cr l) \<subseteq> set l"
    by (auto simp: strip_cr_def strip_suffix_Some split: option.splits)
  with l split_on_pieces_no_sep [OF l(1)] show ?thesis by auto
qed

end
