(* ===== verification/Store.thy ===== *)
theory Store
  imports Secret
begin

text \<open>
  The human-tier directories (\<open>src/store.rs\<close>). The file system is outside the source: what
  \<open>read_dir\<close>, \<open>File::open\<close>, \<open>openat\<close> and \<open>fstat\<close> return is a record of functions, an argument of
  every definition that uses it. Logging of an invalid name is left out. The lemmas relate the scan
  to the set of files that back a key: \<open>locate\<close> and \<open>open\<close> succeed exactly when there is one, refuse
  as ambiguous when there are several, and agree with the listing of key names.
\<close>

section \<open>File identities\<close>

record file_timestamp =
  ts_seconds :: int
  ts_nanoseconds :: int

record file_identity =
  fi_device :: nat
  fi_inode :: nat
  fi_size :: int
  fi_modified :: file_timestamp
  fi_changed :: file_timestamp

record file_stat =
  st_dev :: nat
  st_ino :: nat
  st_size :: int
  st_mode :: "32 word"
  st_mtime :: int
  st_mtime_nsec :: int
  st_ctime :: int
  st_ctime_nsec :: int

definition FileIdentity_from_stat :: "file_stat \<Rightarrow> file_identity" where
  "FileIdentity_from_stat stat =
     \<lparr>fi_device = st_dev stat, fi_inode = st_ino stat, fi_size = st_size stat,
      fi_modified = \<lparr>ts_seconds = st_mtime stat, ts_nanoseconds = st_mtime_nsec stat\<rparr>,
      fi_changed = \<lparr>ts_seconds = st_ctime stat, ts_nanoseconds = st_ctime_nsec stat\<rparr>\<rparr>"

text \<open>\<open>SFlag::from_bits_truncate\<close> keeps the file-type bits; \<open>contains\<close> tests that all bits of the
  flag are set.\<close>

definition S_IFMT :: "32 word" where "S_IFMT = 0xF000"
definition S_IFREG :: "32 word" where "S_IFREG = 0x8000"
definition S_IFLNK :: "32 word" where "S_IFLNK = 0xA000"
definition S_IFSOCK :: "32 word" where "S_IFSOCK = 0xC000"

definition sflag_contains :: "32 word \<Rightarrow> 32 word \<Rightarrow> bool" where
  "sflag_contains mode flag \<longleftrightarrow> (mode AND S_IFMT) AND flag = flag"

section \<open>The file system and the store\<close>

datatype io_kind = NotFound | OtherKind

text \<open>An opened file: its descriptor, and what \<open>fstat\<close> says of it, unless it fails.\<close>

record raw_file =
  rf_fd :: nat
  rf_stat :: "file_stat option"

record filesystem =
  fs_read_dir :: "string \<Rightarrow> io_kind + (io_kind + string) list"
  fs_open_dir :: "string \<Rightarrow> bool"
  fs_openat :: "string \<Rightarrow> string \<Rightarrow> raw_file option"
  fs_exists :: "string \<Rightarrow> bool"

record human_source =
  hs_label :: string
  hs_dir :: string

record opened_human_file =
  oh_label :: string
  oh_identity :: file_identity
  oh_file :: nat

record candidate =
  cd_label :: string
  cd_dir :: string
  cd_file_name :: string

record human_store =
  hs_sources :: "human_source list"

definition directory_entries ::
  "filesystem \<Rightarrow> string \<Rightarrow> err_code + (io_kind + string) list option" where
  "directory_entries fs dir =
     (case fs_read_dir fs dir of
        Inr entries \<Rightarrow> Inr (Some entries)
      | Inl NotFound \<Rightarrow> Inr None
      | Inl OtherKind \<Rightarrow> Inl Internal)"

definition HumanStore_human_file_name ::
  "human_source \<Rightarrow> string \<Rightarrow> err_code + (secret_name \<times> bool \<times> string) option" where
  "HumanStore_human_file_name source raw =
     (case from_utf8 raw of
        None \<Rightarrow> Inr None
      | Some text \<Rightarrow>
          (case parse_human_file_name text of
             Ignored \<Rightarrow> Inr None
           | Invalid \<Rightarrow> Inl Internal
           | Key name is_local \<Rightarrow> Inr (Some (name, is_local, text))))"

definition label_of :: "human_source \<Rightarrow> bool \<Rightarrow> string" where
  "label_of source is_local = (if is_local then hs_label source @ ''.local'' else hs_label source)"

text \<open>The inner loops of \<open>candidates\<close> and \<open>key_names\<close>, over the entries of one directory.\<close>

fun scan_entries ::
  "human_source \<Rightarrow> (io_kind + string) list \<Rightarrow> err_code + (secret_name \<times> bool \<times> string) list" where
  "scan_entries source [] = Inr []"
| "scan_entries source (Inl _ # entries) = Inl Internal"
| "scan_entries source (Inr raw # entries) =
     and_then (HumanStore_human_file_name source raw) (\<lambda>found.
     and_then (scan_entries source entries) (\<lambda>rest.
       Inr (case found of None \<Rightarrow> rest | Some k \<Rightarrow> k # rest)))"

definition scan_source ::
  "filesystem \<Rightarrow> human_source \<Rightarrow> err_code + (secret_name \<times> bool \<times> string) list" where
  "scan_source fs source =
     and_then (directory_entries fs (hs_dir source)) (\<lambda>entries.
       case entries of None \<Rightarrow> Inr [] | Some es \<Rightarrow> scan_entries source es)"

fun candidates_in :: "filesystem \<Rightarrow> secret_name \<Rightarrow> human_source list \<Rightarrow> err_code + candidate list" where
  "candidates_in fs requested [] = Inr []"
| "candidates_in fs requested (source # sources) =
     and_then (scan_source fs source) (\<lambda>files.
     and_then (candidates_in fs requested sources) (\<lambda>rest.
       Inr (map (\<lambda>(name, is_local, f).
                  \<lparr>cd_label = label_of source is_local, cd_dir = hs_dir source, cd_file_name = f\<rparr>)
              (filter (\<lambda>(name, is_local, f). name = requested) files) @ rest)))"

definition HumanStore_candidates :: "filesystem \<Rightarrow> human_store \<Rightarrow> secret_name \<Rightarrow> err_code + candidate list" where
  "HumanStore_candidates fs store requested = candidates_in fs requested (hs_sources store)"

fun names_in_sources :: "filesystem \<Rightarrow> human_source list \<Rightarrow> err_code + secret_name list" where
  "names_in_sources fs [] = Inr []"
| "names_in_sources fs (source # sources) =
     and_then (scan_source fs source) (\<lambda>files.
     and_then (names_in_sources fs sources) (\<lambda>rest. Inr (map fst files @ rest)))"

definition HumanStore_key_names :: "filesystem \<Rightarrow> human_store \<Rightarrow> err_code + secret_name list" where
  "HumanStore_key_names fs store =
     and_then (names_in_sources fs (hs_sources store)) (\<lambda>names. Inr (sort (remdups names)))"

definition sole_candidate :: "candidate list \<Rightarrow> err_code + candidate" where
  "sole_candidate cs =
     (case cs of [] \<Rightarrow> Inl NotHumanKey | [c] \<Rightarrow> Inr c | _ # _ # _ \<Rightarrow> Inl AmbiguousKey)"

definition HumanStore_locate :: "filesystem \<Rightarrow> human_store \<Rightarrow> secret_name \<Rightarrow> err_code + string" where
  "HumanStore_locate fs store name =
     and_then (HumanStore_candidates fs store name) (\<lambda>cs.
     and_then (sole_candidate cs) (\<lambda>c. Inr (cd_label c)))"

definition HumanStore_open :: "filesystem \<Rightarrow> human_store \<Rightarrow> secret_name \<Rightarrow> err_code + opened_human_file" where
  "HumanStore_open fs store name =
     and_then (HumanStore_candidates fs store name) (\<lambda>cs.
     and_then (sole_candidate cs) (\<lambda>c.
       if \<not> fs_open_dir fs (cd_dir c) then Inl NotHumanKey
       else case fs_openat fs (cd_dir c) (cd_file_name c) of
           None \<Rightarrow> Inl NotHumanKey
         | Some file \<Rightarrow>
             (case rf_stat file of
                None \<Rightarrow> Inl NotHumanKey
              | Some stat \<Rightarrow>
                  if \<not> sflag_contains (st_mode stat) S_IFREG then Inl NotHumanKey
                  else Inr \<lparr>oh_label = cd_label c, oh_identity = FileIdentity_from_stat stat,
                            oh_file = rf_fd file\<rparr>)))"

definition HumanStore_identity :: "filesystem \<Rightarrow> human_store \<Rightarrow> secret_name \<Rightarrow> err_code + file_identity" where
  "HumanStore_identity fs store name =
     and_then (HumanStore_open fs store name) (\<lambda>opened. Inr (oh_identity opened))"

section \<open>What the scan finds\<close>

text \<open>The specification: the raw names of a directory, and the key files among them.\<close>

definition raw_names :: "filesystem \<Rightarrow> string \<Rightarrow> string list" where
  "raw_names fs dir =
     (case fs_read_dir fs dir of Inl _ \<Rightarrow> [] | Inr es \<Rightarrow> concat (map (\<lambda>e. case e of Inl _ \<Rightarrow> [] | Inr f \<Rightarrow> [f]) es))"

definition backing_of :: "human_source \<Rightarrow> secret_name \<Rightarrow> string \<Rightarrow> candidate list" where
  "backing_of s n f =
     (if \<not> valid_name (as_str n) then []
      else if f = file_name n
        then [\<lparr>cd_label = hs_label s, cd_dir = hs_dir s, cd_file_name = f\<rparr>]
      else if f = local_file_name n
        then [\<lparr>cd_label = hs_label s @ ''.local'', cd_dir = hs_dir s, cd_file_name = f\<rparr>]
      else [])"

definition backing_files :: "filesystem \<Rightarrow> human_source list \<Rightarrow> secret_name \<Rightarrow> candidate list" where
  "backing_files fs sources n =
     concat (map (\<lambda>s. concat (map (backing_of s n) (raw_names fs (hs_dir s)))) sources)"

lemma is_ascii_name_char: "name_char c \<Longrightarrow> is_ascii c"
  by (auto simp: name_char_def is_ascii_alphanumeric_def is_ascii_alphabetic_def is_ascii_def
      is_ascii_lowercase_def is_ascii_uppercase_def is_ascii_digit_def byte_val_def)

lemma from_utf8_encode_file:
  assumes "valid_name (as_str n)"
  shows "from_utf8 (encode_file (n, l)) = Some (encode_file (n, l))"
proof (rule from_utf8_ascii)
  have "list_all is_ascii (as_str n)"
    using assms by (auto simp: list_all_iff intro: is_ascii_name_char dest: valid_name_chars)
  moreover have "list_all is_ascii ''.env''" "list_all is_ascii ''.local.env''" by code_simp+
  ultimately show "list_all is_ascii (encode_file (n, l))"
    by (simp add: encode_file_def file_name_def local_file_name_def)
qed

lemma human_file_name_Some:
  "HumanStore_human_file_name s raw = Inr (Some (n, l, f)) \<longleftrightarrow>
     valid_name (as_str n) \<and> raw = encode_file (n, l) \<and> f = raw"
proof -
  have "HumanStore_human_file_name s raw = Inr (Some (n, l, f)) \<longleftrightarrow>
        from_utf8 raw = Some f \<and> parse_human_file_name f = Key n l"
    by (auto simp: HumanStore_human_file_name_def split: option.splits human_file_name.splits)
  also have "\<dots> \<longleftrightarrow> valid_name (as_str n) \<and> raw = encode_file (n, l) \<and> f = raw"
    using from_utf8_encode_file [of n l]
    by (auto simp: parse_human_file_name_Key encode_file_def dest: from_utf8_Some split: if_splits)
  finally show ?thesis .
qed


definition candidate_of :: "human_source \<Rightarrow> secret_name \<times> bool \<times> string \<Rightarrow> candidate" where
  "candidate_of s k = \<lparr>cd_label = label_of s (fst (snd k)), cd_dir = hs_dir s, cd_file_name = snd (snd k)\<rparr>"

lemma backing_of_encode:
  assumes "valid_name (as_str m)"
  shows "backing_of s n (encode_file (m, l)) =
    (if m = n then [candidate_of s (m, l, encode_file (m, l))] else [])"
proof -
  have "encode_file (m, l) = file_name n \<longleftrightarrow> m = n \<and> \<not> l"
    "encode_file (m, l) = local_file_name n \<longleftrightarrow> m = n \<and> l" if "valid_name (as_str n)"
    using human_file.encode_inject [of "(m, l)" "(n, False)"]
      human_file.encode_inject [of "(m, l)" "(n, True)"] assms that
    by (auto simp: encode_file_def)
  with assms show ?thesis by (auto simp: backing_of_def candidate_of_def label_of_def)
qed

lemma backing_of_file_name:
  assumes "HumanStore_human_file_name s raw = Inr found"
  shows "backing_of s n raw =
    (case found of None \<Rightarrow> [] | Some k \<Rightarrow> if fst k = n then [candidate_of s k] else [])"
proof (cases found)
  case None
  have "raw \<noteq> encode_file (n, l)" if "valid_name (as_str n)" for l
    using human_file_name_Some [of s raw n l raw] assms None that by auto
  from this [of True] this [of False] None show ?thesis
    by (auto simp: backing_of_def encode_file_def)
next
  case (Some k)
  obtain m l f where k: "k = (m, l, f)" by (cases k)
  with assms Some have "valid_name (as_str m)" "raw = encode_file (m, l)" "f = raw"
    using human_file_name_Some by metis+
  with Some k show ?thesis by (simp add: backing_of_encode)
qed

lemma scan_entries_backing:
  "scan_entries s es = Inr files \<Longrightarrow>
   map (candidate_of s) (filter (\<lambda>k. fst k = n) files) =
   concat (map (backing_of s n) (concat (map (\<lambda>e. case e of Inl _ \<Rightarrow> [] | Inr f \<Rightarrow> [f]) es)))"
proof (induction s es arbitrary: files rule: scan_entries.induct)
  case (3 s raw es)
  then obtain found rest where r: "HumanStore_human_file_name s raw = Inr found"
    "scan_entries s es = Inr rest" "files = (case found of None \<Rightarrow> rest | Some k \<Rightarrow> k # rest)"
    by (auto simp: and_then_Inr)
  with "3.IH" backing_of_file_name [OF r(1)] show ?case by (auto split: option.splits)
qed auto

lemma scan_source_backing:
  "scan_source fs s = Inr files \<Longrightarrow>
   map (candidate_of s) (filter (\<lambda>k. fst k = n) files) =
   concat (map (backing_of s n) (raw_names fs (hs_dir s)))"
  using scan_entries_backing
  by (fastforce simp: scan_source_def directory_entries_def raw_names_def and_then_Inr
      split: sum.splits io_kind.splits option.splits)

lemma candidates_in_Cons:
  "candidates_in fs n (s # sources) =
     and_then (scan_source fs s) (\<lambda>files. and_then (candidates_in fs n sources) (\<lambda>rest.
       Inr (map (candidate_of s) (filter (\<lambda>k. fst k = n) files) @ rest)))"
  by (simp add: candidate_of_def [abs_def] split_def)

lemma candidates_in_backing: "candidates_in fs n sources = Inr cs \<Longrightarrow> cs = backing_files fs sources n"
proof (induction sources arbitrary: cs)
  case (Cons s sources)
  then obtain files rest where r: "scan_source fs s = Inr files" "candidates_in fs n sources = Inr rest"
    "cs = map (candidate_of s) (filter (\<lambda>k. fst k = n) files) @ rest"
    unfolding candidates_in_Cons by (auto simp: and_then_Inr)
  with Cons.IH scan_source_backing [OF r(1)] show ?case by (simp add: backing_files_def)
qed (simp add: backing_files_def)

lemma candidates_ok_iff_names_ok:
  "(\<exists>cs. candidates_in fs n sources = Inr cs) \<longleftrightarrow> (\<exists>ns. names_in_sources fs sources = Inr ns)"
  by (induction sources) (auto simp: and_then_Inr)

lemma names_in_sources_backing:
  "names_in_sources fs sources = Inr ns \<Longrightarrow> n \<in> set ns \<longleftrightarrow> backing_files fs sources n \<noteq> []"
proof (induction sources arbitrary: ns)
  case (Cons s sources)
  then obtain files rest where r: "scan_source fs s = Inr files" "names_in_sources fs sources = Inr rest"
    "ns = map fst files @ rest"
    by (auto simp: and_then_Inr)
  have "n \<in> fst ` set files \<longleftrightarrow> map (candidate_of s) (filter (\<lambda>k. fst k = n) files) \<noteq> []"
    by (auto simp: filter_empty_conv)
  with Cons.IH r scan_source_backing [OF r(1), of n] show ?case by (auto simp: backing_files_def)
qed (simp add: backing_files_def)

lemma HumanStore_candidates_backing:
  "HumanStore_candidates fs store n = Inr cs \<Longrightarrow> cs = backing_files fs (hs_sources store) n"
  by (simp add: HumanStore_candidates_def candidates_in_backing)

section \<open>Properties\<close>

text \<open>Where the scan of the configured directories succeeds, \<open>locate\<close> answers by the files
  that back the key and by nothing else: it is refused as not a human key when there is none,
  refused as ambiguous when there are several (over all sources, committed and local together), and
  otherwise yields the label of the only one. The listing of key names holds exactly the keys with
  a backing file, in order and once each.\<close>

theorem locate_by_backing_files:
  assumes "HumanStore_candidates fs store n = Inr cs"
  shows "HumanStore_locate fs store n =
      (case backing_files fs (hs_sources store) n of
         [] \<Rightarrow> Inl NotHumanKey | [c] \<Rightarrow> Inr (cd_label c) | _ \<Rightarrow> Inl AmbiguousKey)
    \<and> (\<exists>names. HumanStore_key_names fs store = Inr names \<and> sorted names \<and> distinct names
         \<and> (n \<in> set names \<longleftrightarrow> backing_files fs (hs_sources store) n \<noteq> []))"
proof
  have cs: "cs = backing_files fs (hs_sources store) n"
    using assms by (rule HumanStore_candidates_backing)
  then show "HumanStore_locate fs store n =
      (case backing_files fs (hs_sources store) n of
         [] \<Rightarrow> Inl NotHumanKey | [c] \<Rightarrow> Inr (cd_label c) | _ \<Rightarrow> Inl AmbiguousKey)"
    using assms by (simp add: HumanStore_locate_def sole_candidate_def split: list.split)
  obtain ns where ns: "names_in_sources fs (hs_sources store) = Inr ns"
    using assms candidates_ok_iff_names_ok [of fs n "hs_sources store"]
    by (auto simp: HumanStore_candidates_def)
  with names_in_sources_backing [OF ns, of n]
  show "\<exists>names. HumanStore_key_names fs store = Inr names \<and> sorted names \<and> distinct names
         \<and> (n \<in> set names \<longleftrightarrow> backing_files fs (hs_sources store) n \<noteq> [])"
    by (simp add: HumanStore_key_names_def)
qed

text \<open>A file system for witnesses: one source directory with the given entries, every file regular
  and with the given inode.\<close>

definition example_stat :: "nat \<Rightarrow> file_stat" where
  "example_stat ino =
     \<lparr>st_dev = 1, st_ino = ino, st_size = 10, st_mode = 0x81A4, st_mtime = 5, st_mtime_nsec = 0,
      st_ctime = 5, st_ctime_nsec = 0\<rparr>"

definition example_fs :: "string list \<Rightarrow> nat \<Rightarrow> filesystem" where
  "example_fs files ino =
     \<lparr>fs_read_dir = (\<lambda>d. if d = ''/h'' then Inr (map Inr files) else Inl NotFound),
      fs_open_dir = (\<lambda>d. d = ''/h''),
      fs_openat = (\<lambda>d f. if f \<in> set files then Some \<lparr>rf_fd = 9, rf_stat = Some (example_stat ino)\<rparr> else None),
      fs_exists = (\<lambda>p. True)\<rparr>"

definition example_store :: human_store where
  "example_store = \<lparr>hs_sources = [\<lparr>hs_label = ''test'', hs_dir = ''/h''\<rparr>]\<rparr>"

theorem locate_by_backing_files_witness:
  "HumanStore_locate (example_fs [''K.env'', ''notes.txt'', ''J.env'', ''J.local.env''] 7) example_store (SecretName ''J'')
     = Inl AmbiguousKey"
proof -
  let ?fs = "example_fs [''K.env'', ''notes.txt'', ''J.env'', ''J.local.env''] 7"
  have c: "HumanStore_candidates ?fs example_store (SecretName ''J'') =
    Inr [\<lparr>cd_label = ''test'', cd_dir = ''/h'', cd_file_name = ''J.env''\<rparr>,
         \<lparr>cd_label = ''test.local'', cd_dir = ''/h'', cd_file_name = ''J.local.env''\<rparr>]"
    by code_simp
  have b: "backing_files ?fs (hs_sources example_store) (SecretName ''J'') =
    [\<lparr>cd_label = ''test'', cd_dir = ''/h'', cd_file_name = ''J.env''\<rparr>,
         \<lparr>cd_label = ''test.local'', cd_dir = ''/h'', cd_file_name = ''J.local.env''\<rparr>]"
    by code_simp
  from locate_by_backing_files [OF c] show ?thesis by (simp add: b)
qed

text \<open>What \<open>open\<close> hands to the decryptor is the only backing file, under the label \<open>locate\<close> gives.\<close>

lemma open_sole_backing_file:
  assumes "HumanStore_open fs store n = Inr opened"
  shows "\<exists>c. backing_files fs (hs_sources store) n = [c] \<and> oh_label opened = cd_label c
    \<and> HumanStore_locate fs store n = Inr (cd_label c)"
proof -
  obtain cs c where cs: "HumanStore_candidates fs store n = Inr cs" and c: "sole_candidate cs = Inr c"
    and l: "oh_label opened = cd_label c"
    using assms by (auto simp: HumanStore_open_def and_then_Inr split: if_splits option.splits)
  then have "cs = [c]" by (auto simp: sole_candidate_def split: list.splits)
  with cs c l show ?thesis
    using HumanStore_candidates_backing [OF cs] by (auto simp: HumanStore_locate_def)
qed

text \<open>The type test is a test of bits: besides a regular file, the modes of a symbolic link and of a
  socket contain all bits of \<open>S_IFREG\<close>.\<close>

lemma sflag_contains_IFREG_link_and_socket:
  "sflag_contains S_IFREG S_IFREG \<and> sflag_contains S_IFLNK S_IFREG \<and> sflag_contains S_IFSOCK S_IFREG"
  by (simp add: sflag_contains_def S_IFMT_def S_IFREG_def S_IFLNK_def S_IFSOCK_def)

end
