(* ===== verification/Peer.thy ===== *)
theory Peer
  imports Proto
begin

text \<open>
  Kernel-derived identity of a connection's peer (\<open>src/peer.rs\<close>). The kernel is outside the source:
  what \<open>std::fs::read_to_string\<close> returns for a path under \<open>/proc\<close> and what \<open>getsockopt\<close> answers are
  arguments of the definitions. The bounded parent walk is proved equivalent to a reachability
  relation over the parent links.
\<close>

type_synonym read_file = "string \<Rightarrow> string option"

definition MAX_ANCESTRY_DEPTH :: nat where "MAX_ANCESTRY_DEPTH = 64"

text \<open>A pinned process: the number of the descriptor that \<open>SO_PEERPIDFD\<close> returned.\<close>

record peer_identity =
  pidfd :: nat

text \<open>The outcome of \<open>getsockopt\<close> and the descriptor it wrote.\<close>

definition PeerIdentity_from_stream :: "int \<times> int \<Rightarrow> err_code + peer_identity" where
  "PeerIdentity_from_stream sockopt =
     (let (outcome, raw) = sockopt in
      if outcome \<noteq> 0 \<or> raw < 0 then Inl Internal else Inr \<lparr>pidfd = nat raw\<rparr>)"

text \<open>The value of a \<open>key:\<close> line of a status file.\<close>

definition status_field :: "string \<Rightarrow> string \<Rightarrow> int option" where
  "status_field contents key =
     (case find_map (strip_prefix key) (lines contents) of
        None \<Rightarrow> None
      | Some rest \<Rightarrow> parse_i32 (trim rest))"

definition parent_of :: "read_file \<Rightarrow> int \<Rightarrow> int option" where
  "parent_of rd pid =
     (case rd (''/proc/'' @ (if pid < 0 then ''-'' else []) @ nat_to_string (nat \<bar>pid\<bar>) @ ''/status'') of
        None \<Rightarrow> None
      | Some info \<Rightarrow> status_field info ''PPid:'')"

definition PeerIdentity_pid :: "read_file \<Rightarrow> peer_identity \<Rightarrow> int option" where
  "PeerIdentity_pid rd p =
     (case rd (''/proc/self/fdinfo/'' @ nat_to_string (pidfd p)) of
        None \<Rightarrow> None
      | Some info \<Rightarrow>
          (case status_field info ''Pid:'' of
             None \<Rightarrow> None
           | Some v \<Rightarrow> if v > 0 then Some v else None))"

definition PeerIdentity_is_alive :: "read_file \<Rightarrow> peer_identity \<Rightarrow> bool" where
  "PeerIdentity_is_alive rd p \<longleftrightarrow> PeerIdentity_pid rd p \<noteq> None"

text \<open>The loop of \<open>descends_from\<close>, with the iterations left.\<close>

fun walk_ancestry :: "(int \<Rightarrow> int option) \<Rightarrow> nat \<Rightarrow> int \<Rightarrow> int \<Rightarrow> bool" where
  "walk_ancestry parent 0 current ancestor = False"
| "walk_ancestry parent (Suc n) current ancestor =
     (if current = ancestor then True
      else if current \<le> 1 then False
      else case parent current of
          Some p \<Rightarrow> walk_ancestry parent n p ancestor
        | None \<Rightarrow> False)"

definition descends_from :: "read_file \<Rightarrow> int \<Rightarrow> int \<Rightarrow> bool" where
  "descends_from rd caller ancestor =
     walk_ancestry (parent_of rd) MAX_ANCESTRY_DEPTH caller ancestor"

definition PeerIdentity_descends_from :: "read_file \<Rightarrow> peer_identity \<Rightarrow> peer_identity \<Rightarrow> bool" where
  "PeerIdentity_descends_from rd self root =
     (case (PeerIdentity_pid rd self, PeerIdentity_pid rd root) of
        (Some caller, Some ancestor) \<Rightarrow> descends_from rd caller ancestor
      | _ \<Rightarrow> False)"

section \<open>Ancestry as a relation\<close>

text \<open>\<open>ancestor_at parent n c a\<close>: following \<open>n\<close> parent links from \<open>c\<close>, none of them out of init
  or of a pid below it, reaches \<open>a\<close>.\<close>

inductive ancestor_at :: "(int \<Rightarrow> int option) \<Rightarrow> nat \<Rightarrow> int \<Rightarrow> int \<Rightarrow> bool" for parent where
  self: "ancestor_at parent 0 c c"
| step: "1 < c \<Longrightarrow> parent c = Some p \<Longrightarrow> ancestor_at parent n p a \<Longrightarrow> ancestor_at parent (Suc n) c a"

inductive_cases ancestor_at_0: "ancestor_at parent 0 c a"
inductive_cases ancestor_at_Suc: "ancestor_at parent (Suc n) c a"

lemma walk_ancestry_iff: "walk_ancestry parent n c a \<longleftrightarrow> (\<exists>k < n. ancestor_at parent k c a)"
proof (induction n arbitrary: c)
  case (Suc n)
  show ?case
  proof (cases "c = a")
    case True
    then show ?thesis by (auto intro: ancestor_at.self)
  next
    case ca: False
    have "(\<exists>k < Suc n. ancestor_at parent k c a) \<longleftrightarrow>
          (\<exists>k < n. 1 < c \<and> (\<exists>p. parent c = Some p \<and> ancestor_at parent k p a))"
    proof
      assume "\<exists>k < Suc n. ancestor_at parent k c a"
      then obtain k where k: "k < Suc n" "ancestor_at parent k c a" by blast
      with ca obtain k' where "k = Suc k'" by (cases k) (auto elim: ancestor_at_0)
      with k show "\<exists>k < n. 1 < c \<and> (\<exists>p. parent c = Some p \<and> ancestor_at parent k p a)"
        by (auto elim!: ancestor_at_Suc)
    qed (auto intro: ancestor_at.step)
    with ca Suc.IH show ?thesis by (auto split: option.splits)
  qed
qed simp

text \<open>C40: The bounded walk decides ancestry exactly: it answers yes for a caller and a root, both
  resolved from live descriptors, precisely when the root is the caller or is reached from it along
  at most 63 parent links, none taken from pid 1 or below. A caller or a root whose process is gone
  is never a descendant or an ancestor, and a cycle in the parent links cannot keep the walk going.\<close>

theorem descends_from_iff_ancestor:
  "PeerIdentity_descends_from rd self root \<longleftrightarrow>
     (\<exists>c a. PeerIdentity_pid rd self = Some c \<and> PeerIdentity_pid rd root = Some a
        \<and> (\<exists>k < MAX_ANCESTRY_DEPTH. ancestor_at (parent_of rd) k c a))"
  by (auto simp: PeerIdentity_descends_from_def descends_from_def walk_ancestry_iff
      split: option.splits)

lemma descends_from_alive:
  "PeerIdentity_descends_from rd self root \<Longrightarrow>
   PeerIdentity_is_alive rd self \<and> PeerIdentity_is_alive rd root"
  by (auto simp: PeerIdentity_descends_from_def PeerIdentity_is_alive_def split: option.splits)

end
