(* ===== verification/Grants.thy ===== *)
theory Grants
  imports Store Peer
begin

text \<open>
  Who is asking and what they hold (\<open>src/grants.rs\<close>): session tokens, scopes, the registry of
  sessions and agent terminals, and the table of live grants. The lemmas keep the registry's
  bindings unique and immovable, characterise \<open>resolve\<close> completely, and show that the grant table
  implements a map from (scope, key) to a value (the locale \<open>keyed_table\<close>, interpreted on the table's
  own operations), which is where the isolation of scopes comes from.
\<close>

section \<open>Tokens and scopes\<close>

definition TOKEN_LEN :: nat where "TOKEN_LEN = 32"

datatype session_token = SessionToken (token_bytes: "u8 list")

text \<open>\<open>PartialEq\<close> compares the bytes, in constant time; this is equality of tokens (\<open>SessionToken_eq_iff\<close>), and
  is written so below.\<close>

definition SessionToken_eq :: "session_token \<Rightarrow> session_token \<Rightarrow> bool" where
  "SessionToken_eq a b \<longleftrightarrow> token_bytes a = token_bytes b"

lemma SessionToken_eq_iff [simp]: "SessionToken_eq a b \<longleftrightarrow> a = b"
  by (cases a; cases b) (simp add: SessionToken_eq_def)

definition SessionToken_fmt :: "session_token \<Rightarrow> debug_value" where
  "SessionToken_fmt token = DebugWritten ''SessionToken(<redacted>)''"

text \<open>The loop of \<open>parse_hex\<close> over the slots of the token. (Its \<open>checked_mul\<close> and \<open>checked_add\<close>
  cannot fail for an index below 32.)\<close>

fun parse_slots :: "string \<Rightarrow> nat list \<Rightarrow> err_code + u8 list" where
  "parse_slots text [] = Inr []"
| "parse_slots text (index # rest) =
     and_then (ok_or BadRequest (str_get text (index * 2) (index * 2 + 2))) (\<lambda>pair.
     and_then (ok_or BadRequest (parse_unsigned 16 U8_MAX pair)) (\<lambda>byte.
     and_then (parse_slots text rest) (\<lambda>bytes. Inr (of_nat byte # bytes))))"

definition SessionToken_parse_hex :: "string \<Rightarrow> err_code + session_token" where
  "SessionToken_parse_hex text =
     (if length text \<noteq> TOKEN_LEN * 2 then Inl BadRequest
      else and_then (parse_slots text [0..<TOKEN_LEN]) (\<lambda>bytes. Inr (SessionToken bytes)))"

datatype scope = Session (scope_token: session_token) | Tty (scope_tty: string) (scope_boot_id: string)

datatype scope_kind = VerifiedSession | TokenlessTty

fun Scope_kind :: "scope \<Rightarrow> scope_kind" where
  "Scope_kind (Session _) = VerifiedSession"
| "Scope_kind (Tty _ _) = TokenlessTty"

section \<open>The registry\<close>

record registration =
  reg_token :: session_token
  reg_session :: string
  reg_root :: peer_identity

record registry =
  reg_sessions :: "registration list"
  reg_agent_ttys :: "string list"
  reg_boot_id :: string

definition Registry_new :: "string \<Rightarrow> registry" where
  "Registry_new boot_id = \<lparr>reg_sessions = [], reg_agent_ttys = [], reg_boot_id = boot_id\<rparr>"

definition Registry_default :: registry where
  "Registry_default = Registry_new ''test-boot''"

definition Registry_register ::
  "registration \<Rightarrow> registry \<Rightarrow> registry \<times> (err_code + session_token list)" where
  "Registry_register r reg =
     (if \<exists>e \<in> set (reg_sessions reg). reg_token e = reg_token r then
        (reg,
         if \<exists>e \<in> set (reg_sessions reg). reg_token e = reg_token r \<and> reg_session e = reg_session r
         then Inr [] else Inl BadRequest)
      else
        (let displaced = map reg_token (filter (\<lambda>e. reg_session e = reg_session r) (reg_sessions reg))
         in (reg\<lparr>reg_sessions := filter (\<lambda>e. reg_session e \<noteq> reg_session r) (reg_sessions reg) @ [r]\<rparr>,
             Inr displaced)))"

definition Registry_unregister :: "string \<Rightarrow> registry \<Rightarrow> registry \<times> session_token list" where
  "Registry_unregister session reg =
     (reg\<lparr>reg_sessions := filter (\<lambda>e. reg_session e \<noteq> session) (reg_sessions reg)\<rparr>,
      map reg_token (filter (\<lambda>e. reg_session e = session) (reg_sessions reg)))"

definition Registry_registration :: "registry \<Rightarrow> session_token \<Rightarrow> registration option" where
  "Registry_registration reg token = find (\<lambda>e. reg_token e = token) (reg_sessions reg)"

definition Registry_is_agent_tty :: "registry \<Rightarrow> string \<Rightarrow> bool" where
  "Registry_is_agent_tty reg tty \<longleftrightarrow> tty \<in> set (reg_agent_ttys reg)"

definition Registry_resolve ::
  "read_file \<Rightarrow> session_token option \<Rightarrow> string option \<Rightarrow> peer_identity option \<Rightarrow> registry \<Rightarrow>
     registry \<times> (err_code + scope)" where
  "Registry_resolve rd token tty caller reg =
     (case token of
        Some presented \<Rightarrow>
          (case map_option reg_root (find (\<lambda>e. reg_token e = presented) (reg_sessions reg)) of
             None \<Rightarrow> (reg, Inl UnknownToken)
           | Some root \<Rightarrow>
               if \<not> (case caller of None \<Rightarrow> False | Some c \<Rightarrow> PeerIdentity_descends_from rd c root)
               then (reg, Inl ForeignCaller)
               else
                 ((case tty of
                     Some t \<Rightarrow>
                       if \<not> Registry_is_agent_tty reg t
                       then reg\<lparr>reg_agent_ttys := reg_agent_ttys reg @ [t]\<rparr> else reg
                   | None \<Rightarrow> reg),
                  Inr (Session presented)))
      | None \<Rightarrow>
          (case tty of
             Some t \<Rightarrow>
               if Registry_is_agent_tty reg t then (reg, Inl AgentTty)
               else (reg, Inr (Tty t (reg_boot_id reg)))
           | None \<Rightarrow> (reg, Inl NoScope)))"

section \<open>The grant table\<close>

record grant_origin =
  go_source :: string
  go_identity :: file_identity

record grant =
  gr_scope :: scope
  gr_key :: secret_name
  gr_value :: secret_bytes
  gr_origin :: grant_origin
  gr_created :: instant

record grant_table =
  gt_grants :: "grant list"

definition GrantTable_default :: grant_table where
  "GrantTable_default = \<lparr>gt_grants = []\<rparr>"

text \<open>\<open>self.grants.retain(..)\<close>.\<close>

definition retain_grants :: "(grant \<Rightarrow> bool) \<Rightarrow> grant_table \<Rightarrow> grant_table" where
  "retain_grants P t = t\<lparr>gt_grants := filter P (gt_grants t)\<rparr>"

definition find_grant :: "grant_table \<Rightarrow> scope \<Rightarrow> secret_name \<Rightarrow> grant option" where
  "find_grant t s k = find (\<lambda>g. gr_scope g = s \<and> gr_key g = k) (gt_grants t)"

definition GrantTable_lookup ::
  "grant_table \<Rightarrow> scope \<Rightarrow> secret_name \<Rightarrow> (secret_bytes \<times> string \<times> file_identity) option" where
  "GrantTable_lookup t s k =
     map_option (\<lambda>g. (gr_value g, go_source (gr_origin g), go_identity (gr_origin g))) (find_grant t s k)"

definition GrantTable_insert ::
  "scope \<Rightarrow> secret_name \<Rightarrow> secret_bytes \<Rightarrow> instant \<Rightarrow> grant_origin \<Rightarrow> grant_table \<Rightarrow> grant_table" where
  "GrantTable_insert s k v created origin t =
     (let t' = retain_grants (\<lambda>g. \<not> (gr_scope g = s \<and> gr_key g = k)) t
      in t'\<lparr>gt_grants := gt_grants t' @
             [\<lparr>gr_scope = s, gr_key = k, gr_value = v, gr_origin = origin, gr_created = created\<rparr>]\<rparr>)"

definition GrantTable_revoke :: "scope \<Rightarrow> secret_name \<Rightarrow> grant_table \<Rightarrow> grant_table" where
  "GrantTable_revoke s k t = retain_grants (\<lambda>g. \<not> (gr_scope g = s \<and> gr_key g = k)) t"

definition GrantTable_revoke_scope :: "scope \<Rightarrow> grant_table \<Rightarrow> grant_table" where
  "GrantTable_revoke_scope s t = retain_grants (\<lambda>g. gr_scope g \<noteq> s) t"

definition GrantTable_revoke_tokens :: "session_token list \<Rightarrow> grant_table \<Rightarrow> grant_table" where
  "GrantTable_revoke_tokens tokens t =
     retain_grants (\<lambda>g. case gr_scope g of Session tok \<Rightarrow> tok \<notin> set tokens | Tty _ _ \<Rightarrow> True) t"

definition GrantTable_revoke_expired :: "instant \<Rightarrow> duration \<Rightarrow> grant_table \<Rightarrow> grant_table \<times> nat" where
  "GrantTable_revoke_expired now max_age t =
     (let t' = retain_grants (\<lambda>g. duration_since now (gr_created g) < max_age) t
      in (t', length (gt_grants t) - length (gt_grants t')))"

definition GrantTable_revoke_all :: "grant_table \<Rightarrow> grant_table" where
  "GrantTable_revoke_all t = t\<lparr>gt_grants := []\<rparr>"

definition GrantTable_revoke_missing_ttys :: "(string \<Rightarrow> bool) \<Rightarrow> grant_table \<Rightarrow> grant_table" where
  "GrantTable_revoke_missing_ttys path_exists t =
     retain_grants (\<lambda>g. case gr_scope g of Session _ \<Rightarrow> True | Tty tty _ \<Rightarrow> path_exists tty) t"

definition GrantTable_is_empty :: "grant_table \<Rightarrow> bool" where
  "GrantTable_is_empty t \<longleftrightarrow> gt_grants t = []"

definition render_row :: "instant \<Rightarrow> grant \<Rightarrow> string" where
  "render_row now g =
     as_str (gr_key g) @ [tab]
     @ (case gr_scope g of Session _ \<Rightarrow> ''session'' | Tty tty _ \<Rightarrow> ''tty '' @ tty) @ [tab]
     @ nat_to_string (as_secs (duration_since now (gr_created g))) @ ''s'' @ [newline]"

definition GrantTable_render :: "instant \<Rightarrow> grant_table \<Rightarrow> string" where
  "GrantTable_render now t =
     (if gt_grants t = [] then ''no active grants'' @ [newline]
      else ''KEY'' @ [tab] @ ''SCOPE'' @ [tab] @ ''AGE'' @ [newline]
           @ concat (map (render_row now) (gt_grants t)))"

section \<open>The registry's invariant\<close>

text \<open>A token names one session and a session has one token.\<close>

definition wf_registry :: "registry \<Rightarrow> bool" where
  "wf_registry reg \<longleftrightarrow>
     distinct (map reg_token (reg_sessions reg)) \<and> distinct (map reg_session (reg_sessions reg))"

lemma wf_registry_new [simp]: "wf_registry (Registry_new b)"
  by (simp add: wf_registry_def Registry_new_def)

lemma wf_registry_register: "wf_registry reg \<Longrightarrow> wf_registry (fst (Registry_register r reg))"
  by (auto simp: wf_registry_def Registry_register_def Let_def distinct_map_filter)

lemma wf_registry_unregister: "wf_registry reg \<Longrightarrow> wf_registry (fst (Registry_unregister s reg))"
  by (simp add: wf_registry_def Registry_unregister_def distinct_map_filter)

lemma reg_sessions_resolve [simp]:
  "reg_sessions (fst (Registry_resolve rd token tty caller reg)) = reg_sessions reg"
  by (simp add: Registry_resolve_def split: option.split)

lemma reg_boot_id_resolve [simp]:
  "reg_boot_id (fst (Registry_resolve rd token tty caller reg)) = reg_boot_id reg"
  by (simp add: Registry_resolve_def split: option.split)

lemma wf_registry_resolve:
  "wf_registry (fst (Registry_resolve rd token tty caller reg)) \<longleftrightarrow> wf_registry reg"
  by (simp add: wf_registry_def)

lemmas wf_registry_ops = wf_registry_new wf_registry_register wf_registry_unregister wf_registry_resolve

lemma registration_resolve [simp]:
  "Registry_registration (fst (Registry_resolve rd token tty caller reg)) t = Registry_registration reg t"
  by (simp add: Registry_registration_def)

lemma registration_Some:
  "wf_registry reg \<Longrightarrow>
   Registry_registration reg t = Some e \<longleftrightarrow> e \<in> set (reg_sessions reg) \<and> reg_token e = t"
  by (simp add: Registry_registration_def wf_registry_def find_by_key)

lemma registration_None:
  "Registry_registration reg t = None \<longleftrightarrow> t \<notin> reg_token ` set (reg_sessions reg)"
  by (auto simp: Registry_registration_def find_None_all)

section \<open>Tokens stay bound to their root\<close>

text \<open>The sessions as a table indexed by their tokens.\<close>

interpretation sessions: keyed_table
  "\<lambda>es t. find (\<lambda>e. reg_token e = t) es" "\<lambda>e es. es @ [e]" filter reg_token
  "\<lambda>es. distinct (map reg_token es)"
  by unfold_locales (rule list_table_laws; assumption)+

lemma registration_register_fresh:
  assumes "wf_registry reg" and "Registry_registration reg (reg_token r) = None"
  shows "Registry_registration (fst (Registry_register r reg)) t =
     (if t = reg_token r then Some r
      else Option.bind (Registry_registration reg t) (\<lambda>e. if reg_session e \<noteq> reg_session r then Some e else None))"
proof -
  let ?kept = "filter (\<lambda>e. reg_session e \<noteq> reg_session r) (reg_sessions reg)"
  have d: "distinct (map reg_token (reg_sessions reg))"
    using assms(1) by (simp add: wf_registry_def)
  have n: "find (\<lambda>e. reg_token e = reg_token r) (reg_sessions reg) = None"
    using assms(2) by (simp add: Registry_registration_def)
  then have kn: "find (\<lambda>e. reg_token e = reg_token r) ?kept = None"
    by (rule sessions.look_keep_None [OF d])
  have "reg_sessions (fst (Registry_register r reg)) = ?kept @ [r]"
    using n by (auto simp: Registry_register_def Let_def find_None_all)
  then show ?thesis
    using sessions.look_put [OF kn] sessions.look_keep [OF d]
    by (simp add: Registry_registration_def fun_eq_iff)
qed

lemma register_known_token:
  "Registry_registration reg (reg_token r) \<noteq> None \<Longrightarrow> fst (Registry_register r reg) = reg"
  by (auto simp: Registry_register_def registration_None)

lemma token_of_filtered:
  "wf_registry reg \<Longrightarrow>
   t \<in> set (map reg_token (filter Q (reg_sessions reg))) \<longleftrightarrow>
     (\<exists>e. Registry_registration reg t = Some e \<and> Q e)"
  by (auto simp: registration_Some)

lemma register_displaced:
  assumes "wf_registry reg" and "snd (Registry_register r reg) = Inr ts"
  shows "t \<in> set ts \<longleftrightarrow>
     Registry_registration reg t \<noteq> None \<and> Registry_registration (fst (Registry_register r reg)) t = None"
proof (cases "Registry_registration reg (reg_token r)")
  case None
  then have "ts = map reg_token (filter (\<lambda>e. reg_session e = reg_session r) (reg_sessions reg))"
    using assms(2) by (auto simp: Registry_register_def Let_def registration_None image_iff split: if_splits)
  moreover have "t = reg_token r \<Longrightarrow> Registry_registration reg t = None" using None by simp
  ultimately show ?thesis
    using registration_register_fresh [OF assms(1) None, of t] token_of_filtered [OF assms(1), of t]
    by (auto split: bind_splits if_splits)
next
  case (Some e)
  then have "reg_token r \<in> reg_token ` set (reg_sessions reg)"
    using registration_None [of reg "reg_token r"] by auto
  then have "ts = []"
    using assms(2) by (auto simp: Registry_register_def split: if_splits)
  then show ?thesis using register_known_token [of reg r] Some by auto
qed

lemma registration_unregister:
  "wf_registry reg \<Longrightarrow>
   Registry_registration (fst (Registry_unregister s reg)) t =
     Option.bind (Registry_registration reg t) (\<lambda>e. if reg_session e \<noteq> s then Some e else None)"
  by (simp add: Registry_registration_def Registry_unregister_def wf_registry_def sessions.look_keep)

lemma unregister_tokens:
  "wf_registry reg \<Longrightarrow>
   t \<in> set (snd (Registry_unregister s reg)) \<longleftrightarrow>
     Registry_registration reg t \<noteq> None \<and> Registry_registration (fst (Registry_unregister s reg)) t = None"
  using token_of_filtered [of reg t "\<lambda>e. reg_session e = s"] registration_unregister [of reg s t]
  by (cases "Registry_registration reg t") (simp_all add: Registry_unregister_def)

text \<open>C35: Registering never moves a token: whatever is registered, a token that was bound to a session
  and a root is afterwards bound to that same session and root or to nothing, and the tokens that lost
  their binding are exactly those the call returns for revocation. A registration that is refused leaves
  the registry as it was.\<close>

theorem register_never_rebinds:
  assumes "wf_registry reg" and "Registry_registration reg t = Some e"
  shows "case Registry_register r reg of
           (reg', Inr displaced) \<Rightarrow>
             Registry_registration reg' t = (if t \<in> set displaced then None else Some e)
         | (reg', Inl err) \<Rightarrow> reg' = reg \<and> err = BadRequest"
proof (cases "Registry_register r reg")
  case (Pair reg' res)
  show ?thesis
  proof (cases res)
    case (Inl err)
    with Pair show ?thesis by (auto simp: Registry_register_def Let_def split: if_splits)
  next
    case (Inr ts)
    have "Registry_registration reg' t = None \<or> Registry_registration reg' t = Some e"
    proof (cases "Registry_registration reg (reg_token r)")
      case None
      then have "t \<noteq> reg_token r" using assms(2) by auto
      with registration_register_fresh [OF assms(1) None, of t] assms(2) Pair show ?thesis
        by (auto split: if_splits)
    qed (use register_known_token [of reg r] assms(2) Pair in auto)
    with register_displaced [OF assms(1), of r ts t] assms(2) Pair Inr show ?thesis by auto
  qed
qed

definition example_registration :: "nat \<Rightarrow> string \<Rightarrow> nat \<Rightarrow> registration" where
  "example_registration byte session root =
     \<lparr>reg_token = SessionToken (replicate 32 (of_nat byte)), reg_session = session,
      reg_root = \<lparr>pidfd = root\<rparr>\<rparr>"

theorem register_never_rebinds_witness:
  "(case Registry_register (example_registration 1 ''work'' 9)
          \<lparr>reg_sessions = [example_registration 1 ''work'' 7], reg_agent_ttys = [], reg_boot_id = ''b''\<rparr> of
      (reg', Inr displaced) \<Rightarrow>
        Registry_registration reg' (SessionToken (replicate 32 1)) =
          (if SessionToken (replicate 32 1) \<in> set displaced then None else Some (example_registration 1 ''work'' 7))
    | (reg', Inl err) \<Rightarrow>
        reg' = \<lparr>reg_sessions = [example_registration 1 ''work'' 7], reg_agent_ttys = [], reg_boot_id = ''b''\<rparr>
          \<and> err = BadRequest)"
  by (rule register_never_rebinds)
     (simp_all add: wf_registry_def Registry_registration_def example_registration_def)

section \<open>What a caller resolves to\<close>

text \<open>A session scope is given only to a caller that presents a registered token and descends from the root of
  that registration; a terminal scope only to a caller that presents no token, from a terminal that no
  session has used. A presented token is never traded for a terminal scope.\<close>

lemma resolve_errors:
  "snd (Registry_resolve rd (Some t) tty caller reg) = Inl e \<Longrightarrow> e = UnknownToken \<or> e = ForeignCaller"
  "snd (Registry_resolve rd None tty caller reg) = Inl e \<Longrightarrow> e = AgentTty \<or> e = NoScope"
  by (auto simp: Registry_resolve_def split: option.splits if_splits)

lemma resolve_Session:
  "snd (Registry_resolve rd token tty caller reg) = Inr (Session t) \<Longrightarrow>
   token = Some t \<and> (\<exists>e c. Registry_registration reg t = Some e \<and> caller = Some c
     \<and> PeerIdentity_descends_from rd c (reg_root e))"
  by (auto simp: Registry_resolve_def Registry_registration_def split: option.splits if_splits)

lemma resolve_Tty:
  "snd (Registry_resolve rd token tty caller reg) = Inr (Tty d b) \<Longrightarrow>
   token = None \<and> tty = Some d \<and> b = reg_boot_id reg \<and> \<not> Registry_is_agent_tty reg d"
  by (auto simp: Registry_resolve_def split: option.splits if_splits)

lemma agent_tty_mono:
  "Registry_is_agent_tty reg d \<Longrightarrow> Registry_is_agent_tty (fst (Registry_resolve rd token tty caller reg)) d"
  by (auto simp: Registry_resolve_def Registry_is_agent_tty_def split: option.splits)

lemma agent_tty_learned:
  "snd (Registry_resolve rd (Some t) (Some d) caller reg) = Inr s \<Longrightarrow>
   Registry_is_agent_tty (fst (Registry_resolve rd (Some t) (Some d) caller reg)) d"
  by (auto simp: Registry_resolve_def Registry_is_agent_tty_def split: option.splits if_splits)

section \<open>The grant table is a map from scope and key\<close>

definition grant_index :: "grant \<Rightarrow> scope \<times> secret_name" where
  "grant_index g = (gr_scope g, gr_key g)"

definition wf_grants :: "grant_table \<Rightarrow> bool" where
  "wf_grants t \<longleftrightarrow> distinct (map grant_index (gt_grants t))"

definition push_grant :: "grant \<Rightarrow> grant_table \<Rightarrow> grant_table" where
  "push_grant g t = t\<lparr>gt_grants := gt_grants t @ [g]\<rparr>"

text \<open>What the table stands for.\<close>

definition grants_map :: "grant_table \<Rightarrow> scope \<times> secret_name \<Rightarrow> grant option" where
  "grants_map t i = find_grant t (fst i) (snd i)"

lemma grants_map_find: "grants_map t i = find (\<lambda>g. grant_index g = i) (gt_grants t)"
  by (cases i) (simp add: grants_map_def find_grant_def grant_index_def)

lemmas grants_table_defs = grants_map_find push_grant_def retain_grants_def wf_grants_def

interpretation grants: keyed_table grants_map push_grant retain_grants grant_index wf_grants
proof
  fix t :: grant_table and g P i
  show "grants_map t i = Some g \<Longrightarrow> grant_index g = i"
    by (auto simp: grants_table_defs dest: find_key_idx)
  show "grants_map t (grant_index g) = None \<Longrightarrow> grants_map (push_grant g t) = (grants_map t)(grant_index g \<mapsto> g)"
    using find_push [of grant_index g "gt_grants t"] by (simp add: grants_table_defs fun_eq_iff)
  show "wf_grants t \<Longrightarrow> grants_map t (grant_index g) = None \<Longrightarrow> wf_grants (push_grant g t)"
    using distinct_push [of grant_index "gt_grants t" g] by (simp add: grants_table_defs)
  show "wf_grants t \<Longrightarrow>
        grants_map (retain_grants P t) i = Option.bind (grants_map t i) (\<lambda>g. if P g then Some g else None)"
    by (simp add: grants_table_defs find_key_filter)
  show "wf_grants t \<Longrightarrow> wf_grants (retain_grants P t)"
    by (simp add: grants_table_defs distinct_map_filter)
qed

lemma GrantTable_insert_replace:
  "GrantTable_insert s k v created origin t =
     grants.replace \<lparr>gr_scope = s, gr_key = k, gr_value = v, gr_origin = origin, gr_created = created\<rparr> t"
  by (simp add: GrantTable_insert_def grants.replace_def push_grant_def grant_index_def Let_def)

lemma GrantTable_revoke_all_retain: "GrantTable_revoke_all t = retain_grants (\<lambda>g. False) t"
  by (simp add: GrantTable_revoke_all_def retain_grants_def)

lemma GrantTable_lookup_map:
  "GrantTable_lookup t s k =
     map_option (\<lambda>g. (gr_value g, go_source (gr_origin g), go_identity (gr_origin g))) (grants_map t (s, k))"
  by (simp add: GrantTable_lookup_def grants_map_def)

lemma wf_grants_default [simp]: "wf_grants GrantTable_default"
  by (simp add: wf_grants_def GrantTable_default_def)

lemma grants_map_default [simp]: "grants_map GrantTable_default i = None"
  by (simp add: grants_map_find GrantTable_default_def)

lemma grants_map_default_fun: "grants_map GrantTable_default = (\<lambda>_. None)"
  by (rule ext) simp

lemma grants_map_Some: "wf_grants t \<Longrightarrow> grants_map t i = Some g \<longleftrightarrow> g \<in> set (gt_grants t) \<and> grant_index g = i"
  by (simp add: grants_map_find wf_grants_def find_by_key)

text \<open>The operations as values, so that a history is a list of them, with what each does to the table
  and to a map.\<close>

datatype grant_op =
    is_insert: OpInsert scope secret_name secret_bytes instant grant_origin
  | OpRevoke scope secret_name
  | OpRevokeScope scope
  | OpRevokeTokens "session_token list"
  | OpRevokeExpired instant duration
  | OpRevokeAll
  | OpRevokeMissingTtys "string \<Rightarrow> bool"

fun grant_op_run :: "grant_op \<Rightarrow> grant_table \<Rightarrow> grant_table" where
  "grant_op_run (OpInsert s k v created origin) t = GrantTable_insert s k v created origin t"
| "grant_op_run (OpRevoke s k) t = GrantTable_revoke s k t"
| "grant_op_run (OpRevokeScope s) t = GrantTable_revoke_scope s t"
| "grant_op_run (OpRevokeTokens tokens) t = GrantTable_revoke_tokens tokens t"
| "grant_op_run (OpRevokeExpired now max_age) t = fst (GrantTable_revoke_expired now max_age t)"
| "grant_op_run OpRevokeAll t = GrantTable_revoke_all t"
| "grant_op_run (OpRevokeMissingTtys path_exists) t = GrantTable_revoke_missing_ttys path_exists t"

text \<open>Whether a revocation spares a grant.\<close>

fun spared :: "grant_op \<Rightarrow> grant \<Rightarrow> bool" where
  "spared (OpInsert s k v created origin) g = True"
| "spared (OpRevoke s k) g = (grant_index g \<noteq> (s, k))"
| "spared (OpRevokeScope s) g = (gr_scope g \<noteq> s)"
| "spared (OpRevokeTokens tokens) g = (\<forall>tok \<in> set tokens. gr_scope g \<noteq> Session tok)"
| "spared (OpRevokeExpired now max_age) g = (max_age > 0 \<and> now < gr_created g + max_age)"
| "spared OpRevokeAll g = False"
| "spared (OpRevokeMissingTtys path_exists) g = (\<forall>tty b. gr_scope g = Tty tty b \<longrightarrow> path_exists tty)"

text \<open>The specification of an operation on the map.\<close>

fun grant_op_spec :: "grant_op \<Rightarrow> (scope \<times> secret_name \<Rightarrow> grant option) \<Rightarrow> scope \<times> secret_name \<Rightarrow> grant option" where
  "grant_op_spec (OpInsert s k v created origin) m =
     m((s, k) \<mapsto> \<lparr>gr_scope = s, gr_key = k, gr_value = v, gr_origin = origin, gr_created = created\<rparr>)"
| "grant_op_spec revocation m = (\<lambda>i. Option.bind (m i) (\<lambda>g. if spared revocation g then Some g else None))"

lemma retain_cong: "(\<And>g. P g = Q g) \<Longrightarrow> retain_grants P t = retain_grants Q t"
  by presburger

lemmas revocation_defs =
  GrantTable_revoke_def GrantTable_revoke_scope_def GrantTable_revoke_tokens_def
  GrantTable_revoke_expired_def GrantTable_revoke_all_retain GrantTable_revoke_missing_ttys_def

lemma grant_op_run_revocation:
  "\<not> is_insert op \<Longrightarrow> grant_op_run op t = retain_grants (spared op) t"
  by (cases op)
     (auto simp: revocation_defs Let_def grant_index_def duration_since_def intro!: retain_cong split: scope.splits)

lemma wf_grant_op: "wf_grants t \<Longrightarrow> wf_grants (grant_op_run op t)"
  by (cases "is_insert op")
     (auto simp: is_insert_def GrantTable_insert_replace grants.wf_replace grant_op_run_revocation grants.wf_keep)

lemma grant_op_refines: "wf_grants t \<Longrightarrow> grants_map (grant_op_run op t) = grant_op_spec op (grants_map t)"
proof (cases "is_insert op")
  case True
  moreover assume "wf_grants t"
  ultimately show ?thesis
    by (auto simp: is_insert_def GrantTable_insert_replace grants.look_replace grant_index_def)
next
  case False
  moreover assume "wf_grants t"
  ultimately show ?thesis
    by (cases op) (auto simp: grant_op_run_revocation grants.look_keep simp del: grant_op_run.simps spared.simps)
qed

text \<open>C33: Refinement. Run any history of grant operations on an empty table: the table then answers
  every lookup as the map obtained by running the specification of the same operations on the empty map.
  So a value is found only under the scope and the key it was inserted for, the last insertion wins, and
  a revocation (of a key, a scope, a set of tokens, of what has outlived its age, of everything, of what
  belongs to vanished terminals) removes exactly the entries its specification does not spare.\<close>

theorem grant_table_refines_map:
  "GrantTable_lookup (fold grant_op_run ops GrantTable_default) s k =
     map_option (\<lambda>g. (gr_value g, go_source (gr_origin g), go_identity (gr_origin g)))
       (fold grant_op_spec ops (\<lambda>_. None) (s, k))"
proof -
  have "wf_grants t \<Longrightarrow> grants_map (fold grant_op_run ops t) = fold grant_op_spec ops (grants_map t)" for t
    by (induction ops arbitrary: t) (simp_all add: wf_grant_op grant_op_refines)
  from this [of GrantTable_default] show ?thesis
    by (simp add: GrantTable_lookup_map grants_map_default_fun)
qed

end
