(* ===== verification/Capability.thy ===== *)
theory Capability
  imports Secret
begin

text \<open>
  Capability names and the key namespace behind them (\<open>src/capability.rs\<close>). The lemmas show that the
  key of a capability is a valid human-tier key of the reserved namespace and that distinct
  capabilities never share a key.
\<close>

definition CAPABILITY_KEY_PREFIX :: string where "CAPABILITY_KEY_PREFIX = ''CAP_''"
definition MAX_CAPABILITY_LEN :: nat where "MAX_CAPABILITY_LEN = 32"
definition MAX_CAPABILITY_KEY_LEN :: nat where
  "MAX_CAPABILITY_KEY_LEN = length CAPABILITY_KEY_PREFIX + MAX_CAPABILITY_LEN"

datatype capability = Capability (cap_str: string)

definition cap_char :: "char \<Rightarrow> bool" where
  "cap_char c \<longleftrightarrow> is_ascii_lowercase c \<or> is_ascii_digit c \<or> c = CHR ''_''"

definition Capability_parse :: "string \<Rightarrow> err_code + capability" where
  "Capability_parse raw =
     (if raw = [] \<or> length raw > MAX_CAPABILITY_LEN then Inl BadRequest
      else
        (let first_is_letter = (case raw of [] \<Rightarrow> False | c # _ \<Rightarrow> is_ascii_lowercase c)
         in if \<not> first_is_letter \<or> \<not> list_all cap_char raw then Inl BadRequest
            else Inr (Capability raw)))"

definition Capability_key_name :: "capability \<Rightarrow> string" where
  "Capability_key_name cap = CAPABILITY_KEY_PREFIX @ map to_ascii_uppercase (cap_str cap)"

text \<open>The test \<open>key.starts_with(CAPABILITY_KEY_PREFIX)\<close> that the queue and the dispatcher make.\<close>

definition is_capability_key :: "string \<Rightarrow> bool" where
  "is_capability_key key \<longleftrightarrow> prefix CAPABILITY_KEY_PREFIX key"

section \<open>The key of a capability\<close>

definition valid_cap :: "string \<Rightarrow> bool" where
  "valid_cap s \<longleftrightarrow>
     s \<noteq> [] \<and> length s \<le> MAX_CAPABILITY_LEN \<and> is_ascii_lowercase (hd s) \<and> list_all cap_char s"

lemma Capability_parse_Inr: "Capability_parse s = Inr c \<longleftrightarrow> valid_cap s \<and> c = Capability s"
  by (cases s) (auto simp: Capability_parse_def valid_cap_def)

lemma Capability_parse_Inl: "Capability_parse s = Inl e \<Longrightarrow> e = BadRequest"
  by (auto simp: Capability_parse_def Let_def split: if_splits)

lemma to_ascii_uppercase_inj:
  assumes "cap_char a" and "cap_char b" and "to_ascii_uppercase a = to_ascii_uppercase b"
  shows "a = b"
proof -
  have v: "byte_val (to_ascii_uppercase c) = (if is_ascii_lowercase c then byte_val c - 32 else byte_val c)" for c
    using byte_val_lt [of c] by (simp add: to_ascii_uppercase_def)
  have u: "byte_val CHR ''_'' = 95" by (simp add: byte_val_def)
  have "byte_val a = byte_val b"
    using assms(1,2) arg_cong [OF assms(3), of byte_val] u
    by (auto simp: v cap_char_def is_ascii_lowercase_def is_ascii_digit_def split: if_splits)
  then show ?thesis by (simp add: byte_val_inject)
qed

lemma name_char_to_ascii_uppercase: "cap_char c \<Longrightarrow> name_char (to_ascii_uppercase c)"
  using byte_val_lt [of c]
  by (auto simp: cap_char_def name_char_def to_ascii_uppercase_def is_ascii_alphanumeric_def
      is_ascii_alphabetic_def is_ascii_lowercase_def is_ascii_uppercase_def is_ascii_digit_def)

lemma is_capability_key_key_name [simp]: "is_capability_key (Capability_key_name c)"
  by (simp add: is_capability_key_def Capability_key_name_def)

lemma valid_name_key_name:
  assumes "valid_cap s"
  shows "valid_name (Capability_key_name (Capability s))"
proof -
  have "list_all name_char (map to_ascii_uppercase s)"
    using assms by (auto simp: valid_cap_def list_all_iff name_char_to_ascii_uppercase)
  moreover have "list_all name_char ''CAP_''" by code_simp
  moreover have "is_ascii_alphabetic (CHR ''C'')" by code_simp
  ultimately show ?thesis
    using assms
    by (simp add: valid_name_def Capability_key_name_def CAPABILITY_KEY_PREFIX_def valid_cap_def
        MAX_CAPABILITY_LEN_def MAX_NAME_LEN_def)
qed

lemma key_name_inject:
  assumes "valid_cap s" and "valid_cap t"
    and "Capability_key_name (Capability s) = Capability_key_name (Capability t)"
  shows "s = t"
proof -
  have "map to_ascii_uppercase s = map to_ascii_uppercase t"
    using assms(3) by (simp add: Capability_key_name_def)
  moreover have c: "\<forall>c \<in> set s \<union> set t. cap_char c"
    using assms(1,2) by (auto simp: valid_cap_def list_all_iff)
  have "inj_on to_ascii_uppercase (set s \<union> set t)"
    by (rule inj_onI) (use c to_ascii_uppercase_inj in blast)
  ultimately show ?thesis by (rule map_inj_on)
qed

text \<open>Capabilities and their backing keys correspond one to one inside the reserved namespace:
  the key of an accepted capability is itself an accepted secret name of at most 36 bytes that starts
  with \<open>CAP_\<close>, and two accepted capabilities with the same key are the same capability.\<close>

theorem capability_key_namespace:
  assumes "Capability_parse raw = Inr c" and "Capability_parse raw' = Inr c'"
  shows "SecretName_parse (Capability_key_name c) = Inr (SecretName (Capability_key_name c))
    \<and> is_capability_key (Capability_key_name c)
    \<and> length (Capability_key_name c) \<le> MAX_CAPABILITY_KEY_LEN
    \<and> (Capability_key_name c = Capability_key_name c' \<longrightarrow> c = c')"
proof -
  have v: "valid_cap raw" "valid_cap raw'" and c: "c = Capability raw" "c' = Capability raw'"
    using assms by (auto simp: Capability_parse_Inr)
  then have "length raw \<le> MAX_CAPABILITY_LEN" by (simp add: valid_cap_def)
  then have "length (Capability_key_name c) \<le> MAX_CAPABILITY_KEY_LEN"
    using c by (simp add: Capability_key_name_def MAX_CAPABILITY_KEY_LEN_def)
  moreover have "Capability_key_name c = Capability_key_name c' \<longrightarrow> c = c'"
    using key_name_inject [OF v] c by simp
  ultimately show ?thesis using v c by (simp add: valid_name_key_name)
qed

theorem capability_key_namespace_witness:
  "Capability_parse ''browser'' = Inr (Capability ''browser'')
   \<and> SecretName_parse ''CAP_BROWSER'' = Inr (SecretName ''CAP_BROWSER'')"
proof -
  have b: "Capability_parse ''browser'' = Inr (Capability ''browser'')" by code_simp
  have k: "Capability_key_name (Capability ''browser'') = ''CAP_BROWSER''" by code_simp
  show ?thesis using b capability_key_namespace [OF b b] by (simp add: k)
qed

end
