(* ===== verification/Requests.thy ===== *)
theory Requests
  imports Grants Capability
begin

text \<open>
  The approval queue (\<open>src/requests.rs\<close>): one vector of requests, the request that holds the hardware
  and the time of the last release. The lemmas keep the identifiers unique, tie the hardware to the one
  decrypting request, bound the active requests of a scope, and follow a request to its final state along
  any history of calls (the step relation \<open>queue_step\<close> with the worker that holds the hardware).
\<close>

section \<open>Data\<close>

text \<open>\<open>RequestId(u64)\<close>.\<close>

type_synonym request_id = nat

datatype request_state = StPending | StDecrypting | StGranted | StDenied | StTimedOut | StFailed

record queue_limits =
  ql_cooldown :: duration
  ql_ttl :: duration
  ql_max_pending_per_scope :: nat

record pending_request =
  pr_id :: request_id
  pr_scope :: scope
  pr_key :: secret_name
  pr_state :: request_state
  pr_generation :: nat
  pr_created :: instant

record queue =
  q_requests :: "pending_request list"
  q_limits :: queue_limits
  q_next_id :: nat
  q_generation :: nat
  q_inflight :: "request_id option"
  q_last_finished :: "instant option"

section \<open>Operations\<close>

definition Queue_new :: "queue_limits \<Rightarrow> queue" where
  "Queue_new limits =
     \<lparr>q_requests = [], q_limits = limits, q_next_id = 1, q_generation = 0, q_inflight = None,
      q_last_finished = None\<rparr>"

text \<open>\<open>matches!(request.state, Pending | Decrypting)\<close>, \<open>starts_with(CAPABILITY_KEY_PREFIX)\<close>, the search
  by identifier and the update of what it finds.\<close>

definition active_request :: "pending_request \<Rightarrow> bool" where
  "active_request r \<longleftrightarrow> pr_state r = StPending \<or> pr_state r = StDecrypting"

definition capability_key :: "secret_name \<Rightarrow> bool" where
  "capability_key k \<longleftrightarrow> is_capability_key (as_str k)"

definition find_request :: "queue \<Rightarrow> request_id \<Rightarrow> pending_request option" where
  "find_request q i = find (\<lambda>r. pr_id r = i) (q_requests q)"

definition update_request :: "request_id \<Rightarrow> (pending_request \<Rightarrow> pending_request) \<Rightarrow> queue \<Rightarrow> queue" where
  "update_request i f q = q\<lparr>q_requests := update_first (\<lambda>r. pr_id r = i) f (q_requests q)\<rparr>"

definition Queue_enqueue :: "scope \<Rightarrow> secret_name \<Rightarrow> instant \<Rightarrow> queue \<Rightarrow> queue \<times> (err_code + request_id)" where
  "Queue_enqueue s k now q =
     (let capability = capability_key k;
          existing = (if \<not> capability
            then find (\<lambda>r. pr_scope r = s \<and> pr_key r = k \<and> active_request r) (q_requests q) else None)
      in case existing of
           Some r \<Rightarrow> (q, Inr (pr_id r))
         | None \<Rightarrow>
             let active = length (filter (\<lambda>r. pr_scope r = s \<and> (\<not> capability \<or> capability_key (pr_key r))
                                              \<and> active_request r) (q_requests q));
                 limit = (if capability then 1 else ql_max_pending_per_scope (q_limits q))
             in if active \<ge> limit then (q, Inl TooManyPending)
                else
                  (q\<lparr>q_next_id := saturating_add_u64 (q_next_id q) 1,
                     q_requests := q_requests q @
                       [\<lparr>pr_id = q_next_id q, pr_scope = s, pr_key = k, pr_state = StPending,
                         pr_generation = 0, pr_created = now\<rparr>]\<rparr>,
                   Inr (q_next_id q)))"

text \<open>Whether the cooldown after the last release is still running.\<close>

definition cooling :: "queue \<Rightarrow> instant \<Rightarrow> bool" where
  "cooling q now =
     (case q_last_finished q of
        None \<Rightarrow> False
      | Some l \<Rightarrow> (case checked_duration_since now l of
                    None \<Rightarrow> False
                  | Some elapsed \<Rightarrow> elapsed < ql_cooldown (q_limits q)))"

definition Queue_next_ready :: "queue \<Rightarrow> instant \<Rightarrow> request_id option" where
  "Queue_next_ready q now =
     (if q_inflight q \<noteq> None then None
      else if cooling q now then None
      else map_option pr_id (find (\<lambda>r. pr_state r = StPending) (q_requests q)))"

definition Queue_mark_decrypting :: "request_id \<Rightarrow> instant \<Rightarrow> queue \<Rightarrow> queue \<times> nat option" where
  "Queue_mark_decrypting i now q =
     (if q_inflight q \<noteq> None \<or> cooling q now then (q, None)
      else case find_request q i of
          None \<Rightarrow> (q, None)
        | Some r \<Rightarrow>
            if pr_state r \<noteq> StPending then (q, None)
            else
              let generation = saturating_add_u64 (q_generation q) 1
              in ((update_request i (\<lambda>r. r\<lparr>pr_state := StDecrypting, pr_generation := generation\<rparr>) q)
                    \<lparr>q_generation := generation, q_inflight := Some i\<rparr>,
                  Some generation))"

definition Queue_finish :: "request_id \<Rightarrow> instant \<Rightarrow> queue \<Rightarrow> queue" where
  "Queue_finish i now q =
     q\<lparr>q_inflight := (if q_inflight q = Some i then None else q_inflight q),
       q_last_finished := Some now\<rparr>"

definition Queue_complete :: "request_id \<Rightarrow> nat \<Rightarrow> instant \<Rightarrow> queue \<Rightarrow> queue \<times> bool" where
  "Queue_complete i generation now q =
     (let still_current = (\<exists>r \<in> set (q_requests q).
            pr_id r = i \<and> pr_generation r = generation \<and> pr_state r = StDecrypting);
          q' = (if still_current then update_request i (\<lambda>r. r\<lparr>pr_state := StGranted\<rparr>) q else q)
      in (Queue_finish i now q', still_current))"

definition Queue_fail :: "request_id \<Rightarrow> instant \<Rightarrow> queue \<Rightarrow> queue" where
  "Queue_fail i now q = Queue_finish i now (update_request i (\<lambda>r. r\<lparr>pr_state := StFailed\<rparr>) q)"

text \<open>The common body of \<open>timeout\<close> and \<open>deny\<close>; \<open>deny\<close> reads the clock itself, its reading is an
  argument here.\<close>

definition retire :: "request_state \<Rightarrow> pending_request \<Rightarrow> pending_request" where
  "retire st r = r\<lparr>pr_state := st, pr_generation := saturating_add_u64 (pr_generation r) 1\<rparr>"

definition Queue_timeout :: "request_id \<Rightarrow> instant \<Rightarrow> queue \<Rightarrow> queue \<times> bool" where
  "Queue_timeout i now q =
     (case find_request q i of
        None \<Rightarrow> (q, False)
      | Some r \<Rightarrow>
          if active_request r then (Queue_finish i now (update_request i (retire StTimedOut) q), True)
          else (q, False))"

definition Queue_deny :: "request_id \<Rightarrow> instant \<Rightarrow> queue \<Rightarrow> queue \<times> bool" where
  "Queue_deny i instant_now q =
     (case find_request q i of
        None \<Rightarrow> (q, False)
      | Some r \<Rightarrow>
          if active_request r then (Queue_finish i instant_now (update_request i (retire StDenied) q), True)
          else (q, False))"

definition overdue :: "instant \<Rightarrow> queue \<Rightarrow> pending_request \<Rightarrow> bool" where
  "overdue now q r \<longleftrightarrow> active_request r \<and>
     (case checked_duration_since now (pr_created r) of
        None \<Rightarrow> False | Some elapsed \<Rightarrow> elapsed > ql_ttl (q_limits q))"

definition Queue_sweep_timeouts :: "instant \<Rightarrow> queue \<Rightarrow> queue \<times> request_id list" where
  "Queue_sweep_timeouts now q =
     (let expired = map pr_id (filter (overdue now q) (q_requests q));
          q' = q\<lparr>q_requests := map (\<lambda>r. if overdue now q r then retire StTimedOut r else r) (q_requests q)\<rparr>
      in (fold (\<lambda>i. Queue_finish i now) expired q', expired))"

definition Queue_state_of :: "queue \<Rightarrow> request_id \<Rightarrow> request_state option" where
  "Queue_state_of q i = map_option pr_state (find_request q i)"

definition Queue_describe :: "queue \<Rightarrow> request_id \<Rightarrow> (scope \<times> secret_name) option" where
  "Queue_describe q i = map_option (\<lambda>r. (pr_scope r, pr_key r)) (find_request q i)"

definition Queue_is_idle :: "queue \<Rightarrow> bool" where
  "Queue_is_idle q \<longleftrightarrow> \<not> (\<exists>r \<in> set (q_requests q). active_request r)"

definition Queue_prune :: "instant \<Rightarrow> queue \<Rightarrow> queue" where
  "Queue_prune now q =
     (let horizon = duration_saturating_mul (ql_ttl (q_limits q)) 2
      in q\<lparr>q_requests := filter (\<lambda>r. active_request r \<or>
             (case checked_duration_since now (pr_created r) of
                None \<Rightarrow> False | Some elapsed \<Rightarrow> elapsed < horizon)) (q_requests q)\<rparr>)"

section \<open>Identifiers, the hardware and the limits\<close>

text \<open>
  The worker owns a job, the request it marked with the generation it was given, until it completes or
  fails it. Identifiers are unique and below the next one; what is decrypting is the worker's job and
  holds the hardware.
\<close>

type_synonym job = "request_id \<times> nat"

definition plain_active :: "scope \<Rightarrow> pending_request \<Rightarrow> bool" where
  "plain_active s r \<longleftrightarrow> active_request r \<and> pr_scope r = s \<and> \<not> capability_key (pr_key r)"

definition cap_active :: "scope \<Rightarrow> pending_request \<Rightarrow> bool" where
  "cap_active s r \<longleftrightarrow> active_request r \<and> pr_scope r = s \<and> capability_key (pr_key r)"

definition ids_ok :: "queue \<Rightarrow> bool" where
  "ids_ok q \<longleftrightarrow> distinct (map pr_id (q_requests q)) \<and> (\<forall>r \<in> set (q_requests q). pr_id r < q_next_id q)"

definition flight_ok :: "queue \<Rightarrow> job option \<Rightarrow> bool" where
  "flight_ok q job \<longleftrightarrow>
     (\<forall>r \<in> set (q_requests q). pr_state r = StDecrypting \<longrightarrow>
        job = Some (pr_id r, pr_generation r) \<and> q_inflight q = Some (pr_id r))
     \<and> (\<forall>i. q_inflight q = Some i \<longrightarrow> (\<exists>r \<in> set (q_requests q). pr_id r = i \<and> pr_state r = StDecrypting))"

definition limits_ok :: "queue \<Rightarrow> bool" where
  "limits_ok q \<longleftrightarrow>
     (\<forall>s. length (filter (plain_active s) (q_requests q)) \<le> ql_max_pending_per_scope (q_limits q)
        \<and> length (filter (cap_active s) (q_requests q)) \<le> 1
        \<and> distinct (map pr_key (filter (plain_active s) (q_requests q))))"

definition wf_queue :: "queue \<times> job option \<Rightarrow> bool" where
  "wf_queue qj \<longleftrightarrow> ids_ok (fst qj) \<and> flight_ok (fst qj) (snd qj) \<and> limits_ok (fst qj)"

text \<open>A vector whose elements were dropped or changed in place, no request being revived.\<close>

definition shrinks :: "pending_request list \<Rightarrow> pending_request list \<Rightarrow> bool" where
  "shrinks xs ys \<longleftrightarrow> (\<exists>P f. ys = map f (filter P xs)
     \<and> (\<forall>r. pr_id (f r) = pr_id r \<and> pr_scope (f r) = pr_scope r \<and> pr_key (f r) = pr_key r
            \<and> (active_request (f r) \<longrightarrow> active_request r)))"

lemma shrinksI:
  assumes "ys = map f (filter P xs)"
    and "\<And>r. pr_id (f r) = pr_id r \<and> pr_scope (f r) = pr_scope r \<and> pr_key (f r) = pr_key r
              \<and> (active_request (f r) \<longrightarrow> active_request r)"
  shows "shrinks xs ys"
  using assms unfolding shrinks_def by blast

lemma shrinks_refl [simp]: "shrinks xs xs"
  by (rule shrinksI [of _ id "\<lambda>_. True"]) simp_all

lemma filter_stronger: "(\<And>x. Q x \<Longrightarrow> P x) \<Longrightarrow> filter Q xs = filter Q (filter P xs)"
  by (auto simp: filter_filter intro: filter_cong)

lemma shrinks_filter:
  assumes "shrinks xs ys" and "\<And>r r'. pr_scope r = pr_scope r' \<Longrightarrow> pr_key r = pr_key r' \<Longrightarrow>
    (active_request r \<longrightarrow> active_request r') \<Longrightarrow> C r \<Longrightarrow> C r'"
  shows "\<exists>Q. map pr_key (filter C ys) = map pr_key (filter Q (filter C xs))"
proof -
  from assms(1) obtain P f where f: "ys = map f (filter P xs)"
    "\<And>r. pr_id (f r) = pr_id r \<and> pr_scope (f r) = pr_scope r \<and> pr_key (f r) = pr_key r
          \<and> (active_request (f r) \<longrightarrow> active_request r)"
    unfolding shrinks_def by metis
  have "map pr_key (filter C ys) = map pr_key (filter (\<lambda>r. P r \<and> C (f r)) xs)"
    using f by (simp add: filter_map comp_def conj_commute)
  also have "filter (\<lambda>r. P r \<and> C (f r)) xs = filter (\<lambda>r. P r \<and> C (f r)) (filter C xs)"
    by (rule filter_stronger) (metis assms(2) f(2))
  finally show ?thesis by blast
qed

lemma limits_ok_shrinks:
  assumes "limits_ok q" and "shrinks (q_requests q) (q_requests q')" and "q_limits q' = q_limits q"
  shows "limits_ok q'"
  unfolding limits_ok_def
proof (intro allI conjI)
  fix s
  obtain Q where Q: "map pr_key (filter (plain_active s) (q_requests q')) =
      map pr_key (filter Q (filter (plain_active s) (q_requests q)))"
    using shrinks_filter [OF assms(2), of "plain_active s"] by (auto simp: plain_active_def)
  obtain R where R: "map pr_key (filter (cap_active s) (q_requests q')) =
      map pr_key (filter R (filter (cap_active s) (q_requests q)))"
    using shrinks_filter [OF assms(2), of "cap_active s"] by (auto simp: cap_active_def)
  have l: "length (filter (plain_active s) (q_requests q)) \<le> ql_max_pending_per_scope (q_limits q)"
      "length (filter (cap_active s) (q_requests q)) \<le> 1"
      "distinct (map pr_key (filter (plain_active s) (q_requests q)))"
    using assms(1) by (auto simp: limits_ok_def)
  show "length (filter (plain_active s) (q_requests q')) \<le> ql_max_pending_per_scope (q_limits q')"
    using l(1) arg_cong [OF Q, of length] length_filter_le [of Q "filter (plain_active s) (q_requests q)"]
    by (simp add: assms(3))
  show "length (filter (cap_active s) (q_requests q')) \<le> 1"
    using l(2) arg_cong [OF R, of length] length_filter_le [of R "filter (cap_active s) (q_requests q)"] by simp
  show "distinct (map pr_key (filter (plain_active s) (q_requests q')))"
    unfolding Q by (rule distinct_map_filter [OF l(3)])
qed

lemma ids_ok_shrinks:
  assumes "ids_ok q" and "shrinks (q_requests q) (q_requests q')" and "q_next_id q' = q_next_id q"
  shows "ids_ok q'"
proof -
  from assms(2) obtain P f where f: "q_requests q' = map f (filter P (q_requests q))" "\<And>r. pr_id (f r) = pr_id r"
    unfolding shrinks_def by metis
  then have "map pr_id (q_requests q') = map pr_id (filter P (q_requests q))" by simp
  with f assms(1,3) show ?thesis by (auto simp only: ids_ok_def distinct_map_filter) auto
qed

section \<open>Histories\<close>

text \<open>One call on the queue at a time, by the worker that holds a job or by anyone.\<close>

inductive queue_step :: "instant \<Rightarrow> queue \<times> job option \<Rightarrow> queue \<times> job option \<Rightarrow> bool" for now where
  enqueue: "q_next_id q < U64_MAX \<Longrightarrow> queue_step now (q, job) (fst (Queue_enqueue s k now q), job)"
| pick: "Queue_mark_decrypting i now q = (q', Some g) \<Longrightarrow> queue_step now (q, None) (q', Some (i, g))"
| complete: "queue_step now (q, Some (i, g)) (fst (Queue_complete i g now q), None)"
| fail: "queue_step now (q, Some (i, g)) (Queue_fail i now q, None)"
| deny: "queue_step now (q, job) (fst (Queue_deny i now q), job)"
| timeout: "queue_step now (q, job) (fst (Queue_timeout i now q), job)"
| sweep: "queue_step now (q, job) (fst (Queue_sweep_timeouts now q), job)"
| prune: "queue_step now (q, job) (Queue_prune now q, job)"

text \<open>A history whose clock does not run backwards, from one instant to another.\<close>

inductive queue_run ::
  "instant \<Rightarrow> queue \<times> job option \<Rightarrow> instant \<Rightarrow> queue \<times> job option \<Rightarrow> bool" for t s where
  start: "queue_run t s t s"
| step: "queue_run t s t' s' \<Longrightarrow> t' \<le> now \<Longrightarrow> queue_step now s' s'' \<Longrightarrow> queue_run t s now s''"

inductive_cases queue_step_release: "queue_step now (q, Some j) (q', None)"
inductive_cases queue_step_pick: "queue_step now (q, None) (q', Some j)"

lemma fold_finish:
  "fold (\<lambda>i. Queue_finish i now) is q =
     q\<lparr>q_inflight := (if \<exists>i \<in> set is. q_inflight q = Some i then None else q_inflight q),
       q_last_finished := (if is = [] then q_last_finished q else Some now)\<rparr>"
  by (induction "is" arbitrary: q) (auto simp: Queue_finish_def)

lemma Queue_finish_simps [simp]:
  "q_requests (Queue_finish i now q) = q_requests q"
  "q_limits (Queue_finish i now q) = q_limits q"
  "q_next_id (Queue_finish i now q) = q_next_id q"
  "q_generation (Queue_finish i now q) = q_generation q"
  "q_last_finished (Queue_finish i now q) = Some now"
  "q_inflight (Queue_finish i now q) = (if q_inflight q = Some i then None else q_inflight q)"
  by (simp_all add: Queue_finish_def)

lemma update_request_simps [simp]:
  "q_limits (update_request i f q) = q_limits q"
  "q_next_id (update_request i f q) = q_next_id q"
  "q_generation (update_request i f q) = q_generation q"
  "q_inflight (update_request i f q) = q_inflight q"
  "q_last_finished (update_request i f q) = q_last_finished q"
  by (simp_all add: update_request_def)

lemma update_request_map:
  "ids_ok q \<Longrightarrow> q_requests (update_request i f q) = map (\<lambda>r. if pr_id r = i then f r else r) (q_requests q)"
  by (simp add: update_request_def ids_ok_def update_first_eq_map)

lemma retire_simps [simp]:
  "pr_id (retire st r) = pr_id r" "pr_scope (retire st r) = pr_scope r" "pr_key (retire st r) = pr_key r"
  "pr_state (retire st r) = st" "pr_created (retire st r) = pr_created r"
  by (simp_all add: retire_def)

lemma find_request_Some:
  "ids_ok q \<Longrightarrow> find_request q i = Some r \<longleftrightarrow> r \<in> set (q_requests q) \<and> pr_id r = i"
  by (simp add: find_request_def ids_ok_def find_by_key)

lemma find_request_None: "find_request q i = None \<longleftrightarrow> (\<forall>r \<in> set (q_requests q). pr_id r \<noteq> i)"
  by (simp add: find_request_def find_None_all)

text \<open>An update in place that stops a request, or starts a pending one, revives nothing.\<close>

lemma shrinks_update:
  assumes "ids_ok q"
    and "\<And>r. r \<in> set (q_requests q) \<Longrightarrow> pr_id r = i \<Longrightarrow>
      pr_id (f r) = pr_id r \<and> pr_scope (f r) = pr_scope r \<and> pr_key (f r) = pr_key r
      \<and> (active_request (f r) \<longrightarrow> active_request r)"
  shows "shrinks (q_requests q) (q_requests (update_request i f q))"
proof (rule shrinksI [of _ "\<lambda>r. if pr_id r = i \<and> r \<in> set (q_requests q) then f r else r" "\<lambda>_. True"])
  show "q_requests (update_request i f q) =
      map (\<lambda>r. if pr_id r = i \<and> r \<in> set (q_requests q) then f r else r) (filter (\<lambda>_. True) (q_requests q))"
    using assms(1) by (simp add: update_request_map)
qed (use assms(2) in simp)

text \<open>Every call but \<open>enqueue\<close> shrinks the vector and keeps the limits and the counter.\<close>

definition quiet :: "queue \<Rightarrow> queue \<Rightarrow> bool" where
  "quiet q q' \<longleftrightarrow>
     shrinks (q_requests q) (q_requests q') \<and> q_limits q' = q_limits q \<and> q_next_id q' = q_next_id q"

lemma quiet_refl [simp]: "quiet q q"
  by (simp add: quiet_def)

lemma ids_unique:
  "ids_ok q \<Longrightarrow> r \<in> set (q_requests q) \<Longrightarrow> r' \<in> set (q_requests q) \<Longrightarrow> pr_id r = pr_id r' \<Longrightarrow> r = r'"
  by (auto simp: ids_ok_def distinct_map dest: inj_onD)

lemma mark_Some:
  "Queue_mark_decrypting i now q = (q', Some g) \<longleftrightarrow>
     q_inflight q = None \<and> \<not> cooling q now \<and> (\<exists>r. find_request q i = Some r \<and> pr_state r = StPending)
     \<and> g = saturating_add_u64 (q_generation q) 1
     \<and> q' = (update_request i (\<lambda>r. r\<lparr>pr_state := StDecrypting, pr_generation := g\<rparr>) q)
              \<lparr>q_generation := g, q_inflight := Some i\<rparr>"
  by (auto simp: Queue_mark_decrypting_def Let_def split: option.splits if_splits)

lemma quiet_mark:
  assumes "ids_ok q" and "Queue_mark_decrypting i now q = (q', Some g)"
  shows "quiet q q'"
proof -
  obtain r where r: "r \<in> set (q_requests q)" "pr_id r = i" "pr_state r = StPending"
    using assms by (auto simp: mark_Some find_request_Some)
  have "shrinks (q_requests q) (q_requests (update_request i (\<lambda>r. r\<lparr>pr_state := StDecrypting, pr_generation := g\<rparr>) q))"
    using r by (intro shrinks_update [OF assms(1)]) (auto simp: active_request_def dest: ids_unique [OF assms(1)])
  then show ?thesis using assms(2) by (simp add: quiet_def mark_Some)
qed

lemma quiet_complete: "ids_ok q \<Longrightarrow> quiet q (fst (Queue_complete i g now q))"
  by (auto simp: quiet_def Queue_complete_def Let_def active_request_def intro!: shrinks_update)

lemma quiet_fail: "ids_ok q \<Longrightarrow> quiet q (Queue_fail i now q)"
  by (auto simp: quiet_def Queue_fail_def active_request_def intro!: shrinks_update)

lemma quiet_deny: "ids_ok q \<Longrightarrow> quiet q (fst (Queue_deny i now q))"
  by (auto simp: quiet_def Queue_deny_def active_request_def intro!: shrinks_update split: option.split)

lemma quiet_timeout: "ids_ok q \<Longrightarrow> quiet q (fst (Queue_timeout i now q))"
  by (auto simp: quiet_def Queue_timeout_def active_request_def intro!: shrinks_update split: option.split)

lemma quiet_sweep: "quiet q (fst (Queue_sweep_timeouts now q))"
  by (auto simp: quiet_def Queue_sweep_timeouts_def Let_def fold_finish active_request_def split: if_splits
      intro!: shrinksI [of _ "\<lambda>r. if overdue now q r then retire StTimedOut r else r" "\<lambda>_. True"])

lemma quiet_prune: "quiet q (Queue_prune now q)"
  by (auto simp: quiet_def Queue_prune_def Let_def intro!: shrinksI [of _ id])

lemmas quiet_ops = quiet_mark quiet_complete quiet_fail quiet_deny quiet_timeout quiet_sweep quiet_prune

lemma quiet_ids_limits:
  "quiet q q' \<Longrightarrow> ids_ok q \<and> limits_ok q \<Longrightarrow> ids_ok q' \<and> limits_ok q'"
  by (auto simp: quiet_def intro: ids_ok_shrinks limits_ok_shrinks)

lemma enqueue_cases:
  assumes "Queue_enqueue s k now q = (q', res)"
  obtains (coalesced) r where "q' = q" "res = Inr (pr_id r)" "r \<in> set (q_requests q)" "pr_scope r = s" "pr_key r = k"
      "active_request r" "\<not> capability_key k"
  | (refused) "q' = q" "res = Inl TooManyPending"
  | (added) r where "q_requests q' = q_requests q @ [r]" "pr_id r = q_next_id q" "pr_scope r = s" "pr_key r = k"
      "pr_state r = StPending" "res = Inr (q_next_id q)" "q_limits q' = q_limits q"
      "q_next_id q' = saturating_add_u64 (q_next_id q) 1" "q_inflight q' = q_inflight q"
      "q_last_finished q' = q_last_finished q"
      "capability_key k \<Longrightarrow> filter (cap_active s) (q_requests q) = []"
      "\<not> capability_key k \<Longrightarrow> length (filter (plain_active s) (q_requests q)) < ql_max_pending_per_scope (q_limits q)
          \<and> k \<notin> pr_key ` set (filter (plain_active s) (q_requests q))"
proof (cases "\<not> capability_key k \<and> (\<exists>r \<in> set (q_requests q). pr_scope r = s \<and> pr_key r = k \<and> active_request r)")
  case True
  then obtain r where "find (\<lambda>r. pr_scope r = s \<and> pr_key r = k \<and> active_request r) (q_requests q) = Some r"
    using find_None_all [of "\<lambda>r. pr_scope r = s \<and> pr_key r = k \<and> active_request r" "q_requests q"] by auto
  moreover from this True assms have "q' = q" "res = Inr (pr_id r)" by (simp_all add: Queue_enqueue_def)
  ultimately show thesis using True find_Some_in by (intro coalesced [of r]) fast+
next
  case False
  let ?lim = "if capability_key k then 1 else ql_max_pending_per_scope (q_limits q)"
  let ?act = "length (filter (\<lambda>r. pr_scope r = s \<and> (\<not> capability_key k \<or> capability_key (pr_key r))
                                 \<and> active_request r) (q_requests q))"
  have none: "(if \<not> capability_key k
      then find (\<lambda>r. pr_scope r = s \<and> pr_key r = k \<and> active_request r) (q_requests q) else None) = None"
    using False by (auto simp: find_None_all)
  show thesis
  proof (cases "?act \<ge> ?lim")
    case True
    with assms show thesis unfolding Queue_enqueue_def Let_def none by (intro refused) simp_all
  next
    case lt: False
    let ?r = "\<lparr>pr_id = q_next_id q, pr_scope = s, pr_key = k, pr_state = StPending, pr_generation = 0, pr_created = now\<rparr>"
    have q': "q' = q\<lparr>q_next_id := saturating_add_u64 (q_next_id q) 1, q_requests := q_requests q @ [?r]\<rparr>"
      "res = Inr (q_next_id q)"
      using assms lt unfolding Queue_enqueue_def Let_def none by simp_all
    have plain: "\<not> capability_key k \<Longrightarrow> length (filter (plain_active s) (q_requests q)) \<le> ?act"
      by (simp, rule length_filter_mono) (auto simp: plain_active_def)
    show thesis
    proof (rule added [of ?r])
      show "capability_key k \<Longrightarrow> filter (cap_active s) (q_requests q) = []"
        using lt by (auto simp: cap_active_def filter_empty_conv not_le)
      show "\<not> capability_key k \<Longrightarrow> length (filter (plain_active s) (q_requests q)) < ql_max_pending_per_scope (q_limits q)
          \<and> k \<notin> pr_key ` set (filter (plain_active s) (q_requests q))"
        using lt plain False by (auto simp: plain_active_def)
    qed (simp_all add: q')
  qed
qed

lemma ids_limits_enqueue:
  assumes "ids_ok q" and "limits_ok q" and "q_next_id q < U64_MAX"
  shows "ids_ok (fst (Queue_enqueue s k now q)) \<and> limits_ok (fst (Queue_enqueue s k now q))"
proof (cases "Queue_enqueue s k now q")
  case (Pair q' res)
  then show ?thesis
  proof (cases rule: enqueue_cases)
    case (added r)
    have "saturating_add_u64 (q_next_id q) 1 = Suc (q_next_id q)"
      using assms(3) by (simp add: saturating_add_u64_def)
    with added(1,2,8) assms(1) have "ids_ok q'" by (auto simp: ids_ok_def less_Suc_eq)
    moreover have "limits_ok q'"
      unfolding limits_ok_def
    proof (intro allI conjI)
      fix s'
      show "length (filter (plain_active s') (q_requests q')) \<le> ql_max_pending_per_scope (q_limits q')"
        using added(1,3,4,7,12) assms(2) by (auto simp: limits_ok_def plain_active_def)
      show "length (filter (cap_active s') (q_requests q')) \<le> 1"
        using added(1,3,4,11) assms(2) by (auto simp: limits_ok_def cap_active_def)
      show "distinct (map pr_key (filter (plain_active s') (q_requests q')))"
        using added(1,3,4,12) assms(2) by (auto simp: limits_ok_def plain_active_def)
    qed
    ultimately show ?thesis using Pair by simp
  qed (use assms Pair in auto)
qed

lemma ids_limits_step:
  "queue_step now s s' \<Longrightarrow> ids_ok (fst s) \<and> limits_ok (fst s) \<Longrightarrow> ids_ok (fst s') \<and> limits_ok (fst s')"
proof (induction rule: queue_step.induct)
  case (enqueue q job s k)
  then show ?case using ids_limits_enqueue [of q s k now] by simp
next
  case (sweep q job)
  then show ?case using quiet_ids_limits [OF quiet_sweep] by simp
next
  case (prune q job)
  then show ?case using quiet_ids_limits [OF quiet_prune] by simp
qed (auto dest: quiet_ids_limits [OF quiet_mark] quiet_ids_limits [OF quiet_complete]
       quiet_ids_limits [OF quiet_fail] quiet_ids_limits [OF quiet_deny] quiet_ids_limits [OF quiet_timeout])

text \<open>The hardware: stopping the request \<open>i\<close> and releasing it for \<open>i\<close> keeps the rest as it was. The
  invariant only looks at what is decrypting.\<close>

definition decrypting :: "queue \<Rightarrow> pending_request set" where
  "decrypting q = {r \<in> set (q_requests q). pr_state r = StDecrypting}"

lemma flight_ok_decrypting:
  "flight_ok q job \<longleftrightarrow>
     (\<forall>r \<in> decrypting q. job = Some (pr_id r, pr_generation r) \<and> q_inflight q = Some (pr_id r))
     \<and> (\<forall>i. q_inflight q = Some i \<longrightarrow> (\<exists>r \<in> decrypting q. pr_id r = i))"
  unfolding flight_ok_def decrypting_def by blast

lemma decrypting_stop:
  assumes "ids_ok q" and "\<And>r. pr_id (f r) = pr_id r \<and> pr_state (f r) \<noteq> StDecrypting"
  shows "decrypting (update_request i f q) = {r \<in> decrypting q. pr_id r \<noteq> i}"
proof -
  have "r \<in> decrypting (update_request i f q) \<longleftrightarrow>
      (\<exists>x \<in> set (q_requests q). r = (if pr_id x = i then f x else x) \<and> pr_state r = StDecrypting)" for r
    unfolding decrypting_def update_request_map [OF assms(1)] set_map mem_Collect_eq image_iff by blast
  also have "\<dots> r \<longleftrightarrow> (\<exists>x \<in> set (q_requests q). pr_id x \<noteq> i \<and> r = x \<and> pr_state r = StDecrypting)" for r
    using assms(2) by metis
  finally show ?thesis by (auto simp: decrypting_def)
qed

lemma decrypting_finish [simp]: "decrypting (Queue_finish i now q) = decrypting q"
  by (simp add: decrypting_def)

lemma flight_stop:
  assumes "ids_ok q" and "flight_ok q job" and "\<And>r. pr_id (f r) = pr_id r \<and> pr_state (f r) \<noteq> StDecrypting"
  shows "flight_ok (Queue_finish i now (update_request i f q)) job"
proof -
  let ?q = "Queue_finish i now (update_request i f q)"
  have d: "decrypting ?q = {r \<in> decrypting q. pr_id r \<noteq> i}"
    using decrypting_stop [OF assms(1,3), of i] by simp
  have h: "q_inflight ?q = Some j \<longleftrightarrow> q_inflight q = Some j \<and> j \<noteq> i" for j by auto
  show ?thesis
    using assms(2) unfolding flight_ok_decrypting d h by blast
qed

lemma flight_release:
  assumes "flight_ok q (Some (i, g))" and "\<forall>r \<in> decrypting q. pr_id r \<noteq> i"
  shows "flight_ok q None"
  using assms by (auto simp: flight_ok_decrypting)

lemma flight_quit:
  assumes "ids_ok q" and "flight_ok q (Some (i, g))"
    and "\<And>r. pr_id (f r) = pr_id r \<and> pr_state (f r) \<noteq> StDecrypting"
  shows "flight_ok (Queue_finish i now (update_request i f q)) None"
  using flight_release [OF flight_stop [OF assms]] decrypting_stop [OF assms(1,3), of i] by simp

lemma flight_deny: "ids_ok q \<Longrightarrow> flight_ok q job \<Longrightarrow> flight_ok (fst (Queue_deny i now q)) job"
  by (simp add: Queue_deny_def flight_stop split: option.split)

lemma flight_timeout: "ids_ok q \<Longrightarrow> flight_ok q job \<Longrightarrow> flight_ok (fst (Queue_timeout i now q)) job"
  by (simp add: Queue_timeout_def flight_stop split: option.split)

lemma flight_fail: "ids_ok q \<Longrightarrow> flight_ok q (Some (i, g)) \<Longrightarrow> flight_ok (Queue_fail i now q) None"
  unfolding Queue_fail_def by (rule flight_quit) simp_all

lemma flight_complete:
  assumes "ids_ok q" and "flight_ok q (Some (i, g))"
  shows "flight_ok (fst (Queue_complete i g now q)) None"
proof (cases "\<exists>r \<in> set (q_requests q). pr_id r = i \<and> pr_generation r = g \<and> pr_state r = StDecrypting")
  case True
  then show ?thesis using flight_quit [OF assms, of "\<lambda>r. r\<lparr>pr_state := StGranted\<rparr>"]
    by (simp add: Queue_complete_def Let_def)
next
  case False
  then have "decrypting q = {}" using assms(2) by (auto simp: flight_ok_decrypting decrypting_def)
  then have "flight_ok q None" "q_inflight q = None" using assms(2) by (auto simp: flight_ok_decrypting)
  with False show ?thesis by (auto simp: Queue_complete_def Let_def flight_ok_decrypting)
qed

lemma flight_mark:
  assumes "ids_ok q" and "flight_ok q None" and "Queue_mark_decrypting i now q = (q', Some g)"
  shows "flight_ok q' (Some (i, g))"
proof -
  obtain r where r: "r \<in> set (q_requests q)" "pr_id r = i"
    using assms by (auto simp: mark_Some find_request_Some)
  have idle: "x \<in> set (q_requests q) \<Longrightarrow> pr_state x \<noteq> StDecrypting" for x
    using assms(2) by (auto simp: flight_ok_def)
  have q': "q_requests q' =
      map (\<lambda>r. if pr_id r = i then r\<lparr>pr_state := StDecrypting, pr_generation := g\<rparr> else r) (q_requests q)"
    "q_inflight q' = Some i"
    using assms(1,3) by (auto simp: mark_Some update_request_map)
  have "r\<lparr>pr_state := StDecrypting, pr_generation := g\<rparr> \<in> set (q_requests q')"
    unfolding q' set_map image_iff using r by (intro bexI [of _ r]) simp_all
  moreover have "pr_id x = i \<and> pr_generation x = g" if "x \<in> set (q_requests q')" "pr_state x = StDecrypting" for x
  proof -
    from that(1) obtain y where "y \<in> set (q_requests q)"
      "x = (if pr_id y = i then y\<lparr>pr_state := StDecrypting, pr_generation := g\<rparr> else y)"
      unfolding q' set_map image_iff by blast
    with idle [of y] that(2) show ?thesis by (cases "pr_id y = i") simp_all
  qed
  ultimately show ?thesis unfolding flight_ok_def using r(2) q'(2) by fastforce
qed

lemma flight_sweep:
  assumes "ids_ok q" and "flight_ok q job"
  shows "flight_ok (fst (Queue_sweep_timeouts now q)) job"
proof -
  let ?q = "fst (Queue_sweep_timeouts now q)"
  have d: "decrypting ?q = {r \<in> decrypting q. \<not> overdue now q r}"
    by (auto simp: decrypting_def Queue_sweep_timeouts_def Let_def fold_finish)
  have h: "q_inflight ?q = Some j \<longleftrightarrow>
      q_inflight q = Some j \<and> \<not> (\<exists>r \<in> set (q_requests q). overdue now q r \<and> pr_id r = j)" for j
    by (auto simp: Queue_sweep_timeouts_def Let_def fold_finish)
  have u: "r \<in> decrypting q \<Longrightarrow> r' \<in> set (q_requests q) \<Longrightarrow> pr_id r' = pr_id r \<Longrightarrow> r' = r" for r r'
    by (rule ids_unique [OF assms(1)]) (auto simp: decrypting_def)
  have m: "r \<in> decrypting q \<Longrightarrow> r \<in> set (q_requests q)" for r by (simp add: decrypting_def)
  have "job = Some (pr_id r, pr_generation r) \<and> q_inflight ?q = Some (pr_id r)" if "r \<in> decrypting ?q" for r
  proof -
    from that have r: "r \<in> decrypting q" "\<not> overdue now q r" by (simp_all add: d)
    then have "\<not> (\<exists>r' \<in> set (q_requests q). overdue now q r' \<and> pr_id r' = pr_id r)" using u by blast
    with r assms(2) show ?thesis unfolding h flight_ok_decrypting by blast
  qed
  moreover have "\<exists>r \<in> decrypting ?q. pr_id r = j" if "q_inflight ?q = Some j" for j
  proof -
    from that have j: "q_inflight q = Some j" "\<not> (\<exists>r \<in> set (q_requests q). overdue now q r \<and> pr_id r = j)"
      unfolding h by blast+
    with assms(2) obtain r where "r \<in> decrypting q" "pr_id r = j" unfolding flight_ok_decrypting by blast
    with j(2) m show ?thesis unfolding d by blast
  qed
  ultimately show ?thesis unfolding flight_ok_decrypting by blast
qed

lemma flight_prune: "flight_ok q job \<Longrightarrow> flight_ok (Queue_prune now q) job"
  by (auto simp: flight_ok_def Queue_prune_def Let_def active_request_def)

lemma flight_enqueue:
  assumes "flight_ok q job"
  shows "flight_ok (fst (Queue_enqueue s k now q)) job"
proof (cases "Queue_enqueue s k now q")
  case (Pair q' res)
  then have "flight_ok q' job"
    by (cases rule: enqueue_cases) (use assms in \<open>auto simp: flight_ok_def\<close>)
  with Pair show ?thesis by simp
qed

lemma wf_queue_step: "queue_step now s s' \<Longrightarrow> wf_queue s \<Longrightarrow> wf_queue s'"
  using ids_limits_step [of now s s']
  by (auto simp: wf_queue_def elim!: queue_step.cases
      intro: flight_enqueue flight_mark flight_complete flight_fail flight_deny flight_timeout flight_sweep flight_prune)

lemma wf_queue_new: "wf_queue (Queue_new limits, None)"
  by (simp add: wf_queue_def ids_ok_def flight_ok_def limits_ok_def Queue_new_def)

lemma wf_queue_run: "queue_run t s t' s' \<Longrightarrow> wf_queue s \<Longrightarrow> wf_queue s'"
  by (induction rule: queue_run.induct) (auto intro: wf_queue_step)

lemma queue_step_limits:
  assumes "queue_step now s s'" and "ids_ok (fst s)"
  shows "q_limits (fst s') = q_limits (fst s)"
  using assms
proof cases
  case (enqueue q job s k)
  then show ?thesis by (cases "Queue_enqueue s k now q") (auto elim: enqueue_cases)
qed (auto simp: quiet_ops [unfolded quiet_def])

lemma queue_run_limits: "queue_run t s t' s' \<Longrightarrow> wf_queue s \<Longrightarrow> q_limits (fst s') = q_limits (fst s)"
proof (induction rule: queue_run.induct)
  case (step t' s' now s'')
  then have "ids_ok (fst s')" using wf_queue_run wf_queue_def by blast
  with step queue_step_limits [OF step(3)] show ?case by simp
qed simp

section \<open>Properties of the queue\<close>

text \<open>C22: Single flight. In every state that calls on the queue can reach, at most one request is
  decrypting, it is the one the worker holds, with the generation the worker was given, and it is the one
  recorded as in flight; while the worker holds nothing, nothing is decrypting and the hardware is free.\<close>

theorem single_flight:
  assumes "queue_run t0 (Queue_new limits, None) t (q, job)"
  shows "(Queue_state_of q i = Some StDecrypting \<longleftrightarrow> q_inflight q = Some i)
     \<and> (q_inflight q = Some i \<longrightarrow> (\<exists>g. job = Some (i, g) \<and> map_option pr_generation (find_request q i) = Some g))"
proof -
  have wf: "ids_ok q" "flight_ok q job"
    using wf_queue_run [OF assms wf_queue_new] by (simp_all add: wf_queue_def)
  then have "Queue_state_of q i = Some StDecrypting \<longleftrightarrow> q_inflight q = Some i"
    by (auto simp: flight_ok_def find_request_Some Queue_state_of_def)
  moreover have "\<exists>g. job = Some (i, g) \<and> map_option pr_generation (find_request q i) = Some g"
    if "q_inflight q = Some i"
  proof -
    from wf that obtain r where "r \<in> set (q_requests q)" "pr_id r = i" "pr_state r = StDecrypting"
      unfolding flight_ok_def by blast
    with wf show ?thesis by (auto simp: flight_ok_def find_request_Some)
  qed
  ultimately show ?thesis by blast
qed

text \<open>A queue on which one request was asked for and picked up.\<close>

definition example_limits :: queue_limits where
  "example_limits = \<lparr>ql_cooldown = from_secs 20, ql_ttl = from_secs 60, ql_max_pending_per_scope = 2\<rparr>"

definition example_scope :: scope where "example_scope = Tty ''/dev/pts/1'' ''boot''"

definition example_asked :: queue where
  "example_asked = fst (Queue_enqueue example_scope (SecretName ''DB'') (from_secs 5) (Queue_new example_limits))"

definition example_picked :: queue where
  "example_picked = fst (Queue_mark_decrypting 1 (from_secs 6) example_asked)"

lemma example_pick: "Queue_mark_decrypting 1 (from_secs 6) example_asked = (example_picked, Some 1)"
  unfolding example_picked_def by code_simp

lemma example_step_pick: "queue_step (from_secs 6) (example_asked, None) (example_picked, Some (1, 1))"
  by (rule queue_step.pick [OF example_pick])

lemma example_run: "queue_run 0 (Queue_new example_limits, None) (from_secs 6) (example_picked, Some (1, 1))"
proof -
  have "queue_step (from_secs 5) (Queue_new example_limits, None) (example_asked, None)"
    unfolding example_asked_def by (rule queue_step.enqueue) code_simp
  then have "queue_run 0 (Queue_new example_limits, None) (from_secs 5) (example_asked, None)"
    using queue_run.step [OF queue_run.start] by simp
  then show ?thesis
    by (rule queue_run.step [OF _ _ example_step_pick]) (simp add: from_secs_def)
qed

theorem single_flight_witness:
  "\<exists>g. Some (1, 1) = Some (1::nat, g) \<and> map_option pr_generation (find_request example_picked 1) = Some g"
proof -
  have "q_inflight example_picked = Some 1" by code_simp
  with single_flight [OF example_run, of 1] show ?thesis by blast
qed

text \<open>Bounded and coalesced. In every reachable state a scope has at most the configured number of
  active requests for ordinary keys and at most one for capability keys, and no two of the ordinary ones
  are for the same key.\<close>

theorem active_requests_bounded:
  assumes "queue_run t0 (Queue_new limits, None) t (q, job)"
  shows "length (filter (plain_active s) (q_requests q)) \<le> ql_max_pending_per_scope limits
     \<and> length (filter (cap_active s) (q_requests q)) \<le> 1
     \<and> distinct (map pr_key (filter (plain_active s) (q_requests q)))"
proof -
  have "limits_ok q" "q_limits q = limits"
    using wf_queue_run [OF assms wf_queue_new] queue_run_limits [OF assms wf_queue_new]
    by (simp_all add: wf_queue_def Queue_new_def)
  then show ?thesis by (simp add: limits_ok_def)
qed

theorem active_requests_bounded_witness:
  "length (filter (plain_active example_scope) (q_requests example_picked)) \<le> ql_max_pending_per_scope example_limits
   \<and> length (filter (cap_active example_scope) (q_requests example_picked)) \<le> 1
   \<and> distinct (map pr_key (filter (plain_active example_scope) (q_requests example_picked)))"
  by (rule active_requests_bounded [OF example_run])

section \<open>Cooldown\<close>

text \<open>The time of the last release only moves forward with the clock.\<close>

lemma last_finished_step:
  assumes "queue_step now s s'" and "q_last_finished (fst s) = Some l" and "l \<le> now"
  shows "\<exists>l'. q_last_finished (fst s') = Some l' \<and> l \<le> l' \<and> l' \<le> now"
  using assms(1)
proof cases
  case (enqueue q job s k)
  then show ?thesis using assms by (cases "Queue_enqueue s k now q") (auto elim: enqueue_cases)
qed (use assms in \<open>auto simp: mark_Some Queue_complete_def Queue_fail_def Queue_deny_def Queue_timeout_def
       Queue_sweep_timeouts_def Queue_prune_def fold_finish Let_def split: option.split\<close>)

lemma last_finished_run:
  "queue_run t s t' s' \<Longrightarrow> q_last_finished (fst s) = Some t \<Longrightarrow>
   t \<le> t' \<and> (\<exists>l. q_last_finished (fst s') = Some l \<and> t \<le> l \<and> l \<le> t')"
proof (induction rule: queue_run.induct)
  case (step t' s' now s'')
  then obtain l where "q_last_finished (fst s') = Some l" "t \<le> l" "l \<le> t'" "t \<le> t'" by auto
  with last_finished_step [OF step(3)] step(2) show ?case by (meson le_trans)
qed simp

text \<open>C23: The cooldown separates touches. When the worker gives up the hardware at time \<open>t\<close>, whether
  its decrypt succeeded or failed, and whatever is asked, denied, expired or pruned afterwards, the next
  request it picks up starts at least the cooldown after \<open>t\<close>.\<close>

theorem cooldown_between_touches:
  assumes "queue_run t0 (Queue_new limits, None) t1 (q, Some job)"
    and "queue_step t (q, Some job) (q1, None)"
    and "queue_run t (q1, None) t2 (q2, None)"
    and "t2 \<le> now" and "queue_step now (q2, None) (q3, Some job')"
  shows "t + ql_cooldown limits \<le> now"
proof -
  have wf: "wf_queue (q, Some job)" by (rule wf_queue_run [OF assms(1) wf_queue_new])
  then have wf1: "wf_queue (q1, None)" by (rule wf_queue_step [OF assms(2)])
  have "q_limits q1 = limits"
    using queue_step_limits [OF assms(2)] queue_run_limits [OF assms(1) wf_queue_new] wf
    by (simp add: wf_queue_def Queue_new_def)
  then have lim: "q_limits q2 = limits" using queue_run_limits [OF assms(3) wf1] by simp
  have "q_last_finished q1 = Some t"
    using assms(2) by (cases rule: queue_step_release) (auto simp: Queue_complete_def Queue_fail_def Let_def)
  then obtain l where l: "q_last_finished q2 = Some l" "t \<le> l" "l \<le> t2"
    using last_finished_run [OF assms(3)] by auto
  have "\<not> cooling q2 now"
    using assms(5) by (cases rule: queue_step_pick) (auto simp only: mark_Some)
  with l lim assms(4) show ?thesis by (simp add: cooling_def checked_duration_since_def)
qed

definition example_done :: queue where
  "example_done = fst (Queue_complete 1 1 (from_secs 9) example_picked)"

definition example_again :: queue where
  "example_again = fst (Queue_enqueue example_scope (SecretName ''DB'') (from_secs 10) example_done)"

lemma example_step_done: "queue_step (from_secs 9) (example_picked, Some (1, 1)) (example_done, None)"
  unfolding example_done_def by (rule queue_step.complete)

lemma example_run_again: "queue_run (from_secs 9) (example_done, None) (from_secs 10) (example_again, None)"
proof (rule queue_run.step [OF queue_run.start])
  show "queue_step (from_secs 10) (example_done, None) (example_again, None)"
    unfolding example_again_def by (rule queue_step.enqueue) code_simp
qed (simp add: from_secs_def)

theorem cooldown_between_touches_witness:
  "from_secs 9 + ql_cooldown example_limits \<le> from_secs 29"
proof (rule cooldown_between_touches [OF example_run example_step_done example_run_again])
  show "from_secs 10 \<le> from_secs 29" by (simp add: from_secs_def)
  have "Queue_mark_decrypting 2 (from_secs 29) example_again =
      (fst (Queue_mark_decrypting 2 (from_secs 29) example_again), Some 2)" by code_simp
  then show "queue_step (from_secs 29) (example_again, None)
      (fst (Queue_mark_decrypting 2 (from_secs 29) example_again), Some (2, 2))"
    by (rule queue_step.pick)
qed

section \<open>Final states\<close>

text \<open>A request with an identifier already given out and that is not active, or is gone.\<close>

definition settled :: "queue \<Rightarrow> request_id \<Rightarrow> bool" where
  "settled q i \<longleftrightarrow> i < q_next_id q \<and> (\<forall>r \<in> set (q_requests q). pr_id r = i \<longrightarrow> \<not> active_request r)"

lemma settled_quiet: "quiet q q' \<Longrightarrow> settled q i \<Longrightarrow> settled q' i"
  unfolding quiet_def shrinks_def settled_def by (auto; blast)

lemma settled_enqueue:
  assumes "settled q i" and "q_next_id q < U64_MAX"
  shows "settled (fst (Queue_enqueue s k now q)) i"
proof (cases "Queue_enqueue s k now q")
  case (Pair q' res)
  then have "settled q' i"
    by (cases rule: enqueue_cases) (use assms in \<open>auto simp: settled_def saturating_add_u64_def\<close>)
  with Pair show ?thesis by simp
qed

lemma settled_step: "queue_step now s s' \<Longrightarrow> ids_ok (fst s) \<Longrightarrow> settled (fst s) i \<Longrightarrow> settled (fst s') i"
  by (induction rule: queue_step.induct)
     (auto intro: settled_enqueue settled_quiet [OF quiet_mark] settled_quiet [OF quiet_complete]
        settled_quiet [OF quiet_fail] settled_quiet [OF quiet_deny] settled_quiet [OF quiet_timeout]
        settled_quiet [OF quiet_sweep] settled_quiet [OF quiet_prune])

lemma settled_run:
  "queue_run t s t' s' \<Longrightarrow> wf_queue s \<Longrightarrow> settled (fst s) i \<Longrightarrow> settled (fst s') i"
proof (induction rule: queue_run.induct)
  case (step t' s' now s'')
  then have "ids_ok (fst s')" using wf_queue_run wf_queue_def by blast
  with step settled_step show ?case by blast
qed simp

lemma settled_not_completed: "settled q i \<Longrightarrow> \<not> snd (Queue_complete i g now q)"
  by (auto simp: settled_def Queue_complete_def active_request_def Let_def)

text \<open>C21: A decision is final. Once a reachable queue reports a request as granted, denied, timed out or
  failed, then however the queue is used afterwards, and even if the decrypt that was running for it comes
  back with a value, completing it is refused: no late touch turns a denial into a grant, and no request is
  granted twice.\<close>

theorem decided_request_never_granted:
  assumes "queue_run t0 (Queue_new limits, None) t (q, job)"
    and "Queue_state_of q i = Some st" and "st \<noteq> StPending" and "st \<noteq> StDecrypting"
    and "queue_run t (q, job) t' (q', job')"
  shows "\<not> snd (Queue_complete i g now q')"
proof -
  have wf: "wf_queue (q, job)" by (rule wf_queue_run [OF assms(1) wf_queue_new])
  then have ids: "ids_ok q" by (simp add: wf_queue_def)
  obtain r where r: "r \<in> set (q_requests q)" "pr_id r = i" "pr_state r = st"
    using assms(2) by (auto simp: Queue_state_of_def find_request_Some [OF ids])
  with ids_unique [OF ids] assms(3,4) ids have "settled q i"
    by (metis active_request_def ids_ok_def settled_def)
  then have "settled q' i" using settled_run [OF assms(5) wf] by simp
  then show ?thesis by (rule settled_not_completed)
qed

theorem decided_request_never_granted_witness:
  "\<not> snd (Queue_complete 1 1 (from_secs 9) (fst (Queue_deny 1 (from_secs 8) example_picked)))"
proof -
  let ?q = "fst (Queue_deny 1 (from_secs 8) example_picked)"
  have run: "queue_run 0 (Queue_new example_limits, None) (from_secs 8) (?q, Some (1, 1))"
    by (rule queue_run.step [OF example_run _ queue_step.deny]) (simp add: from_secs_def)
  have "Queue_state_of ?q 1 = Some StDenied" by code_simp
  then show ?thesis
    by (rule decided_request_never_granted [OF run _ _ _ queue_run.start]) simp_all
qed

section \<open>Progress\<close>

text \<open>The queue never wedges. In every reachable state in which the worker holds no job, some request
  waits and the cooldown is over, \<open>next_ready\<close> offers a request, the oldest waiting one, and marking it
  succeeds. In particular a denied, expired or failed decrypt never leaves the hardware taken.\<close>

theorem idle_worker_can_start:
  assumes "queue_run t0 (Queue_new limits, None) t (q, None)" and "\<not> Queue_is_idle q" and "\<not> cooling q now"
  shows "\<exists>xs r ys q' g. q_requests q = xs @ r # ys \<and> (\<forall>x \<in> set xs. pr_state x \<noteq> StPending) \<and> pr_state r = StPending
     \<and> Queue_next_ready q now = Some (pr_id r) \<and> Queue_mark_decrypting (pr_id r) now q = (q', Some g)"
proof -
  have wf: "ids_ok q" "flight_ok q None"
    using wf_queue_run [OF assms(1) wf_queue_new] by (simp_all add: wf_queue_def)
  then have free: "q_inflight q = None" by (auto simp: flight_ok_def)
  obtain r0 where "r0 \<in> set (q_requests q)" "pr_state r0 = StPending"
    using assms(2) wf(2) by (auto simp: Queue_is_idle_def active_request_def flight_ok_def)
  then obtain xs r ys where r: "q_requests q = xs @ r # ys" "pr_state r = StPending" "\<forall>x \<in> set xs. pr_state x \<noteq> StPending"
    using split_list_first_prop [of "q_requests q" "\<lambda>r. pr_state r = StPending"] by blast
  then have "find (\<lambda>r. pr_state r = StPending) xs = None" by (simp add: find_None_all)
  with r have "find (\<lambda>r. pr_state r = StPending) (q_requests q) = Some r" by (simp add: find_append)
  then have "Queue_next_ready q now = Some (pr_id r)"
    using free assms(3) by (simp add: Queue_next_ready_def)
  moreover have "find_request q (pr_id r) = Some r" using wf(1) r(1) by (simp add: find_request_Some)
  ultimately show ?thesis using r free assms(3) by (auto simp: mark_Some)
qed

theorem idle_worker_can_start_witness:
  "\<exists>(r :: pending_request) q' g. Queue_next_ready example_asked (from_secs 6) = Some (pr_id r)
     \<and> Queue_mark_decrypting (pr_id r) (from_secs 6) example_asked = (q', Some g)"
proof -
  have "queue_step (from_secs 5) (Queue_new example_limits, None) (example_asked, None)"
    unfolding example_asked_def by (rule queue_step.enqueue) code_simp
  then have run: "queue_run 0 (Queue_new example_limits, None) (from_secs 5) (example_asked, None)"
    using queue_run.step [OF queue_run.start] by simp
  have "\<not> Queue_is_idle example_asked" "\<not> cooling example_asked (from_secs 6)" by code_simp+
  from idle_worker_can_start [OF run this] show ?thesis by fast
qed

text \<open>A failed decrypt reported after a denial: \<open>fail\<close> does not look at the state it overwrites.\<close>

lemma fail_hides_denial:
  "Queue_state_of (fst (Queue_deny 1 (from_secs 8) example_picked)) 1 = Some StDenied
   \<and> Queue_state_of (Queue_fail 1 (from_secs 9) (fst (Queue_deny 1 (from_secs 8) example_picked))) 1 = Some StFailed"
  by code_simp

section \<open>Following a request\<close>

text \<open>A request keeps its scope and its key, and a granted one stays granted, unless the worker fails the
  job it holds.\<close>

definition follows :: "job option \<Rightarrow> pending_request \<Rightarrow> pending_request \<Rightarrow> bool" where
  "follows job r r' \<longleftrightarrow> pr_id r' = pr_id r \<and> pr_scope r' = pr_scope r \<and> pr_key r' = pr_key r
     \<and> (pr_state r = StGranted \<longrightarrow> pr_state r' = StGranted \<or> (\<exists>g. job = Some (pr_id r, g)))"

lemma follows_refl [simp]: "follows job r r"
  by (simp add: follows_def)

lemma follows_update:
  assumes "ids_ok q" and "r' \<in> set (q_requests (update_request i f q))"
    and "\<And>r. r \<in> set (q_requests q) \<Longrightarrow> pr_id r = i \<Longrightarrow> follows job r (f r)"
  shows "\<exists>r \<in> set (q_requests q). follows job r r'"
proof -
  from assms(2) obtain x where "x \<in> set (q_requests q)" "r' = (if pr_id x = i then f x else x)"
    unfolding update_request_map [OF assms(1)] set_map image_iff by blast
  with assms(3) [of x] show ?thesis by (cases "pr_id x = i") (auto intro: bexI [of _ x])
qed

lemma find_request_unique:
  "ids_ok q \<Longrightarrow> find_request q i = Some r0 \<Longrightarrow> r \<in> set (q_requests q) \<Longrightarrow> pr_id r = i \<Longrightarrow> r = r0"
  using ids_unique [of q r r0] by (auto simp: find_request_Some)

lemma follows_retire:
  assumes "ids_ok q" and "find_request q i = Some r0" and "active_request r0"
    and "r' \<in> set (q_requests (update_request i (retire st) q))"
  shows "\<exists>r \<in> set (q_requests q). follows job r r'"
  by (rule follows_update [OF assms(1,4)])
     (use find_request_unique [OF assms(1,2)] assms(3) in \<open>auto simp: follows_def active_request_def\<close>)

lemma step_follows:
  assumes "queue_step now (q, job) (q', job')" and "ids_ok q" and "r' \<in> set (q_requests q')"
  shows "(pr_id r' = q_next_id q \<and> pr_state r' = StPending) \<or> (\<exists>r \<in> set (q_requests q). follows job r r')"
  using assms(1)
proof cases
  case (enqueue s k)
  obtain res where "Queue_enqueue s k now q = (q', res)" using enqueue by (cases "Queue_enqueue s k now q") simp
  then show ?thesis
    by (cases rule: enqueue_cases) (use assms(3) in \<open>auto intro: bexI [of _ r']\<close>)
next
  case (pick i g)
  then obtain r0 where r0: "find_request q i = Some r0" "pr_state r0 = StPending" by (auto simp: mark_Some)
  have "r' \<in> set (q_requests (update_request i (\<lambda>r. r\<lparr>pr_state := StDecrypting, pr_generation := g\<rparr>) q))"
    using assms(3) pick by (simp add: mark_Some)
  then have "\<exists>r \<in> set (q_requests q). follows job r r'"
    by (rule follows_update [OF assms(2)]) (use find_request_unique [OF assms(2) r0(1)] r0(2) in \<open>auto simp: follows_def\<close>)
  then show ?thesis ..
next
  case (complete i g)
  have "\<exists>r \<in> set (q_requests q). follows job r r'"
  proof (cases "snd (Queue_complete i g now q)")
    case True
    then have "r' \<in> set (q_requests (update_request i (\<lambda>r. r\<lparr>pr_state := StGranted\<rparr>) q))"
      using assms(3) complete by (simp add: Queue_complete_def Let_def)
    then show ?thesis by (rule follows_update [OF assms(2)]) (simp add: follows_def)
  next
    case False
    then have "r' \<in> set (q_requests q)"
      using assms(3) complete by (auto simp: Queue_complete_def Let_def split: if_splits)
    then show ?thesis by (auto intro: bexI [of _ r'])
  qed
  then show ?thesis ..
next
  case (fail i g)
  have "r' \<in> set (q_requests (update_request i (\<lambda>r. r\<lparr>pr_state := StFailed\<rparr>) q))"
    using assms(3) fail by (simp add: Queue_fail_def)
  then have "\<exists>r \<in> set (q_requests q). follows job r r'"
    by (rule follows_update [OF assms(2)]) (simp add: follows_def fail)
  then show ?thesis ..
next
  case (deny i)
  then show ?thesis using assms(2,3) follows_retire [of q i _ r' StDenied job]
    by (auto simp: Queue_deny_def intro: bexI [of _ r'] split: option.splits if_splits)
next
  case (timeout i)
  then show ?thesis using assms(2,3) follows_retire [of q i _ r' StTimedOut job]
    by (auto simp: Queue_timeout_def intro: bexI [of _ r'] split: option.splits if_splits)
next
  case sweep
  then obtain r where "r \<in> set (q_requests q)" "r' = (if overdue now q r then retire StTimedOut r else r)"
    using assms(3) by (auto simp: Queue_sweep_timeouts_def Let_def fold_finish)
  then have "follows job r r'" by (auto simp: follows_def overdue_def active_request_def)
  with \<open>r \<in> set (q_requests q)\<close> show ?thesis by blast
next
  case prune
  then show ?thesis using assms(3) by (auto simp: Queue_prune_def Let_def intro: bexI [of _ r'])
qed

text \<open>The job the worker holds is not granted.\<close>

definition job_open :: "queue \<Rightarrow> job option \<Rightarrow> bool" where
  "job_open q job \<longleftrightarrow> (\<forall>i g. job = Some (i, g) \<longrightarrow> i < q_next_id q
     \<and> (\<forall>r \<in> set (q_requests q). pr_id r = i \<longrightarrow> pr_state r \<noteq> StGranted))"

text \<open>What a queue can still say of a request by its identifier, for the induction over histories: the entry is
  of that scope and key (is granted), or it was pruned. A pruned entry says nothing, so the properties
  about approvals name the state in which the entry was there.\<close>

definition is_or_pruned :: "queue \<Rightarrow> request_id \<Rightarrow> scope \<Rightarrow> secret_name \<Rightarrow> bool" where
  "is_or_pruned q i s k \<longleftrightarrow> i < q_next_id q
     \<and> (\<forall>r \<in> set (q_requests q). pr_id r = i \<longrightarrow> pr_scope r = s \<and> pr_key r = k)"

definition granted_or_pruned :: "queue \<Rightarrow> request_id \<Rightarrow> bool" where
  "granted_or_pruned q i \<longleftrightarrow> i < q_next_id q \<and> (\<forall>r \<in> set (q_requests q). pr_id r = i \<longrightarrow> pr_state r = StGranted)"

lemma next_id_mono:
  assumes "queue_step now (q, job) (q', job')" and "ids_ok q"
  shows "q_next_id q \<le> q_next_id q'"
  using assms
proof cases
  case (enqueue s k)
  then show ?thesis
    by (cases "Queue_enqueue s k now q") (auto simp: saturating_add_u64_def elim!: enqueue_cases)
qed (auto simp: quiet_ops [unfolded quiet_def])

lemma request_is_step:
  assumes "queue_step now (q, job) (q', job')" and "ids_ok q" and "is_or_pruned q i s k"
  shows "is_or_pruned q' i s k"
proof -
  have "pr_scope r' = s \<and> pr_key r' = k" if "r' \<in> set (q_requests q')" "pr_id r' = i" for r'
    using step_follows [OF assms(1,2) that(1)] assms(3) that(2) by (auto simp: is_or_pruned_def follows_def)
  with next_id_mono [OF assms(1,2)] assms(3) show ?thesis by (auto simp: is_or_pruned_def)
qed

lemma granted_step:
  assumes "queue_step now (q, job) (q', job')" and "ids_ok q" and "job_open q job" and "granted_or_pruned q i"
  shows "granted_or_pruned q' i"
proof -
  have "pr_state r' = StGranted" if "r' \<in> set (q_requests q')" "pr_id r' = i" for r'
  proof -
    from step_follows [OF assms(1,2) that(1)] assms(4) that(2)
    obtain r where r: "r \<in> set (q_requests q)" "pr_id r = i" "follows job r r'"
      by (auto simp: granted_or_pruned_def follows_def)
    with assms(4) have "pr_state r = StGranted" by (auto simp: granted_or_pruned_def)
    with r assms(3) show ?thesis by (auto simp: follows_def job_open_def)
  qed
  with next_id_mono [OF assms(1,2)] assms(4) show ?thesis by (auto simp: granted_or_pruned_def)
qed

lemma job_open_step:
  assumes "queue_step now (q, job) (q', job')" and "ids_ok q" and "job_open q job"
  shows "job_open q' job'"
  using assms(1)
proof cases
  case (enqueue s k)
  obtain res where "Queue_enqueue s k now q = (q', res)" using enqueue by (cases "Queue_enqueue s k now q") simp
  then show ?thesis
    by (cases rule: enqueue_cases)
       (use assms(3) enqueue in \<open>auto simp: job_open_def saturating_add_u64_def\<close>)
next
  case (pick i g)
  then obtain r0 where r0: "find_request q i = Some r0" by (auto simp: mark_Some)
  have "q_requests q' = map (\<lambda>r. if pr_id r = i then r\<lparr>pr_state := StDecrypting, pr_generation := g\<rparr> else r) (q_requests q)"
    "q_next_id q' = q_next_id q"
    using pick assms(2) by (auto simp: mark_Some update_request_map)
  moreover have "i < q_next_id q" using r0 assms(2) by (auto simp: find_request_Some ids_ok_def)
  moreover have "pr_state r' \<noteq> StGranted"
    if "r' \<in> set (map (\<lambda>r. if pr_id r = i then r\<lparr>pr_state := StDecrypting, pr_generation := g\<rparr> else r) (q_requests q))"
      "pr_id r' = i" for r'
  proof -
    from that(1) obtain x where "r' = (if pr_id x = i then x\<lparr>pr_state := StDecrypting, pr_generation := g\<rparr> else x)"
      unfolding set_map image_iff by blast
    with that(2) show ?thesis by (cases "pr_id x = i") simp_all
  qed
  ultimately show ?thesis unfolding job_open_def pick(2) by (metis option.inject prod.inject)
next
  case (complete i g)
  then show ?thesis by (simp add: job_open_def)
next
  case (fail i g)
  then show ?thesis by (simp add: job_open_def)
next
  case (deny i)
  then show ?thesis using assms(2,3)
    by (auto simp: Queue_deny_def job_open_def update_request_map split: option.splits)
next
  case (timeout i)
  then show ?thesis using assms(2,3)
    by (auto simp: Queue_timeout_def job_open_def update_request_map split: option.splits)
next
  case sweep
  then show ?thesis using assms(3)
    by (auto simp: Queue_sweep_timeouts_def Let_def fold_finish job_open_def)
next
  case prune
  then show ?thesis using assms(3) by (auto simp: Queue_prune_def Let_def job_open_def)
qed

lemma enqueue_request_is:
  assumes "Queue_enqueue s k now q = (q', Inr i)" and "ids_ok q" and "q_next_id q < U64_MAX"
  shows "is_or_pruned q' i s k"
  using assms(1)
proof (cases rule: enqueue_cases)
  case (coalesced r)
  have "r' = r" if "r' \<in> set (q_requests q)" "pr_id r' = pr_id r" for r'
    by (rule ids_unique [OF assms(2) that(1) coalesced(3) that(2)])
  moreover have "pr_id r < q_next_id q" using assms(2) coalesced(3) by (auto simp: ids_ok_def)
  ultimately show ?thesis using coalesced by (auto simp: is_or_pruned_def)
next
  case (added r)
  then show ?thesis using assms(2,3)
    by (auto simp: is_or_pruned_def ids_ok_def saturating_add_u64_def)
qed simp

end
