(* ===== verification/Receipts.thy ===== *)
theory Receipts
  imports Capability Store
begin

text \<open>
  Single-use receipts (\<open>src/receipts.rs\<close>). The random source is outside the program: what
  \<open>/dev/urandom\<close> answers is an argument, the successive reads. The constant-time scan of \<open>redeem\<close> is
  kept at its machine width and proved to find the first match; the table is proved to implement a map
  from identifiers, which gives that a receipt is redeemed at most as often as it was minted.
\<close>

definition RECEIPT_LEN :: nat where "RECEIPT_LEN = 32"
definition RECEIPT_TTL :: duration where "RECEIPT_TTL = from_secs 60"
definition MAX_RECEIPTS :: nat where "MAX_RECEIPTS = 32"

record receipt_entry =
  re_id :: "u8 list"
  re_cap :: capability
  re_minted :: instant

record receipt_table =
  rt_entries :: "receipt_entry list"

definition ReceiptTable_default :: receipt_table where
  "ReceiptTable_default = \<lparr>rt_entries = []\<rparr>"

definition ReceiptTable_fmt :: "receipt_table \<Rightarrow> debug_value" where
  "ReceiptTable_fmt t = DebugStruct ''ReceiptTable'' [(''outstanding'', DebugNat (length (rt_entries t)))]"

section \<open>Hexadecimal\<close>

definition HEX_DIGITS :: string where "HEX_DIGITS = ''0123456789abcdef''"

definition hex :: "u8 list \<Rightarrow> string" where
  "hex bytes = concat (map (\<lambda>byte.
     [HEX_DIGITS ! unat (drop_bit 4 byte), HEX_DIGITS ! unat (byte AND 0x0f)]) bytes)"

text \<open>\<open>chunks_exact(2)\<close> drops a last odd element.\<close>

fun chunks_exact_2 :: "'a list \<Rightarrow> 'a list list" where
  "chunks_exact_2 (a # b # xs) = [a, b] # chunks_exact_2 xs"
| "chunks_exact_2 _ = []"

fun parse_chunks :: "string list \<Rightarrow> u8 list option" where
  "parse_chunks [] = Some []"
| "parse_chunks (chunk # rest) =
     Option.bind (from_utf8 chunk) (\<lambda>t.
     Option.bind (parse_unsigned 16 U8_MAX t) (\<lambda>byte.
     map_option ((#) (of_nat byte)) (parse_chunks rest)))"

definition parse_hex :: "string \<Rightarrow> u8 list option" where
  "parse_hex raw =
     (if length raw \<noteq> RECEIPT_LEN * 2 \<or> \<not> list_all is_ascii_hexdigit raw then None
      else parse_chunks (chunks_exact_2 raw))"

section \<open>Operations\<close>

definition ReceiptTable_sweep :: "instant \<Rightarrow> receipt_table \<Rightarrow> receipt_table" where
  "ReceiptTable_sweep now t =
     t\<lparr>rt_entries := filter (\<lambda>e. duration_since now (re_minted e) < RECEIPT_TTL) (rt_entries t)\<rparr>"

definition ReceiptTable_clear :: "receipt_table \<Rightarrow> receipt_table" where
  "ReceiptTable_clear t = t\<lparr>rt_entries := []\<rparr>"

text \<open>
  The random source: opening it may fail; then every \<open>read_exact\<close> of 32 bytes fails or fills the buffer.
  The loop of \<open>mint\<close> draws until it has an identifier that is not in the table; \<open>None\<close> means that it has
  used up the given reads and is still drawing.
\<close>

datatype io_error = WouldBlock | OtherIo

type_synonym urandom = "io_error + (io_error + u8 list) list"

definition duplicate_id :: "receipt_entry list \<Rightarrow> u8 list \<Rightarrow> bool" where
  "duplicate_id es candidate = fold (\<lambda>e found. found \<or> re_id e = candidate) es False"

fun draw_id :: "receipt_entry list \<Rightarrow> (io_error + u8 list) list \<Rightarrow> (io_error + u8 list) option" where
  "draw_id es [] = None"
| "draw_id es (Inl err # _) = Some (Inl err)"
| "draw_id es (Inr bytes # rest) = (if \<not> duplicate_id es bytes then Some (Inr bytes) else draw_id es rest)"

definition ReceiptTable_mint ::
  "urandom \<Rightarrow> capability \<Rightarrow> instant \<Rightarrow> receipt_table \<Rightarrow> receipt_table \<times> (io_error + string) option" where
  "ReceiptTable_mint random cap now t0 =
     (let t = ReceiptTable_sweep now t0 in
      if length (rt_entries t) \<ge> MAX_RECEIPTS then (t, Some (Inl WouldBlock))
      else case random of
          Inl err \<Rightarrow> (t, Some (Inl err))
        | Inr reads \<Rightarrow>
            (case draw_id (rt_entries t) reads of
               None \<Rightarrow> (t, None)
             | Some (Inl err) \<Rightarrow> (t, Some (Inl err))
             | Some (Inr i) \<Rightarrow>
                 (t\<lparr>rt_entries := rt_entries t @ [\<lparr>re_id = i, re_cap = cap, re_minted = now\<rparr>]\<rparr>,
                  Some (Inr (hex i)))))"

text \<open>The scan of \<open>redeem\<close>: \<open>Choice\<close> as a boolean, \<open>usize\<close> as a 64-bit word, the mask all ones at the
  first match and zero elsewhere.\<close>

fun ct_scan :: "u8 list \<Rightarrow> receipt_entry list \<Rightarrow> nat \<Rightarrow> 64 word \<Rightarrow> bool \<Rightarrow> 64 word \<times> bool" where
  "ct_scan presented [] index position found = (position, found)"
| "ct_scan presented (e # es) index position found =
     (let matches = (re_id e = presented);
          mask = 0 - (of_bool (matches \<and> \<not> found) :: 64 word)
      in ct_scan presented es (Suc index)
           ((position AND NOT mask) OR (of_nat index AND mask)) (found \<or> matches))"

definition ReceiptTable_redeem ::
  "string \<Rightarrow> capability \<Rightarrow> instant \<Rightarrow> receipt_table \<Rightarrow> receipt_table \<times> capability option" where
  "ReceiptTable_redeem receipt_hex expected_cap now t0 =
     (let t = ReceiptTable_sweep now t0 in
      case parse_hex receipt_hex of
        None \<Rightarrow> (t, None)
      | Some presented \<Rightarrow>
          let (position, found) = ct_scan presented (rt_entries t) 0 0 False;
              p = unat position
          in if found \<and> p < length (rt_entries t) \<and> re_cap (rt_entries t ! p) = expected_cap
             then (t\<lparr>rt_entries := swap_remove p (rt_entries t)\<rparr>, Some (re_cap (rt_entries t ! p)))
             else (t, None))"

section \<open>The constant-time scan\<close>

lemma mask_select:
  "((position :: 64 word) AND NOT (0 - of_bool b)) OR (i AND (0 - of_bool b)) = (if b then i else position)"
  by (cases b) simp_all

lemma ct_scan_found: "ct_scan presented es index position True = (position, True)"
  by (induction es arbitrary: index) (simp_all add: Let_def mask_select del: of_nat_Suc)

text \<open>The scan returns the index of the first match, counted from \<open>index\<close>.\<close>

lemma ct_scan_first:
  "ct_scan presented es index position False =
     (case find (\<lambda>p. re_id (es ! p) = presented) [0..<length es] of
        None \<Rightarrow> (position, False)
      | Some p \<Rightarrow> (of_nat (index + p), True))"
proof (induction es arbitrary: index)
  case (Cons e es)
  have up: "[0..<length (e # es)] = 0 # map Suc [0..<length es]"
    by (metis length_Cons map_Suc_upt upt_conv_Cons zero_less_Suc)
  have m: "find P (map Suc xs) = map_option Suc (find (P \<circ> Suc) xs)" for P xs
    by (induction xs) auto
  show ?case
  proof (cases "re_id e = presented")
    case True
    then show ?thesis unfolding up by (simp add: Let_def mask_select ct_scan_found)
  next
    case False
    then have "ct_scan presented (e # es) index position False = ct_scan presented es (Suc index) position False"
      by (simp add: Let_def mask_select)
    with False Cons.IH [of "Suc index"] show ?thesis
      unfolding up find.simps m by (simp add: comp_def split: option.split)
  qed
qed simp

section \<open>The table as a map\<close>

definition wf_receipts :: "receipt_table \<Rightarrow> bool" where
  "wf_receipts t \<longleftrightarrow> distinct (map re_id (rt_entries t)) \<and> length (rt_entries t) \<le> MAX_RECEIPTS"

definition receipts_map :: "receipt_table \<Rightarrow> u8 list \<Rightarrow> receipt_entry option" where
  "receipts_map t i = find (\<lambda>e. re_id e = i) (rt_entries t)"

lemma receipts_map_Some:
  "wf_receipts t \<Longrightarrow> receipts_map t i = Some e \<longleftrightarrow> e \<in> set (rt_entries t) \<and> re_id e = i"
  by (simp add: receipts_map_def wf_receipts_def find_by_key)

lemma duplicate_id_iff: "duplicate_id es i \<longleftrightarrow> (\<exists>e \<in> set es. re_id e = i)"
proof -
  have "fold (\<lambda>e found. found \<or> re_id e = i) es b \<longleftrightarrow> b \<or> (\<exists>e \<in> set es. re_id e = i)" for b
    by (induction es arbitrary: b) auto
  then show ?thesis by (simp add: duplicate_id_def)
qed

lemma draw_id_fresh: "draw_id es reads = Some (Inr i) \<Longrightarrow> \<not> duplicate_id es i \<and> Inr i \<in> set reads"
  by (induction es reads rule: draw_id.induct) (auto split: if_splits)

text \<open>What is alive at a time.\<close>

definition alive :: "instant \<Rightarrow> receipt_entry \<Rightarrow> bool" where
  "alive now e \<longleftrightarrow> now < re_minted e + RECEIPT_TTL"

lemma sweep_alive: "rt_entries (ReceiptTable_sweep now t) = filter (alive now) (rt_entries t)"
  by (auto simp: ReceiptTable_sweep_def alive_def duration_since_def RECEIPT_TTL_def from_secs_def nanos_per_sec_def
      intro!: filter_cong)

lemma wf_sweep: "wf_receipts t \<Longrightarrow> wf_receipts (ReceiptTable_sweep now t)"
  by (auto simp: wf_receipts_def sweep_alive intro: distinct_map_filter le_trans [OF length_filter_le])

lemma receipts_map_sweep:
  "wf_receipts t \<Longrightarrow>
   receipts_map (ReceiptTable_sweep now t) i = Option.bind (receipts_map t i) (\<lambda>e. if alive now e then Some e else None)"
  by (simp add: receipts_map_def sweep_alive wf_receipts_def find_key_filter)

lemma wf_mint: "wf_receipts t \<Longrightarrow> wf_receipts (fst (ReceiptTable_mint random cap now t))"
  using wf_sweep [of t now] draw_id_fresh [of "rt_entries (ReceiptTable_sweep now t)"]
  by (auto simp: ReceiptTable_mint_def Let_def wf_receipts_def duplicate_id_iff split: sum.split option.split)

lemma mint_cases:
  assumes "ReceiptTable_mint random cap now t = (t', res)"
  obtains (minted) i where "res = Some (Inr (hex i))" "receipts_map (ReceiptTable_sweep now t) i = None"
      "rt_entries t' = rt_entries (ReceiptTable_sweep now t) @ [\<lparr>re_id = i, re_cap = cap, re_minted = now\<rparr>]"
      "\<exists>reads. random = Inr reads \<and> Inr i \<in> set reads"
  | (not_minted) "\<nexists>h. res = Some (Inr h)" "t' = ReceiptTable_sweep now t"
proof (cases "\<exists>h. res = Some (Inr h)")
  case True
  with assms obtain i reads where "res = Some (Inr (hex i))" "random = Inr reads"
      "draw_id (rt_entries (ReceiptTable_sweep now t)) reads = Some (Inr i)"
      "rt_entries t' = rt_entries (ReceiptTable_sweep now t) @ [\<lparr>re_id = i, re_cap = cap, re_minted = now\<rparr>]"
    by (auto simp: ReceiptTable_mint_def Let_def split: sum.splits option.splits if_splits)
  with draw_id_fresh [OF this(3)] show thesis
    by (intro minted) (auto simp: duplicate_id_iff receipts_map_def find_None_all)
next
  case False
  with assms have "t' = ReceiptTable_sweep now t"
    by (auto simp: ReceiptTable_mint_def Let_def split: sum.splits option.splits if_splits)
  with False show thesis by (intro not_minted)
qed

text \<open>The scan on a table of at most 32 entries is a lookup, and removing by swapping with the last entry
  forgets that entry only.\<close>

lemma ct_scan_lookup:
  assumes "length es \<le> MAX_RECEIPTS"
  shows "case ct_scan i es 0 0 False of
           (position, found) \<Rightarrow>
             (if found then unat position < length es \<and> re_id (es ! unat position) = i
              else \<forall>e \<in> set es. re_id e \<noteq> i)"
proof (cases "find (\<lambda>p. re_id (es ! p) = i) [0..<length es]")
  case None
  then have "\<forall>p < length es. re_id (es ! p) \<noteq> i" by (simp add: find_None_all)
  then have "\<forall>e \<in> set es. re_id e \<noteq> i" by (auto simp: in_set_conv_nth)
  with None show ?thesis by (simp add: ct_scan_first)
next
  case (Some p)
  then have p: "p < length es" "re_id (es ! p) = i" by (auto dest: find_Some_in)
  with assms have "unat (of_nat p :: 64 word) = p"
    by (simp add: MAX_RECEIPTS_def unat_of_nat)
  with Some p show ?thesis by (simp add: ct_scan_first)
qed

lemma set_swap_remove:
  assumes "distinct (map f es)" and "p < length es"
  shows "set (swap_remove p es) = {e \<in> set es. f e \<noteq> f (es ! p)}" and "distinct (map f (swap_remove p es))"
proof -
  let ?rest = "take p es @ drop (Suc p) es"
  have es: "es = take p es @ es ! p # drop (Suc p) es" using assms(2) by (rule id_take_nth_drop)
  then have "mset es - {# es ! p #} = mset ?rest"
    by (metis add_mset_remove_trivial mset.simps(2) mset_append union_mset_add_mset_right)
  then have m: "mset (swap_remove p es) = mset ?rest" by (simp add: mset_swap_remove [OF assms(2)])
  have "distinct (map f (take p es @ es ! p # drop (Suc p) es))" using assms(1) es by simp
  then have r: "distinct (map f ?rest)" "f (es ! p) \<notin> f ` set ?rest" by auto
  have "set es = insert (es ! p) (set ?rest)" by (subst es) auto
  with r(2) show "set (swap_remove p es) = {e \<in> set es. f e \<noteq> f (es ! p)}"
    unfolding mset_eq_setD [OF m] by (auto simp del: set_append simp: image_iff)
  have "mset (map f (swap_remove p es)) = mset (map f ?rest)" by (simp only: mset_map m)
  then show "distinct (map f (swap_remove p es))" using r(1) mset_eq_imp_distinct_iff by blast
qed

lemma redeem_spec:
  assumes "wf_receipts t"
  shows "case ReceiptTable_redeem h cap now t of (t', res) \<Rightarrow> wf_receipts t' \<and>
     (case Option.bind (parse_hex h) (receipts_map (ReceiptTable_sweep now t)) of
        Some e \<Rightarrow>
          if re_cap e = cap
          then res = Some cap \<and> receipts_map t' = (receipts_map (ReceiptTable_sweep now t))(re_id e := None)
          else res = None \<and> t' = ReceiptTable_sweep now t
      | None \<Rightarrow> res = None \<and> t' = ReceiptTable_sweep now t)"
proof (cases "parse_hex h")
  case None
  with assms show ?thesis by (simp add: ReceiptTable_redeem_def wf_sweep Let_def)
next
  case (Some i)
  let ?t = "ReceiptTable_sweep now t" and ?es = "rt_entries (ReceiptTable_sweep now t)"
  have wf: "wf_receipts ?t" using assms by (rule wf_sweep)
  then have len: "length ?es \<le> MAX_RECEIPTS" and dis: "distinct (map re_id ?es)" by (auto simp: wf_receipts_def)
  obtain position found where sc: "ct_scan i ?es 0 0 False = (position, found)" by fastforce
  let ?p = "unat position"
  show ?thesis
  proof (cases found)
    case False
    then have "receipts_map ?t i = None"
      using ct_scan_lookup [OF len, of i] sc by (simp add: receipts_map_def find_None_all)
    with False Some sc wf show ?thesis by (simp add: ReceiptTable_redeem_def Let_def)
  next
    case True
    then have p: "?p < length ?es" "re_id (?es ! ?p) = i" using ct_scan_lookup [OF len, of i] sc by auto
    then have look: "receipts_map ?t i = Some (?es ! ?p)" by (simp add: receipts_map_Some [OF wf])
    let ?t' = "?t\<lparr>rt_entries := swap_remove ?p ?es\<rparr>"
    note sr = set_swap_remove [OF dis p(1)]
    have "length (swap_remove ?p ?es) \<le> length ?es" by (simp add: swap_remove_def)
    with sr(2) len have wf': "wf_receipts ?t'" by (simp add: wf_receipts_def)
    have "receipts_map ?t' j = ((receipts_map ?t)(i := None)) j" for j
    proof (rule option_eqI)
      fix e
      show "receipts_map ?t' j = Some e \<longleftrightarrow> ((receipts_map ?t)(i := None)) j = Some e"
        using p(2) unfolding receipts_map_Some [OF wf'] fun_upd_apply
        by (cases "j = i") (auto simp add: receipts_map_Some [OF wf] sr(1))
    qed
    then have "receipts_map ?t' = (receipts_map ?t)(i := None)" by (rule ext)
    with look True Some sc p wf wf' show ?thesis by (auto simp: ReceiptTable_redeem_def Let_def)
  qed
qed

section \<open>Hexadecimal round trip\<close>

lemma nibbles:
  "unat (drop_bit 4 (b :: u8)) < 16" "unat (b AND 0x0f) < 16"
  "unat (drop_bit 4 b) * 16 + unat (b AND 0x0f) = unat b"
proof -
  have d: "unat (drop_bit 4 b) = unat b div 16" by (simp add: drop_bit_eq_div unat_div)
  have t: "b AND 0x0f = take_bit 4 b" by (simp add: take_bit_eq_mask mask_eq_exp_minus_1)
  have m: "unat (b AND 0x0f) = unat b mod 16" unfolding t unsigned_take_bit_eq by (simp add: take_bit_eq_mod)
  have "unat b < 2 ^ LENGTH(8)" by (rule unsigned_less)
  then have "unat b < 256" by simp
  with d m show "unat (drop_bit 4 b) < 16" "unat (b AND 0x0f) < 16"
    "unat (drop_bit 4 b) * 16 + unat (b AND 0x0f) = unat b" by auto
qed

lemma hex_digit:
  "n < 16 \<Longrightarrow> to_digit 16 (HEX_DIGITS ! n) = Some n \<and> is_ascii (HEX_DIGITS ! n) \<and> HEX_DIGITS ! n \<noteq> CHR ''+''"
proof -
  have "\<forall>n \<in> set [0..<16]. to_digit 16 (HEX_DIGITS ! n) = Some n \<and> is_ascii (HEX_DIGITS ! n)
      \<and> HEX_DIGITS ! n \<noteq> CHR ''+''"
    by code_simp
  then show "n < 16 \<Longrightarrow> ?thesis" by auto
qed

lemma parse_hex_pair:
  "parse_unsigned 16 U8_MAX [HEX_DIGITS ! unat (drop_bit 4 b), HEX_DIGITS ! unat (b AND 0x0f)] = Some (unat (b :: u8))"
proof -
  have "unat b < 2 ^ LENGTH(8)" by (rule unsigned_less)
  then have "unat b \<le> U8_MAX" by (simp add: U8_MAX_def)
  then show ?thesis
    using hex_digit [OF nibbles(1), of b] hex_digit [OF nibbles(2), of b] nibbles(3) [of b]
    by (simp add: parse_unsigned_def)
qed

lemma parse_chunks_hex: "parse_chunks (chunks_exact_2 (hex bs)) = Some bs"
proof (induction bs)
  case (Cons b bs)
  have "from_utf8 [HEX_DIGITS ! unat (drop_bit 4 b), HEX_DIGITS ! unat (b AND 0x0f)] =
      Some [HEX_DIGITS ! unat (drop_bit 4 b), HEX_DIGITS ! unat (b AND 0x0f)]"
    using hex_digit [OF nibbles(1), of b] hex_digit [OF nibbles(2), of b] by (intro from_utf8_ascii) simp
  with Cons show ?case by (simp add: hex_def parse_hex_pair)
qed (simp add: hex_def)

lemma length_hex: "length (hex bs) = 2 * length bs"
  by (induction bs) (simp_all add: hex_def)

lemma hex_hexdigits: "list_all is_ascii_hexdigit (hex bs)"
  using hex_digit [OF nibbles(1)] hex_digit [OF nibbles(2)]
  by (induction bs) (simp_all add: hex_def is_ascii_hexdigit_def)

lemma parse_hex_hex: "length i = RECEIPT_LEN \<Longrightarrow> parse_hex (hex i) = Some i"
  by (simp add: parse_hex_def length_hex hex_hexdigits parse_chunks_hex)

section \<open>Histories of receipts\<close>

text \<open>Calls on the table, and what an observer of their results records.\<close>

datatype receipt_op =
    OpMint urandom capability instant
  | OpRedeem string capability instant
  | OpSweep instant
  | OpClear

datatype receipt_event =
    EvMinted string capability instant
  | EvRedeemed "u8 list" capability instant
  | EvCleared

fun receipt_op_run :: "receipt_op \<Rightarrow> receipt_table \<Rightarrow> receipt_table \<times> receipt_event list" where
  "receipt_op_run (OpMint random cap now) t =
     (case ReceiptTable_mint random cap now t of
        (t', Some (Inr receipt)) \<Rightarrow> (t', [EvMinted receipt cap now])
      | (t', _) \<Rightarrow> (t', []))"
| "receipt_op_run (OpRedeem receipt_hex cap now) t =
     (case ReceiptTable_redeem receipt_hex cap now t of
        (t', Some c) \<Rightarrow> (t', [EvRedeemed (the (parse_hex receipt_hex)) c now])
      | (t', None) \<Rightarrow> (t', []))"
| "receipt_op_run (OpSweep now) t = (ReceiptTable_sweep now t, [])"
| "receipt_op_run OpClear t = (ReceiptTable_clear t, [EvCleared])"

fun receipt_run :: "receipt_op list \<Rightarrow> receipt_table \<times> receipt_event list \<Rightarrow> receipt_table \<times> receipt_event list" where
  "receipt_run [] s = s"
| "receipt_run (op # ops) (t, evs) =
     (case receipt_op_run op t of (t', new) \<Rightarrow> receipt_run ops (t', evs @ new))"

text \<open>An event list accounts for a receipt: it ends in the minting of it, with neither a clearing nor a
  redemption of it after that.\<close>

definition standing :: "u8 list \<Rightarrow> capability \<Rightarrow> instant \<Rightarrow> receipt_event list \<Rightarrow> bool" where
  "standing i cap m evs \<longleftrightarrow>
     (\<exists>xs ys. evs = xs @ EvMinted (hex i) cap m # ys \<and> EvCleared \<notin> set ys \<and> (\<forall>c now. EvRedeemed i c now \<notin> set ys))"

definition accounted :: "receipt_event list \<Rightarrow> bool" where
  "accounted evs \<longleftrightarrow>
     (\<forall>pre i cap now post. evs = pre @ EvRedeemed i cap now # post \<longrightarrow>
        (\<exists>m. standing i cap m pre \<and> now < m + RECEIPT_TTL))"

definition receipts_ok :: "receipt_table \<times> receipt_event list \<Rightarrow> bool" where
  "receipts_ok s \<longleftrightarrow> wf_receipts (fst s) \<and> accounted (snd s)
     \<and> (\<forall>i e. receipts_map (fst s) i = Some e \<longrightarrow> standing i (re_cap e) (re_minted e) (snd s))"

lemma snoc_eq_split:
  "evs @ [x] = pre @ y # post \<longleftrightarrow>
     (post = [] \<and> evs = pre \<and> x = y) \<or> (\<exists>post'. post = post' @ [x] \<and> evs = pre @ y # post')"
  by (cases post rule: rev_cases) auto

lemma standing_append:
  assumes "standing i cap m evs" and "EvCleared \<notin> set new" and "\<And>c now. EvRedeemed i c now \<notin> set new"
  shows "standing i cap m (evs @ new)"
proof -
  from assms(1) obtain xs ys where "evs = xs @ EvMinted (hex i) cap m # ys" "EvCleared \<notin> set ys"
    "\<forall>c now. EvRedeemed i c now \<notin> set ys" unfolding standing_def by blast
  with assms(2,3) show ?thesis
    unfolding standing_def by (intro exI [of _ xs] exI [of _ "ys @ new"]) auto
qed

lemma standing_minted: "standing i cap m (evs @ [EvMinted (hex i) cap m])"
  unfolding standing_def by (intro exI [of _ evs] exI [of _ "[]"]) simp

lemma accounted_append_other:
  "accounted evs \<Longrightarrow> (\<And>i c now. ev \<noteq> EvRedeemed i c now) \<Longrightarrow> accounted (evs @ [ev])"
  unfolding accounted_def snoc_eq_split by blast

lemma accounted_append_redeemed:
  "accounted evs \<Longrightarrow> standing i cap m evs \<Longrightarrow> now < m + RECEIPT_TTL \<Longrightarrow> accounted (evs @ [EvRedeemed i cap now])"
  unfolding accounted_def snoc_eq_split by blast

lemma map_sweep_Some:
  "wf_receipts t \<Longrightarrow> receipts_map (ReceiptTable_sweep now t) i = Some e \<longleftrightarrow> receipts_map t i = Some e \<and> alive now e"
  by (cases "receipts_map t i") (auto simp: receipts_map_sweep)

lemma receipts_ok_sweep: "receipts_ok (t, evs) \<Longrightarrow> receipts_ok (ReceiptTable_sweep now t, evs)"
  by (auto simp: receipts_ok_def wf_sweep map_sweep_Some)

lemma receipts_ok_step:
  assumes "receipts_ok (t, evs)"
  shows "case receipt_op_run op t of (t', new) \<Rightarrow> receipts_ok (t', evs @ new)"
proof (cases op)
  case (OpMint random cap now)
  obtain t' res where m: "ReceiptTable_mint random cap now t = (t', res)" by fastforce
  have sw: "receipts_ok (ReceiptTable_sweep now t, evs)" using assms by (rule receipts_ok_sweep)
  have wf': "wf_receipts t'" using wf_mint [of t random cap now] m assms by (simp add: receipts_ok_def)
  from m show ?thesis
  proof (cases rule: mint_cases)
    case (minted i)
    let ?e = "\<lparr>re_id = i, re_cap = cap, re_minted = now\<rparr>"
    have "receipts_map t' = (receipts_map (ReceiptTable_sweep now t))(i \<mapsto> ?e)"
      using find_push [of re_id ?e "rt_entries (ReceiptTable_sweep now t)"] minted(2,3)
      by (simp add: receipts_map_def fun_eq_iff)
    then have "receipts_map t' j = Some e \<Longrightarrow> standing j (re_cap e) (re_minted e) (evs @ [EvMinted (hex i) cap now])" for j e
      using sw standing_minted [of i cap now evs]
      by (auto simp: receipts_ok_def intro: standing_append split: if_splits)
    with minted(1) m wf' sw show ?thesis
      by (simp add: OpMint receipts_ok_def accounted_append_other)
  next
    case not_minted
    with m sw show ?thesis by (simp add: OpMint split: option.split sum.split)
  qed
next
  case (OpRedeem h cap now)
  obtain t' res where r: "ReceiptTable_redeem h cap now t = (t', res)" by fastforce
  have wf: "wf_receipts t" using assms by (simp add: receipts_ok_def)
  have sw: "receipts_ok (ReceiptTable_sweep now t, evs)" using assms by (rule receipts_ok_sweep)
  note spec = redeem_spec [OF wf, where h = h and cap = cap and now = now, unfolded r, simplified]
  show ?thesis
  proof (cases res)
    case None
    with spec have "t' = ReceiptTable_sweep now t" by (auto split: option.splits if_splits)
    with None r sw show ?thesis by (simp add: OpRedeem)
  next
    case (Some c)
    let ?b = "Option.bind (parse_hex h) (receipts_map (ReceiptTable_sweep now t))"
    from Some spec obtain e where b: "?b = Some e" by (cases ?b) simp_all
    with Some spec have c: "re_cap e = cap" "c = cap" "wf_receipts t'"
        "receipts_map t' = (receipts_map (ReceiptTable_sweep now t))(re_id e := None)"
      by (simp_all split: if_splits)
    from b obtain i where "parse_hex h = Some i" "receipts_map (ReceiptTable_sweep now t) i = Some e"
      by (auto simp: bind_eq_Some_conv)
    note e = this c(1,2,4,3)
    have i: "re_id e = i" using e(2) by (auto simp: receipts_map_def dest: find_Some_in)
    have "standing i cap (re_minted e) evs" "now < re_minted e + RECEIPT_TTL"
      using e(2,3) assms wf by (auto simp: map_sweep_Some receipts_ok_def alive_def)
    then have "accounted (evs @ [EvRedeemed i cap now])"
      using assms by (auto simp: receipts_ok_def intro: accounted_append_redeemed)
    moreover have "standing j (re_cap x) (re_minted x) (evs @ [EvRedeemed i cap now])" if "receipts_map t' j = Some x" for j x
      using that sw by (auto simp: e(5) i receipts_ok_def intro!: standing_append split: if_splits)
    ultimately show ?thesis using Some r e(1,4,6) by (simp add: OpRedeem receipts_ok_def)
  qed
next
  case (OpSweep now)
  with assms receipts_ok_sweep show ?thesis by simp
next
  case OpClear
  with assms show ?thesis
    by (simp add: receipts_ok_def ReceiptTable_clear_def wf_receipts_def receipts_map_def accounted_append_other)
qed

lemma receipts_ok_run: "receipts_ok s \<Longrightarrow> receipts_ok (receipt_run ops s)"
proof (induction ops s rule: receipt_run.induct)
  case (2 op ops t evs)
  with receipts_ok_step [of t evs op] show ?case by (cases "receipt_op_run op t") simp
qed simp

text \<open>C24: A receipt is good for one redemption, of the capability it was minted for, within a minute and
  not across a clearing. In any history of calls on the table, each redemption of a receipt \<open>i\<close> for a
  capability at a time \<open>now\<close> has before it a minting of that very receipt for that very capability, less
  than the lifetime ago, with no clearing and no other redemption of \<open>i\<close> in between.\<close>

theorem redeemed_once_as_minted:
  assumes "snd (receipt_run ops (ReceiptTable_default, [])) = pre @ EvRedeemed i cap now # post"
  shows "\<exists>xs m ys. pre = xs @ EvMinted (hex i) cap m # ys \<and> now < m + RECEIPT_TTL
     \<and> EvCleared \<notin> set ys \<and> (\<forall>c t. EvRedeemed i c t \<notin> set ys)"
proof -
  have "receipts_ok (ReceiptTable_default, [])"
    by (simp add: receipts_ok_def ReceiptTable_default_def wf_receipts_def accounted_def receipts_map_def)
  then have "accounted (snd (receipt_run ops (ReceiptTable_default, [])))"
    using receipts_ok_run by (auto simp: receipts_ok_def)
  with assms show ?thesis unfolding accounted_def standing_def by blast
qed

definition example_cap :: capability where "example_cap = Capability ''ssh''"

definition example_id :: "u8 list" where "example_id = replicate 32 7"

definition example_history :: "receipt_op list" where
  "example_history =
     [OpMint (Inr [Inr example_id]) example_cap (from_secs 10), OpRedeem (hex example_id) example_cap (from_secs 69)]"

theorem redeemed_once_as_minted_witness:
  "\<exists>xs m ys. [EvMinted (hex example_id) example_cap (from_secs 10)] = xs @ EvMinted (hex example_id) example_cap m # ys
     \<and> from_secs 69 < m + RECEIPT_TTL \<and> EvCleared \<notin> set ys \<and> (\<forall>c t. EvRedeemed example_id c t \<notin> set ys)"
proof (rule redeemed_once_as_minted)
  show "snd (receipt_run example_history (ReceiptTable_default, [])) =
      [EvMinted (hex example_id) example_cap (from_secs 10)] @ EvRedeemed example_id example_cap (from_secs 69) # []"
    by code_simp
qed

section \<open>Single calls\<close>

text \<open>The receipt that minting returns is accepted: redeeming it for its capability, on the table that
  minting left and before its lifetime is over, gives the capability back.\<close>

theorem minted_receipt_redeemable:
  assumes "wf_receipts t" and "ReceiptTable_mint (Inr reads) cap now t = (t', Some (Inr receipt))"
    and "\<And>bytes. Inr bytes \<in> set reads \<Longrightarrow> length bytes = RECEIPT_LEN"
    and "now' < now + RECEIPT_TTL"
  shows "snd (ReceiptTable_redeem receipt cap now' t') = Some cap"
  using assms(2)
proof (cases rule: mint_cases)
  case (minted i)
  let ?e = "\<lparr>re_id = i, re_cap = cap, re_minted = now\<rparr>"
  have wf': "wf_receipts t'" using wf_mint [OF assms(1), of "Inr reads" cap now] assms(2) by simp
  have "receipts_map t' i = Some ?e"
    unfolding receipts_map_Some [OF wf'] by (simp add: minted(3))
  then have "receipts_map (ReceiptTable_sweep now' t') i = Some ?e"
    using assms(4) by (simp add: map_sweep_Some [OF wf'] alive_def)
  moreover have "parse_hex receipt = Some i"
    using minted(1,4) assms(3) parse_hex_hex [of i] by auto
  ultimately show ?thesis
    using redeem_spec [OF wf', where h = receipt and cap = cap and now = now'] by (auto split: prod.splits)
qed simp

theorem minted_receipt_redeemable_witness:
  "snd (ReceiptTable_redeem (hex example_id) example_cap (from_secs 69)
     (fst (ReceiptTable_mint (Inr [Inr example_id]) example_cap (from_secs 10) ReceiptTable_default))) = Some example_cap"
proof (rule minted_receipt_redeemable)
  show "wf_receipts ReceiptTable_default" by code_simp
  show "ReceiptTable_mint (Inr [Inr example_id]) example_cap (from_secs 10) ReceiptTable_default =
      (fst (ReceiptTable_mint (Inr [Inr example_id]) example_cap (from_secs 10) ReceiptTable_default),
       Some (Inr (hex example_id)))" by code_simp
  show "Inr bytes \<in> set [Inr example_id] \<Longrightarrow> length bytes = RECEIPT_LEN" for bytes
    by (simp add: example_id_def RECEIPT_LEN_def)
  show "from_secs 69 < from_secs 10 + RECEIPT_TTL" by code_simp
qed

text \<open>C31: The branch-free scan of \<open>redeem\<close>, with its masks and its wrapping subtraction on 64-bit words,
  computes the plain search: it reports a match exactly when an entry has the presented identifier, and the
  position it leaves is then the least index of such an entry.\<close>

theorem ct_scan_is_search:
  assumes "length es < 2 ^ 64"
  shows "case ct_scan i es 0 0 False of
           (position, found) \<Rightarrow>
             (found \<longleftrightarrow> i \<in> re_id ` set es)
             \<and> (found \<longrightarrow> unat position < length es \<and> re_id (es ! unat position) = i
                  \<and> (\<forall>p < unat position. re_id (es ! p) \<noteq> i))"
proof (cases "find (\<lambda>p. re_id (es ! p) = i) [0..<length es]")
  case None
  then have "\<forall>p < length es. re_id (es ! p) \<noteq> i" by (simp add: find_None_all)
  then have "i \<notin> re_id ` set es" by (auto simp: in_set_conv_nth)
  with None show ?thesis by (simp add: ct_scan_first)
next
  case (Some p)
  then have p: "p < length es" "re_id (es ! p) = i" by (auto dest: find_Some_in)
  moreover have "re_id (es ! p') \<noteq> i" if "p' < p" for p'
    using Some that by (auto simp: find_Some_iff)
  moreover have "unat (of_nat p :: 64 word) = p" using p(1) assms by (simp add: unat_of_nat)
  ultimately show ?thesis using Some by (auto simp: ct_scan_first)
qed

theorem ct_scan_is_search_witness:
  "re_id ([\<lparr>re_id = example_id, re_cap = example_cap, re_minted = 0\<rparr>]
     ! unat (fst (ct_scan example_id [\<lparr>re_id = example_id, re_cap = example_cap, re_minted = 0\<rparr>] 0 0 False))) = example_id"
proof -
  let ?es = "[\<lparr>re_id = example_id, re_cap = example_cap, re_minted = 0\<rparr>]"
  have "length ?es < 2 ^ 64" by simp
  from ct_scan_is_search [OF this, of example_id] show ?thesis by (auto split: prod.splits)
qed

lemma draw_id_returns:
  "i \<in> set ids \<Longrightarrow> \<not> duplicate_id es i \<Longrightarrow> \<exists>j. draw_id es (map Inr ids) = Some (Inr j)"
  by (induction ids) auto

text \<open>C32: Minting ends. The loop draws until it has an identifier that is not outstanding; since fewer than
  32 receipts are, a source that yields 32 different identifiers has given it a fresh one by then, and a
  receipt is returned unless the table is full.\<close>

theorem mint_returns:
  assumes "distinct ids" and "length ids \<ge> MAX_RECEIPTS"
    and "length (rt_entries (ReceiptTable_sweep now t)) < MAX_RECEIPTS"
  shows "\<exists>receipt. snd (ReceiptTable_mint (Inr (map Inr ids)) cap now t) = Some (Inr receipt)"
proof -
  let ?es = "rt_entries (ReceiptTable_sweep now t)"
  have "\<not> set ids \<subseteq> re_id ` set ?es"
  proof
    assume "set ids \<subseteq> re_id ` set ?es"
    then have "card (set ids) \<le> card (re_id ` set ?es)" by (intro card_mono) simp_all
    also have "\<dots> \<le> length ?es" using card_image_le [of "set ?es" re_id] card_length [of ?es] by simp
    finally show False using assms by (simp add: distinct_card)
  qed
  then obtain i where i: "i \<in> set ids" "\<not> duplicate_id ?es i" by (auto simp: duplicate_id_iff)
  obtain j where "draw_id ?es (map Inr ids) = Some (Inr j)" using draw_id_returns [OF i] by blast
  then show ?thesis using assms(3) by (simp add: ReceiptTable_mint_def Let_def)
qed

theorem mint_returns_witness:
  "\<exists>receipt. snd (ReceiptTable_mint (Inr (map Inr (map (\<lambda>n. replicate 32 (of_nat n)) [0..<32])))
       example_cap 0 ReceiptTable_default) = Some (Inr receipt)"
proof (rule mint_returns)
  show "distinct (map (\<lambda>n. replicate 32 (of_nat n :: u8)) [0..<32])" by code_simp
qed (simp_all add: MAX_RECEIPTS_def ReceiptTable_default_def ReceiptTable_sweep_def)

end
