(* ===== verification/Decrypt.thy ===== *)
theory Decrypt
  imports Store
begin

text \<open>
  Running \<open>sops\<close> on one key (\<open>src/decrypt.rs\<close>). The child processes and the clock are outside the
  program: what spawning answers and what each poll of a child observes are arguments, as lists of
  observations; a loop that has used up its observations and is still polling gives \<open>None\<close>, and so does
  a read of a pipe that blocks. The lemmas
  show that the loops end at their deadline and kill the child's process group there, what a successful
  decrypt rests on, and that a failure reaches the caller as one of three codes chosen by a label.
\<close>

section \<open>Failure labels\<close>

definition MAX_SOPS_STDERR_BYTES :: nat where "MAX_SOPS_STDERR_BYTES = 300"

definition SOPS_STDERR_SIGNATURES :: "(string \<times> string) list" where
  "SOPS_STDERR_SIGNATURES =
     [(''failed to decrypt yubikey stanza'', ''yubikey-stanza-undecryptable''),
      (''yubikey plugin'', ''yubikey-plugin-error''),
      (''pc/sc error'', ''pcsc-communication-error''),
      (''no identity matched'', ''no-matching-identity''),
      (''sops metadata not found'', ''missing-sops-metadata''),
      (''no such file or directory'', ''input-unreadable''),
      (''permission denied'', ''input-permission-denied''),
      (''failed to get the data key'', ''data-key-unavailable'')]"

text \<open>\<open>windows(n)\<close> of a slice, for a positive \<open>n\<close>.\<close>

definition windows :: "nat \<Rightarrow> 'a list \<Rightarrow> 'a list list" where
  "windows n xs = map (\<lambda>i. take n (drop i xs)) [0..<Suc (length xs) - n]"

definition contains_subslice :: "'a list \<Rightarrow> 'a list \<Rightarrow> bool" where
  "contains_subslice haystack needle \<longleftrightarrow>
     length haystack \<ge> length needle \<and> (\<exists>w \<in> set (windows (length needle) haystack). w = needle)"

definition classify_sops_stderr :: "string \<Rightarrow> string" where
  "classify_sops_stderr stderr =
     (let lowered = map to_ascii_lowercase stderr in
      case find (\<lambda>(needle, _). contains_subslice lowered needle) SOPS_STDERR_SIGNATURES of
        None \<Rightarrow> ''unclassified''
      | Some (_, label) \<Rightarrow> label)"

definition UNREACHABLE_FAILURE_LABELS :: "string list" where
  "UNREACHABLE_FAILURE_LABELS = [''yubikey-plugin-error'', ''pcsc-communication-error'']"

definition UNTOUCHED_FAILURE_LABELS :: "string list" where
  "UNTOUCHED_FAILURE_LABELS = [''yubikey-stanza-undecryptable'']"

definition failure_code :: "string \<Rightarrow> err_code" where
  "failure_code label =
     (if label \<in> set UNREACHABLE_FAILURE_LABELS then YubikeyUnreachable
      else if label \<in> set UNTOUCHED_FAILURE_LABELS then Timeout
      else Internal)"

section \<open>Reachability of the hardware\<close>

record yubikey_probe =
  yp_command :: string
  yp_args :: "string list"
  yp_timeout :: duration

definition YubikeyProbe_from_argv :: "string list \<Rightarrow> duration \<Rightarrow> yubikey_probe option" where
  "YubikeyProbe_from_argv command_argv timeout =
     (case command_argv of
        [] \<Rightarrow> None
      | command # args \<Rightarrow> Some \<lparr>yp_command = command, yp_args = args, yp_timeout = timeout\<rparr>)"

text \<open>What \<open>try_wait\<close> answers, with the clock read after it while the child runs.\<close>

datatype 'a poll = Exited 'a | Running instant | PollError

definition I32_MAX :: nat where "I32_MAX = 2 ^ 31 - 1"

text \<open>A probe's process: the clock at the start, the process id if the command could be spawned, the polls.
  The result of a run is its answer and the process groups it killed.\<close>

record probe_run =
  pb_now :: instant
  pb_spawn :: "string list \<Rightarrow> nat option"
  pb_polls :: "bool poll list"

fun responds_loop :: "instant \<Rightarrow> nat \<Rightarrow> bool poll list \<Rightarrow> (bool \<times> nat list) option" where
  "responds_loop deadline process_id [] = None"
| "responds_loop deadline process_id (Exited success # _) = Some (success, [])"
| "responds_loop deadline process_id (Running now # polls) =
     (if now \<ge> deadline then Some (False, [process_id]) else responds_loop deadline process_id polls)"
| "responds_loop deadline process_id (PollError # _) = Some (False, [process_id])"

definition YubikeyProbe_responds :: "yubikey_probe \<Rightarrow> probe_run \<Rightarrow> (bool \<times> nat list) option" where
  "YubikeyProbe_responds probe run =
     (case instant_checked_add (pb_now run) (yp_timeout probe) of
        None \<Rightarrow> Some (False, [])
      | Some deadline \<Rightarrow>
          (case pb_spawn run (yp_command probe # yp_args probe) of
             None \<Rightarrow> Some (False, [])
           | Some process_id \<Rightarrow>
               if process_id > I32_MAX then Some (False, [])
               else responds_loop deadline process_id (pb_polls run)))"

record pcsc_reachability =
  pc_socket :: "string option"
  pc_probe :: "yubikey_probe option"

definition PcscReachability_is_reachable ::
  "(string \<Rightarrow> bool) \<Rightarrow> probe_run \<Rightarrow> pcsc_reachability \<Rightarrow> (bool \<times> nat list) option" where
  "PcscReachability_is_reachable path_exists run r =
     (case pc_socket r of
        None \<Rightarrow> Some (True, [])
      | Some path \<Rightarrow>
          if \<not> path_exists path then Some (False, [])
          else case pc_probe r of
              None \<Rightarrow> Some (True, [])
            | Some probe \<Rightarrow> YubikeyProbe_responds probe run)"

section \<open>Decrypting\<close>

record decryptor =
  dc_sops_bin :: string
  dc_timeout :: duration
  dc_reachability :: pcsc_reachability

record decrypted_human_file =
  dh_source :: string
  dh_identity :: file_identity
  dh_value :: secret_bytes

text \<open>What a reader finds in a pipe of an exited child: its bytes and then the end; its bytes and then an
  error; or its bytes and no end, because a descendant of the child still holds the writing end.\<close>

datatype pipe = PipeEnds string | PipeFails string | PipeHeld string

text \<open>Reading a pipe to its end, and reading at most \<open>limit\<close> bytes of it. \<open>Inl\<close> is a failed read; \<open>None\<close> is a
  read that does not return.\<close>

fun read_to_end :: "pipe \<Rightarrow> (unit + string) option" where
  "read_to_end (PipeEnds bytes) = Some (Inr bytes)"
| "read_to_end (PipeFails bytes) = Some (Inl ())"
| "read_to_end (PipeHeld bytes) = None"

fun pipe_bytes :: "pipe \<Rightarrow> string" where
  "pipe_bytes (PipeEnds bytes) = bytes"
| "pipe_bytes (PipeFails bytes) = bytes"
| "pipe_bytes (PipeHeld bytes) = bytes"

definition take_read_to_end :: "nat \<Rightarrow> pipe \<Rightarrow> (unit + string) option" where
  "take_read_to_end limit pipe =
     (if limit \<le> length (pipe_bytes pipe) then Some (Inr (take limit (pipe_bytes pipe))) else read_to_end pipe)"

text \<open>An exited \<open>sops\<close>: whether it succeeded, and its pipes.\<close>

record sops_exit =
  se_success :: bool
  se_stderr :: pipe
  se_stdout :: pipe

text \<open>A run of \<open>sops\<close>: the file system, the probe before it, the duplicate of a descriptor where there is
  one, the process id of a command that could be spawned, the clock after the start and the polls.\<close>

record sops_run =
  sr_fs :: filesystem
  sr_probe :: probe_run
  sr_dup :: "nat \<Rightarrow> nat option"
  sr_spawn :: "string list \<Rightarrow> nat option"
  sr_now :: instant
  sr_polls :: "sops_exit poll list"

text \<open>An exited child: the first 300 bytes of its error output choose the label of a failure, and after a
  success its whole output is read. No deadline covers the two reads: \<open>None\<close> is a read that blocks.\<close>

definition read_result ::
  "secret_name \<Rightarrow> opened_human_file \<Rightarrow> sops_exit \<Rightarrow> (err_code + decrypted_human_file) option" where
  "read_result key opened ex =
     (case take_read_to_end MAX_SOPS_STDERR_BYTES (se_stderr ex) of
        None \<Rightarrow> None
      | Some stderr \<Rightarrow>
          let failure = (case stderr of Inr bytes \<Rightarrow> classify_sops_stderr bytes | Inl _ \<Rightarrow> ''stderr-unreadable'')
          in if \<not> se_success ex then Some (Inl (failure_code failure))
             else case read_to_end (se_stdout ex) of
                 None \<Rightarrow> None
               | Some (Inl _) \<Rightarrow> Some (Inl Internal)
               | Some (Inr stdout) \<Rightarrow>
                   Some (and_then (parse_single_assignment stdout key) (\<lambda>v.
                     Inr \<lparr>dh_source = oh_label opened, dh_identity = oh_identity opened, dh_value = v\<rparr>)))"

text \<open>The polling loop, with the process groups it kills.\<close>

fun decrypt_loop ::
  "secret_name \<Rightarrow> opened_human_file \<Rightarrow> instant \<Rightarrow> nat \<Rightarrow> sops_exit poll list \<Rightarrow>
     ((err_code + decrypted_human_file) \<times> nat list) option" where
  "decrypt_loop key opened deadline process_id [] = None"
| "decrypt_loop key opened deadline process_id (Exited ex # _) =
     map_option (\<lambda>res. (res, [])) (read_result key opened ex)"
| "decrypt_loop key opened deadline process_id (Running now # polls) =
     (if now \<ge> deadline then Some (Inl Timeout, [process_id])
      else decrypt_loop key opened deadline process_id polls)"
| "decrypt_loop key opened deadline process_id (PollError # _) = Some (Inl Internal, [])"

definition duplicate_ciphertext_fd :: "sops_run \<Rightarrow> nat \<Rightarrow> err_code + nat" where
  "duplicate_ciphertext_fd run validated_raw_fd = ok_or Internal (sr_dup run validated_raw_fd)"

text \<open>The command that is spawned: \<open>sops\<close> reads the file through the inherited descriptor, so that it sees the
  very file that was opened and checked.\<close>

definition sops_decrypt_command :: "decryptor \<Rightarrow> nat \<Rightarrow> string list" where
  "sops_decrypt_command d inherited =
     [dc_sops_bin d, ''-d'', ''--input-type'', ''dotenv'', ''--output-type'', ''dotenv'',
      ''/proc/self/fd/'' @ nat_to_string inherited]"

text \<open>Everything up to the call of \<open>on_started\<close>: the opened file and the process id.\<close>

definition decrypt_start ::
  "decryptor \<Rightarrow> sops_run \<Rightarrow> human_store \<Rightarrow> secret_name \<Rightarrow> (err_code + opened_human_file \<times> nat) option" where
  "decrypt_start d run store key =
     (case PcscReachability_is_reachable (fs_exists (sr_fs run)) (sr_probe run) (dc_reachability d) of
        None \<Rightarrow> None
      | Some (reachable, _) \<Rightarrow>
          Some (if \<not> reachable then Inl YubikeyUnreachable
                else and_then (HumanStore_open (sr_fs run) store key) (\<lambda>opened.
                and_then (duplicate_ciphertext_fd run (oh_file opened)) (\<lambda>inherited.
                and_then (ok_or Internal (sr_spawn run (sops_decrypt_command d inherited))) (\<lambda>process_id.
                  if process_id > I32_MAX then Inl Internal else Inr (opened, process_id))))))"

text \<open>Everything after it.\<close>

definition decrypt_wait ::
  "decryptor \<Rightarrow> sops_run \<Rightarrow> secret_name \<Rightarrow> opened_human_file \<Rightarrow> nat \<Rightarrow>
     ((err_code + decrypted_human_file) \<times> nat list) option" where
  "decrypt_wait d run key opened process_id =
     (case instant_checked_add (sr_now run) (dc_timeout d) of
        None \<Rightarrow> Some (Inl Internal, [])
      | Some deadline \<Rightarrow> decrypt_loop key opened deadline process_id (sr_polls run))"

text \<open>The whole call; \<open>on_started\<close> acts on a state of the caller.\<close>

definition decrypt_opened_with_start ::
  "decryptor \<Rightarrow> sops_run \<Rightarrow> human_store \<Rightarrow> secret_name \<Rightarrow> (nat \<Rightarrow> 's \<Rightarrow> 's) \<Rightarrow> 's \<Rightarrow>
     ('s \<times> (err_code + decrypted_human_file)) option" where
  "decrypt_opened_with_start d run store key on_started st =
     (case decrypt_start d run store key of
        None \<Rightarrow> None
      | Some (Inl err) \<Rightarrow> Some (st, Inl err)
      | Some (Inr (opened, process_id)) \<Rightarrow>
          (case decrypt_wait d run key opened process_id of
             None \<Rightarrow> None
           | Some (res, killed) \<Rightarrow> Some (on_started process_id st, res)))"

definition decrypt_with_start ::
  "decryptor \<Rightarrow> sops_run \<Rightarrow> human_store \<Rightarrow> secret_name \<Rightarrow> (nat \<Rightarrow> 's \<Rightarrow> 's) \<Rightarrow> 's \<Rightarrow>
     ('s \<times> (err_code + secret_bytes)) option" where
  "decrypt_with_start d run store key on_started st =
     map_option (\<lambda>(st', res). (st', and_then res (\<lambda>dec. Inr (dh_value dec))))
       (decrypt_opened_with_start d run store key on_started st)"

definition Decryptor_decrypt ::
  "decryptor \<Rightarrow> sops_run \<Rightarrow> human_store \<Rightarrow> secret_name \<Rightarrow> (err_code + secret_bytes) option" where
  "Decryptor_decrypt d run store key = map_option snd (decrypt_with_start d run store key (\<lambda>_ u. u) ())"

section \<open>The search for a signature\<close>

lemma windows_iff: "w \<in> set (windows n xs) \<and> n \<le> length xs \<longleftrightarrow> length w = n \<and> (\<exists>a b. xs = a @ w @ b)"
proof
  assume "w \<in> set (windows n xs) \<and> n \<le> length xs"
  then obtain i where i: "w = take n (drop i xs)" "i + n \<le> length xs"
    by (auto simp: windows_def)
  then have "xs = take i xs @ w @ drop (i + n) xs"
    by (metis add.commute append_take_drop_id drop_drop)
  moreover have "length w = n" using i by simp
  ultimately show "length w = n \<and> (\<exists>a b. xs = a @ w @ b)" by blast
next
  assume r: "length w = n \<and> (\<exists>a b. xs = a @ w @ b)"
  then obtain a b where x: "xs = a @ w @ b" by blast
  with r have "w = take n (drop (length a) xs)" "length a < Suc (length xs) - n" by auto
  with x r show "w \<in> set (windows n xs) \<and> n \<le> length xs" by (auto simp: windows_def image_iff)
qed

lemma contains_subslice_iff: "contains_subslice h needle \<longleftrightarrow> (\<exists>a b. h = a @ needle @ b)"
  using windows_iff [of needle "length needle" h] by (auto simp: contains_subslice_def)

section \<open>Properties\<close>

text \<open>Case-insensitive occurrence in the part of the error output that is read.\<close>

definition mentions :: "string \<Rightarrow> string \<Rightarrow> bool" where
  "mentions stderr needle \<longleftrightarrow>
     (\<exists>a b. map to_ascii_lowercase (take MAX_SOPS_STDERR_BYTES stderr) = a @ needle @ b)"

lemma contains_mentions:
  "contains_subslice (map to_ascii_lowercase (take MAX_SOPS_STDERR_BYTES stderr)) needle \<longleftrightarrow> mentions stderr needle"
  by (simp only: contains_subslice_iff mentions_def)

text \<open>How a failed \<open>sops\<close> is reported. The caller learns one of three codes: \<open>Timeout\<close> when the first
  300 bytes of the error output mention, in any case, a stanza the key would not decrypt (nobody touched
  it); otherwise \<open>YubikeyUnreachable\<close> when they mention the plugin or the smart-card service; otherwise
  \<open>Internal\<close>. Nothing else of the child's output has any influence.\<close>

theorem sops_failure_code:
  "read_result key opened \<lparr>se_success = False, se_stderr = PipeEnds stderr, se_stdout = out\<rparr> =
     Some (Inl (if mentions stderr ''failed to decrypt yubikey stanza'' then Timeout
                else if mentions stderr ''yubikey plugin'' \<or> mentions stderr ''pc/sc error'' then YubikeyUnreachable
                else Internal))"
proof -
  have t: "take_read_to_end MAX_SOPS_STDERR_BYTES (PipeEnds stderr) = Some (Inr (take MAX_SOPS_STDERR_BYTES stderr))"
    by (simp add: take_read_to_end_def)
  show ?thesis
    unfolding read_result_def classify_sops_stderr_def SOPS_STDERR_SIGNATURES_def Let_def
    by (simp add: t contains_mentions failure_code_def UNREACHABLE_FAILURE_LABELS_def UNTOUCHED_FAILURE_LABELS_def)
qed

lemma read_to_end_ok [simp]: "read_to_end p = Some (Inr bytes) \<longleftrightarrow> p = PipeEnds bytes"
  by (cases p) auto

lemma read_to_end_blocks [simp]: "read_to_end p = None \<longleftrightarrow> (\<exists>bytes. p = PipeHeld bytes)"
  by (cases p) auto

text \<open>A poll that ends a loop with a deadline.\<close>

fun ends :: "instant \<Rightarrow> 'a poll \<Rightarrow> bool" where
  "ends deadline (Exited _) = True"
| "ends deadline (Running now) = (now \<ge> deadline)"
| "ends deadline PollError = True"

lemma decrypt_loop_ok:
  "decrypt_loop key opened deadline pid polls = Some (Inr dec, killed) \<Longrightarrow>
   \<exists>ex. find (ends deadline) polls = Some (Exited ex) \<and> read_result key opened ex = Some (Inr dec)"
  by (induction key opened deadline pid polls rule: decrypt_loop.induct) (auto split: if_splits)

lemma read_result_ok:
  "read_result key opened ex = Some (Inr dec) \<Longrightarrow>
     se_success ex \<and> dh_source dec = oh_label opened \<and> dh_identity dec = oh_identity opened
     \<and> (\<exists>out. se_stdout ex = PipeEnds out \<and> parse_single_assignment out key = Inr (dh_value dec))"
  by (cases dec) (auto simp: read_result_def and_then_Inr Let_def split: option.splits sum.splits if_splits)

lemma decrypt_wait_ok:
  assumes "decrypt_wait d run key opened pid = Some (Inr dec, killed)"
  obtains deadline ex out where "instant_checked_add (sr_now run) (dc_timeout d) = Some deadline"
    "find (ends deadline) (sr_polls run) = Some (Exited ex)" "Exited ex \<in> set (sr_polls run)"
    "se_success ex" "se_stdout ex = PipeEnds out"
    "parse_single_assignment out key = Inr (dh_value dec)" "dh_source dec = oh_label opened" "dh_identity dec = oh_identity opened"
proof -
  obtain deadline where d: "instant_checked_add (sr_now run) (dc_timeout d) = Some deadline"
      "decrypt_loop key opened deadline pid (sr_polls run) = Some (Inr dec, killed)"
    using assms by (auto simp: decrypt_wait_def split: option.splits)
  obtain ex where ex: "find (ends deadline) (sr_polls run) = Some (Exited ex)" "read_result key opened ex = Some (Inr dec)"
    using decrypt_loop_ok [OF d(2)] by blast
  from ex(1) have "Exited ex \<in> set (sr_polls run)" by (auto simp: find_Some_iff)
  with d(1) ex(1) read_result_ok [OF ex(2)] that show ?thesis by blast
qed

text \<open>What a decrypted value rests on. If decrypting returns a value, then the hardware was reported
  reachable, the key had exactly one backing file and that file was opened and found regular, \<open>sops\<close>
  exited successfully, and its output is a single assignment of that value to the requested key. The source
  label and the identity recorded with the value are those of the file that was opened.\<close>

theorem decrypt_ok_sound:
  assumes "decrypt_opened_with_start d run store key on_started st = Some (st', Inr dec)"
  shows "\<exists>opened pid ex out.
     (\<exists>killed. PcscReachability_is_reachable (fs_exists (sr_fs run)) (sr_probe run) (dc_reachability d) = Some (True, killed))
     \<and> HumanStore_open (sr_fs run) store key = Inr opened
     \<and> (\<exists>fd. sr_dup run (oh_file opened) = Some fd \<and> sr_spawn run (sops_decrypt_command d fd) = Some pid) \<and> st' = on_started pid st
     \<and> Exited ex \<in> set (sr_polls run) \<and> se_success ex \<and> se_stdout ex = PipeEnds out
     \<and> parse_single_assignment out key = Inr (dh_value dec)
     \<and> dh_source dec = oh_label opened \<and> dh_identity dec = oh_identity opened"
proof -
  obtain opened pid where start: "decrypt_start d run store key = Some (Inr (opened, pid))"
      and "\<exists>killed. decrypt_wait d run key opened pid = Some (Inr dec, killed)" and st': "st' = on_started pid st"
    using assms by (auto simp: decrypt_opened_with_start_def split: option.splits sum.splits)
  then obtain ex out where ex: "Exited ex \<in> set (sr_polls run)" "se_success ex" "se_stdout ex = PipeEnds out"
      "parse_single_assignment out key = Inr (dh_value dec)" "dh_source dec = oh_label opened" "dh_identity dec = oh_identity opened"
    by (metis decrypt_wait_ok)
  have "\<exists>killed. PcscReachability_is_reachable (fs_exists (sr_fs run)) (sr_probe run) (dc_reachability d) = Some (True, killed)"
      "HumanStore_open (sr_fs run) store key = Inr opened"
      "\<exists>fd. sr_dup run (oh_file opened) = Some fd \<and> sr_spawn run (sops_decrypt_command d fd) = Some pid"
    using start by (auto simp: decrypt_start_def duplicate_ciphertext_fd_def and_then_Inr ok_or_Inr split: option.splits if_splits)
  with ex st' show ?thesis by blast
qed

definition example_decryptor :: decryptor where
  "example_decryptor = \<lparr>dc_sops_bin = ''sops'', dc_timeout = from_secs 90,
     dc_reachability = \<lparr>pc_socket = None, pc_probe = None\<rparr>\<rparr>"

definition example_sops_run :: sops_run where
  "example_sops_run =
     \<lparr>sr_fs = example_fs [''DB.env''] 7, sr_probe = \<lparr>pb_now = 0, pb_spawn = \<lambda>_. None, pb_polls = []\<rparr>,
      sr_dup = Some, sr_spawn = \<lambda>_. Some 4242,
      sr_now = from_secs 1,
      sr_polls = [Running (from_secs 2),
                  Exited \<lparr>se_success = True, se_stderr = PipeEnds [], se_stdout = PipeEnds (''DB=hunter2'' @ [newline])\<rparr>]\<rparr>"

definition example_decrypted :: decrypted_human_file where
  "example_decrypted =
     \<lparr>dh_source = ''test'', dh_identity = FileIdentity_from_stat (example_stat 7), dh_value = ''hunter2''\<rparr>"

theorem decrypt_ok_sound_witness:
  "\<exists>opened pid ex out.
     (\<exists>killed. PcscReachability_is_reachable (fs_exists (sr_fs example_sops_run)) (sr_probe example_sops_run)
        (dc_reachability example_decryptor) = Some (True, killed))
     \<and> HumanStore_open (sr_fs example_sops_run) example_store (SecretName ''DB'') = Inr opened
     \<and> (\<exists>fd. sr_dup example_sops_run (oh_file opened) = Some fd
          \<and> sr_spawn example_sops_run (sops_decrypt_command example_decryptor fd) = Some pid) \<and> [4242] = [] @ [pid]
     \<and> Exited ex \<in> set (sr_polls example_sops_run) \<and> se_success ex \<and> se_stdout ex = PipeEnds out
     \<and> parse_single_assignment out (SecretName ''DB'') = Inr (dh_value example_decrypted)
     \<and> dh_source example_decrypted = oh_label opened \<and> dh_identity example_decrypted = oh_identity opened"
proof -
  have "decrypt_opened_with_start example_decryptor example_sops_run example_store (SecretName ''DB'')
      (\<lambda>pid log. log @ [pid]) [] = Some ([4242], Inr example_decrypted)"
    by code_simp
  from decrypt_ok_sound [OF this] show ?thesis .
qed

lemma responds_loop_ends: "\<exists>p \<in> set polls. ends deadline p \<Longrightarrow> responds_loop deadline pid polls \<noteq> None"
  by (induction deadline pid polls rule: responds_loop.induct) auto

text \<open>Whether the reads after an exit return: the error output ends, fails or has 300 bytes, and after a
  success the output ends or fails.\<close>

definition reads_end :: "sops_exit \<Rightarrow> bool" where
  "reads_end ex \<longleftrightarrow>
     (take_read_to_end MAX_SOPS_STDERR_BYTES (se_stderr ex) \<noteq> None)
     \<and> (se_success ex \<longrightarrow> read_to_end (se_stdout ex) \<noteq> None)"

lemma read_result_returns: "read_result key opened ex \<noteq> None \<longleftrightarrow> reads_end ex"
  by (auto simp: read_result_def reads_end_def Let_def split: option.splits sum.splits)

lemma decrypt_loop_returns:
  "decrypt_loop key opened deadline pid polls \<noteq> None \<longleftrightarrow>
     (\<exists>p. find (ends deadline) polls = Some p \<and> (\<forall>ex. p = Exited ex \<longrightarrow> reads_end ex))"
  by (induction key opened deadline pid polls rule: decrypt_loop.induct)
     (use read_result_returns in auto)

lemma reachable_ends:
  assumes "\<And>probe. pc_probe r = Some probe \<Longrightarrow> \<exists>p \<in> set (pb_polls run). ends (pb_now run + yp_timeout probe) p"
  shows "PcscReachability_is_reachable ex run r \<noteq> None"
  using assms responds_loop_ends
  by (auto simp: PcscReachability_is_reachable_def YubikeyProbe_responds_def instant_checked_add_def
      split: option.splits if_splits)

text \<open>C36: When decrypting ends, exactly. Let the polls of the probe (where one is configured) reach an
  observation that its child exited, cannot be polled or has passed its deadline, and let \<open>p\<close> be the first such
  observation of \<open>sops\<close>. Then the call returns if and only if \<open>sops\<close> was not started, or \<open>p\<close> is not an
  exit, or the pipes of the exited child can be read: its error output ends (or has 300 bytes) and, after a
  success, its output ends. So a \<open>sops\<close> that never exits cannot hold the worker past its deadline; a
  descendant that keeps a pipe of an exited \<open>sops\<close> open holds it without any bound, since no deadline covers
  the reads.\<close>

theorem decrypt_returns:
  assumes "\<And>probe. pc_probe (dc_reachability d) = Some probe \<Longrightarrow>
      \<exists>p \<in> set (pb_polls (sr_probe run)). ends (pb_now (sr_probe run) + yp_timeout probe) p"
    and "instant_checked_add (sr_now run) (dc_timeout d) = Some deadline"
    and "find (ends deadline) (sr_polls run) = Some p"
  shows "(\<exists>res. decrypt_opened_with_start d run store key on_started st = Some res) \<longleftrightarrow>
     (\<exists>err. decrypt_start d run store key = Some (Inl err)) \<or> (\<forall>ex. p = Exited ex \<longrightarrow> reads_end ex)"
proof -
  have "decrypt_start d run store key \<noteq> None"
    using reachable_ends [OF assms(1)] by (auto simp: decrypt_start_def split: option.splits)
  then obtain r where r: "decrypt_start d run store key = Some r" by blast
  have w: "decrypt_wait d run key opened pid \<noteq> None \<longleftrightarrow> (\<forall>ex. p = Exited ex \<longrightarrow> reads_end ex)" for opened pid
    using assms(2,3) decrypt_loop_returns [of key opened deadline pid "sr_polls run"] by (simp add: decrypt_wait_def)
  show ?thesis
  proof (cases r)
    case (Inl err)
    with r show ?thesis by (simp add: decrypt_opened_with_start_def)
  next
    case (Inr op)
    with r w [of "fst op" "snd op"] show ?thesis
      by (cases op) (auto simp: decrypt_opened_with_start_def split: option.splits)
  qed
qed

text \<open>At the example the call returns; with a descendant that holds the output open it does not.\<close>

theorem decrypt_returns_witness:
  "(\<exists>res. decrypt_opened_with_start example_decryptor example_sops_run example_store (SecretName ''DB'')
      (\<lambda>pid log. log @ [pid]) [] = Some res)
   \<and> \<not> (\<exists>res. decrypt_opened_with_start example_decryptor
          (example_sops_run\<lparr>sr_polls := [Exited \<lparr>se_success = True, se_stderr = PipeEnds [], se_stdout = PipeHeld []\<rparr>]\<rparr>)
          example_store (SecretName ''DB'') (\<lambda>pid log. log @ [pid]) [] = Some res)"
proof (intro conjI)
  have "instant_checked_add (sr_now example_sops_run) (dc_timeout example_decryptor) = Some (from_secs 91)"
      "find (ends (from_secs 91)) (sr_polls example_sops_run) =
         Some (Exited \<lparr>se_success = True, se_stderr = PipeEnds [], se_stdout = PipeEnds (''DB=hunter2'' @ [newline])\<rparr>)"
    by code_simp+
  from decrypt_returns [OF _ this, of example_store "SecretName ''DB''" "\<lambda>pid log. log @ [pid]" "[]"] show "\<exists>res. decrypt_opened_with_start example_decryptor example_sops_run
      example_store (SecretName ''DB'') (\<lambda>pid log. log @ [pid]) [] = Some res"
    by (simp add: example_decryptor_def reads_end_def take_read_to_end_def MAX_SOPS_STDERR_BYTES_def)
next
  define run where "run = example_sops_run
      \<lparr>sr_polls := [Exited \<lparr>se_success = True, se_stderr = PipeEnds [], se_stdout = PipeHeld []\<rparr>]\<rparr>"
  have "instant_checked_add (sr_now run) (dc_timeout example_decryptor) = Some (from_secs 91)"
      "find (ends (from_secs 91)) (sr_polls run) =
         Some (Exited \<lparr>se_success = True, se_stderr = PipeEnds [], se_stdout = PipeHeld []\<rparr>)"
      and "map_option isl (decrypt_start example_decryptor run example_store (SecretName ''DB'')) = Some False"
    unfolding run_def by code_simp+
  moreover from this(3) have s: "\<not> (\<exists>err. decrypt_start example_decryptor run example_store (SecretName ''DB'') = Some (Inl err))"
    by auto
  ultimately show "\<not> (\<exists>res. decrypt_opened_with_start example_decryptor run
      example_store (SecretName ''DB'') (\<lambda>pid log. log @ [pid]) [] = Some res)"
    using decrypt_returns [of example_decryptor run "from_secs 91" _ example_store "SecretName ''DB''" "\<lambda>pid log. log @ [pid]" "[]"]
    by (simp add: example_decryptor_def reads_end_def)
qed

text \<open>A \<open>sops\<close> that is still running at every poll, the last of them at or after the deadline, is
  reported as \<open>Timeout\<close> and its process group is killed.\<close>

lemma decrypt_timeout_kills:
  assumes "instant_checked_add (sr_now run) (dc_timeout d) = Some deadline"
    and "sr_polls run = map Running early @ [Running late] @ rest"
    and "list_all (\<lambda>t. t < deadline) early" and "late \<ge> deadline"
  shows "decrypt_wait d run key opened pid = Some (Inl Timeout, [pid])"
proof -
  have "decrypt_loop key opened deadline pid (map Running early @ [Running late] @ rest) = Some (Inl Timeout, [pid])"
    using assms(3,4) by (induction early) auto
  then show ?thesis using assms(1,2) by (simp add: decrypt_wait_def)
qed

end
