(* ===== verification/Config.thy ===== *)
theory Config
  imports Decrypt
begin

text \<open>
  Configuration: the source roots (\<open>src/config.rs\<close>), the daemon's settings from its environment and their
  validation (\<open>src/lib.rs\<close>), and the socket path that the daemon and the client compute
  (\<open>src/client.rs\<close>). The environment, the file system and the TOML reader are arguments; a parsed TOML
  table is the list of its entries in declaration order.
\<close>

section \<open>Paths\<close>

definition slash :: char where "slash = CHR ''/''"

definition path_is_absolute :: "string \<Rightarrow> bool" where
  "path_is_absolute p \<longleftrightarrow> p \<noteq> [] \<and> hd p = slash"

definition path_join :: "string \<Rightarrow> string \<Rightarrow> string" where
  "path_join base p =
     (if path_is_absolute p then p
      else if base = [] \<or> last base = slash then base @ p
      else base @ slash # p)"

text \<open>\<open>components()\<close> of an absolute path after its root: repeated separators and \<open>.\<close> vanish. Two absolute
  paths are equal, and compare alike in a map, when these lists agree.\<close>

definition path_components :: "string \<Rightarrow> string list" where
  "path_components p = filter (\<lambda>c. c \<noteq> [] \<and> c \<noteq> ''.'') (split_on slash p)"

section \<open>Source roots\<close>

record source_root =
  so_name :: string
  so_path :: string

definition SourceRoot_agent_files :: "source_root \<Rightarrow> string list" where
  "SourceRoot_agent_files r = [path_join (so_path r) ''secrets.local.env'', path_join (so_path r) ''secrets.env'']"

definition SourceRoot_human_dir :: "source_root \<Rightarrow> string" where
  "SourceRoot_human_dir r = path_join (so_path r) ''secrets.human.d''"

record sources =
  so_roots :: "source_root list"

datatype config_error =
    CfgMissing string
  | CfgRead string string
  | CfgToml string
  | BadRootName string
  | RelativePath string
  | DuplicatePath string string
  | NoRoots
  | RootNotDirectory string string string
  | NoHome

text \<open>\<open>Error::source\<close>: the error of the read, which the model keeps as its text.\<close>

fun ConfigError_source :: "config_error \<Rightarrow> string option" where
  "ConfigError_source (CfgRead _ error) = Some error"
| "ConfigError_source _ = None"

fun ConfigError_fmt :: "config_error \<Rightarrow> string" where
  "ConfigError_fmt (CfgMissing path) =
     ''no secretsd config at '' @ to_string_lossy path @ ''; create it with a [source.<name>] table per secrets root, e.g.'' @ [newline]
     @ ''[source.dotfiles]'' @ [newline] @ ''path = '' @ [CHR 0x22] @ ''~/dotfiles'' @ [CHR 0x22]"
| "ConfigError_fmt (CfgRead path error) = ''failed to read secretsd config at '' @ to_string_lossy path @ '': '' @ error"
| "ConfigError_fmt (CfgToml error) = ''invalid secretsd config: '' @ error"
| "ConfigError_fmt (BadRootName name) =
     ''invalid secretsd source root name '' @ name @ ''; expected [a-z][a-z0-9-]*''"
| "ConfigError_fmt (RelativePath path) =
     ''source root path '' @ path @ '' must be absolute and free of .. segments''"
| "ConfigError_fmt (DuplicatePath first duplicate) =
     ''source roots '' @ first @ '' and '' @ duplicate @ '' resolve to the same path''"
| "ConfigError_fmt NoRoots = ''secretsd config must define at least one [source.<name>] table''"
| "ConfigError_fmt (RootNotDirectory name path config) =
     ''source root '' @ name @ '' is not an existing directory: '' @ to_string_lossy path
     @ ''; clone or create it, or remove [source.'' @ name @ ''] from '' @ to_string_lossy config"
| "ConfigError_fmt NoHome = ''HOME must be set to an absolute path''"

text \<open>The environment: raw values by name. \<open>var_os\<close> gives them as they are, \<open>var\<close> only where they are
  UTF-8.\<close>

type_synonym environment = "string \<Rightarrow> string option"

definition environment_path :: "environment \<Rightarrow> string \<Rightarrow> string option" where
  "environment_path env name = Option.bind (env name) (\<lambda>v. if v = [] then None else Some v)"

definition home_path :: "environment \<Rightarrow> config_error + string" where
  "home_path env =
     and_then (ok_or NoHome (environment_path env ''HOME'')) (\<lambda>home.
       if path_is_absolute home then Inr home else Inl NoHome)"

definition Sources_config_path :: "environment \<Rightarrow> config_error + string" where
  "Sources_config_path env =
     (case environment_path env ''SECRETSD_CONFIG'' of
        Some path \<Rightarrow> Inr path
      | None \<Rightarrow>
          (case environment_path env ''XDG_CONFIG_HOME'' of
             Some path \<Rightarrow> Inr (path_join path ''secretsd/config.toml'')
           | None \<Rightarrow> and_then (home_path env) (\<lambda>home. Inr (path_join home ''.config/secretsd/config.toml''))))"

definition is_root_name :: "string \<Rightarrow> bool" where
  "is_root_name name =
     (case name of
        [] \<Rightarrow> False
      | first # rest \<Rightarrow>
          is_ascii_lowercase first
          \<and> list_all (\<lambda>c. is_ascii_lowercase c \<or> is_ascii_digit c \<or> c = CHR ''-'') rest)"

definition resolve_path :: "string \<Rightarrow> string \<Rightarrow> config_error + string" where
  "resolve_path raw home =
     (let path = (if raw = ''~'' then home
                  else case strip_prefix ''~/'' raw of
                      Some p \<Rightarrow> path_join home (dropWhile (\<lambda>c. c = slash) p)
                    | None \<Rightarrow> raw)
      in if path_is_absolute path \<and> ''..'' \<notin> set (path_components path) then Inr path
         else Inl (RelativePath raw))"

section \<open>Reading the file\<close>

datatype toml_value = TomlString string | TomlTable "(string \<times> toml_value) list" | TomlOther

type_synonym toml_table = "(string \<times> toml_value) list"

text \<open>\<open>RawSource\<close>: the one field of a source.\<close>

record raw_source =
  rs_path :: string

text \<open>The TOML library: a parser of documents, and \<open>try_into::<RawSource>\<close> (the deserialiser that is derived for
  \<open>RawSource\<close>), each of which gives the message of its failure.\<close>

record toml_reader =
  tr_parse :: "string \<Rightarrow> string + toml_table"
  tr_try_into :: "toml_value \<Rightarrow> string + raw_source"

fun parse_roots ::
  "toml_reader \<Rightarrow> string \<Rightarrow> (string list \<times> string) list \<Rightarrow> toml_table \<Rightarrow> config_error + source_root list" where
  "parse_roots toml home paths [] = Inr []"
| "parse_roots toml home paths ((name, entry) # rest) =
     (if \<not> is_root_name name then Inl (BadRootName name)
      else and_then (map_err CfgToml (tr_try_into toml entry)) (\<lambda>raw.
           and_then (resolve_path (rs_path raw) home) (\<lambda>path.
             case map_of paths (path_components path) of
               Some first \<Rightarrow> Inl (DuplicatePath first name)
             | None \<Rightarrow>
                 and_then (parse_roots toml home ((path_components path, name) # paths) rest) (\<lambda>roots.
                   Inr (\<lparr>so_name = name, so_path = path\<rparr> # roots)))))"

definition Sources_parse :: "toml_reader \<Rightarrow> string \<Rightarrow> string \<Rightarrow> config_error + sources" where
  "Sources_parse toml text home =
     (if \<not> path_is_absolute home then Inl NoHome
      else and_then (map_err CfgToml (tr_parse toml text)) (\<lambda>document.
        if length document \<noteq> 1
        then Inl (CfgToml ''config must contain exactly one top-level source table'')
        else case map_of document ''source'' of
            None \<Rightarrow> Inl (CfgToml ''config must contain a top-level source table'')
          | Some (TomlTable source) \<Rightarrow>
              if source = [] then Inl NoRoots
              else and_then (parse_roots toml home [] source) (\<lambda>roots. Inr \<lparr>so_roots = roots\<rparr>)
          | Some _ \<Rightarrow> Inl (CfgToml ''top-level source must be a table'')))"

text \<open>Reading a file fails because it is not there, or with a message; \<open>is_dir\<close> asks the file system.\<close>

record config_files =
  cf_read_to_string :: "string \<Rightarrow> string option + string"
  cf_is_dir :: "string \<Rightarrow> bool"

definition Sources_load :: "environment \<Rightarrow> config_files \<Rightarrow> toml_reader \<Rightarrow> config_error + sources" where
  "Sources_load env files toml =
     and_then (home_path env) (\<lambda>home.
     and_then (Sources_config_path env) (\<lambda>config_path.
     and_then (map_err (\<lambda>e. case e of None \<Rightarrow> CfgMissing config_path | Some msg \<Rightarrow> CfgRead config_path msg)
                 (cf_read_to_string files config_path)) (\<lambda>text.
     and_then (Sources_parse toml text home) (\<lambda>sources.
       case find (\<lambda>root. \<not> cf_is_dir files (so_path root)) (so_roots sources) of
         Some root \<Rightarrow> Inl (RootNotDirectory (so_name root) (so_path root) config_path)
       | None \<Rightarrow> Inr sources))))"

section \<open>The daemon's settings\<close>

datatype touch_policy = Cached | Always

record config =
  cfg_socket_path :: string
  cfg_human_sources :: "human_source list"
  cfg_sops_bin :: string
  cfg_pcsc_socket :: "string option"
  cfg_yubikey_probe_argv :: "string list"
  cfg_yubikey_probe_timeout :: duration
  cfg_touch_policy :: touch_policy
  cfg_max_grant :: duration
  cfg_cooldown :: duration
  cfg_request_ttl :: duration
  cfg_max_pending_per_scope :: nat

definition SocketPath_resolve :: "string option \<Rightarrow> string option \<Rightarrow> nat \<Rightarrow> string" where
  "SocketPath_resolve override_path runtime_dir uid =
     (case (override_path, runtime_dir) of
        (Some path, _) \<Rightarrow> path
      | (None, Some directory) \<Rightarrow>
          if directory \<noteq> [] then path_join directory ''secretsd.sock''
          else ''/run/user/'' @ nat_to_string uid @ ''/secretsd.sock''
      | (None, None) \<Rightarrow> ''/run/user/'' @ nat_to_string uid @ ''/secretsd.sock'')"

text \<open>\<open>std::env::var(name).ok()\<close>, and the same without empty values.\<close>

definition env_var :: "environment \<Rightarrow> string \<Rightarrow> string option" where
  "env_var env name = Option.bind (env name) from_utf8"

definition nonempty_var :: "environment \<Rightarrow> string \<Rightarrow> string option" where
  "nonempty_var env name = Option.bind (env_var env name) (\<lambda>v. if v = [] then None else Some v)"

text \<open>\<open>split_whitespace\<close>.\<close>

fun split_words :: "nat list \<Rightarrow> nat list \<Rightarrow> nat list list" where
  "split_words word [] = (if word = [] then [] else [word])"
| "split_words word (c # cs) =
     (if is_whitespace c then (if word = [] then split_words [] cs else word # split_words [] cs)
      else split_words (word @ [c]) cs)"

definition split_whitespace :: "string \<Rightarrow> string list" where
  "split_whitespace s =
     (case utf8_decode s of None \<Rightarrow> [] | Some cs \<Rightarrow> map utf8_encode (split_words [] cs))"

definition env_argv :: "environment \<Rightarrow> string \<Rightarrow> string list" where
  "env_argv env name = (case nonempty_var env name of None \<Rightarrow> [] | Some v \<Rightarrow> split_whitespace v)"

definition env_secs :: "environment \<Rightarrow> string \<Rightarrow> nat \<Rightarrow> duration" where
  "env_secs env name fallback =
     (case Option.bind (nonempty_var env name) (parse_unsigned 10 U64_MAX) of
        None \<Rightarrow> from_secs fallback
      | Some n \<Rightarrow> from_secs n)"

definition env_touch_policy :: "environment \<Rightarrow> string + touch_policy" where
  "env_touch_policy env =
     (case nonempty_var env ''SECRETSD_TOUCH_POLICY'' of
        None \<Rightarrow> Inr Cached
      | Some v \<Rightarrow>
          if v = ''cached'' then Inr Cached
          else if v = ''always'' then Inr Always
          else Inl ''SECRETSD_TOUCH_POLICY must be cached (default) or always'')"

definition Config_from_env :: "environment \<Rightarrow> config_files \<Rightarrow> toml_reader \<Rightarrow> nat \<Rightarrow> string + config" where
  "Config_from_env env files toml uid =
     and_then (map_err ConfigError_fmt (Sources_load env files toml)) (\<lambda>sources.
     and_then (env_touch_policy env) (\<lambda>policy.
       Inr \<lparr>cfg_socket_path =
              SocketPath_resolve (nonempty_var env ''SECRETSD_SOCKET'') (nonempty_var env ''XDG_RUNTIME_DIR'') uid,
            cfg_human_sources =
              map (\<lambda>root. \<lparr>hs_label = so_name root, hs_dir = SourceRoot_human_dir root\<rparr>) (so_roots sources),
            cfg_sops_bin = (case nonempty_var env ''SECRETSD_SOPS_BIN'' of None \<Rightarrow> ''sops'' | Some p \<Rightarrow> p),
            cfg_pcsc_socket = nonempty_var env ''PCSCLITE_CSOCK_NAME'',
            cfg_yubikey_probe_argv = env_argv env ''SECRETSD_YUBIKEY_PROBE_CMD'',
            cfg_yubikey_probe_timeout = env_secs env ''SECRETSD_YUBIKEY_PROBE_TIMEOUT_SECS'' 2,
            cfg_touch_policy = policy,
            cfg_max_grant = env_secs env ''SECRETSD_MAX_GRANT_SECS'' 43200,
            cfg_cooldown = env_secs env ''SECRETSD_COOLDOWN_SECS'' 16,
            cfg_request_ttl = env_secs env ''SECRETSD_REQUEST_TTL_SECS'' 90,
            cfg_max_pending_per_scope =
              (case Option.bind (nonempty_var env ''SECRETSD_MAX_PENDING'') (parse_unsigned 10 U64_MAX) of
                 None \<Rightarrow> 3 | Some n \<Rightarrow> n)\<rparr>))"

definition Config_decryptor :: "config \<Rightarrow> decryptor" where
  "Config_decryptor c =
     \<lparr>dc_sops_bin = cfg_sops_bin c, dc_timeout = cfg_request_ttl c,
      dc_reachability =
        \<lparr>pc_socket = cfg_pcsc_socket c,
         pc_probe = YubikeyProbe_from_argv (cfg_yubikey_probe_argv c) (cfg_yubikey_probe_timeout c)\<rparr>\<rparr>"

definition Config_validate :: "config \<Rightarrow> string + unit" where
  "Config_validate c =
     (if cfg_touch_policy c = Cached \<and> cfg_cooldown c \<le> from_secs 15
      then Inl (''SECRETSD_COOLDOWN_SECS must exceed the 15s PIV touch cache; a shorter ''
                @ ''cooldown is safe only with SECRETSD_TOUCH_POLICY=always hardware'')
      else Inr ())"

definition BrokerClient_socket :: "environment \<Rightarrow> nat \<Rightarrow> string" where
  "BrokerClient_socket env uid =
     SocketPath_resolve (env_var env ''SECRETSD_SOCK'') (env_var env ''XDG_RUNTIME_DIR'') uid"

section \<open>Properties\<close>

lemma resolve_path_Inr:
  "resolve_path raw home = Inr path \<Longrightarrow> path_is_absolute path \<and> ''..'' \<notin> set (path_components path)"
  by (auto simp: resolve_path_def Let_def split: if_splits option.splits)

text \<open>A root is sound; with the paths seen before it, every new path is new.\<close>

definition root_ok :: "source_root \<Rightarrow> bool" where
  "root_ok r \<longleftrightarrow> is_root_name (so_name r) \<and> path_is_absolute (so_path r)
     \<and> ''..'' \<notin> set (path_components (so_path r))"

lemma parse_roots_ok:
  "parse_roots toml home paths table = Inr roots \<Longrightarrow>
   length roots = length table \<and> map so_name roots = map fst table \<and> list_all root_ok roots
   \<and> distinct (map (\<lambda>r. path_components (so_path r)) roots)
   \<and> (\<forall>r \<in> set roots. path_components (so_path r) \<notin> fst ` set paths)"
proof (induction toml home paths table arbitrary: roots rule: parse_roots.induct)
  case (2 toml home paths name entry rest)
  then obtain raw path more where p: "is_root_name name" "tr_try_into toml entry = Inr raw" "resolve_path (rs_path raw) home = Inr path"
      "map_of paths (path_components path) = None"
      "parse_roots toml home ((path_components path, name) # paths) rest = Inr more"
      "roots = \<lparr>so_name = name, so_path = path\<rparr> # more"
    by (auto simp: and_then_Inr map_err_def split: if_splits option.splits sum.splits)
  have ih: "length more = length rest \<and> map so_name more = map fst rest \<and> list_all root_ok more
      \<and> distinct (map (\<lambda>r. path_components (so_path r)) more)
      \<and> (\<forall>r \<in> set more. path_components (so_path r) \<notin> fst ` set ((path_components path, name) # paths))"
    using 2(1) p by blast
  moreover have "root_ok \<lparr>so_name = name, so_path = path\<rparr>"
    using p(1) resolve_path_Inr [OF p(3)] by (simp add: root_ok_def)
  ultimately show ?case using p(4,6) by (auto simp: map_of_eq_None_iff)
qed simp

text \<open>C38: A configuration that parses is sound: it has at least one root; every root keeps the name it is
  declared under, in declaration order, and the name is well formed; every path is absolute and has no
  \<open>..\<close> component; and no two roots lie at the same path, however the paths are spelled.\<close>

theorem parsed_sources_sound:
  assumes "Sources_parse toml text home = Inr sources"
  shows "so_roots sources \<noteq> [] \<and> list_all root_ok (so_roots sources)
     \<and> distinct (map (\<lambda>r. path_components (so_path r)) (so_roots sources))
     \<and> (\<exists>table. tr_parse toml text = Inr [(''source'', TomlTable table)]
          \<and> map so_name (so_roots sources) = map fst table)"
proof -
  obtain document table roots where d: "tr_parse toml text = Inr document" "length document = 1"
      "map_of document ''source'' = Some (TomlTable table)" "table \<noteq> []"
      "parse_roots toml home [] table = Inr roots" "sources = \<lparr>so_roots = roots\<rparr>"
    using assms
    by (cases "tr_parse toml text")
       (auto simp: Sources_parse_def and_then_Inr split: if_splits option.splits toml_value.splits)
  then have doc: "document = [(''source'', TomlTable table)]"
    by (cases document) (auto split: if_splits)
  have "roots \<noteq> []" using d(4) parse_roots_ok [OF d(5)] by auto
  with d doc parse_roots_ok [OF d(5)] show ?thesis by auto
qed

definition example_toml :: toml_reader where
  "example_toml =
     \<lparr>tr_parse = (\<lambda>_. Inr [(''source'', TomlTable [(''work'', TomlTable [(''path'', TomlString ''~/work'')])])]),
      tr_try_into = (\<lambda>v. case v of TomlTable [(_, TomlString p)] \<Rightarrow> Inr \<lparr>rs_path = p\<rparr> | _ \<Rightarrow> Inl ''unexpected'')\<rparr>"

theorem parsed_sources_sound_witness:
  "so_roots \<lparr>so_roots = [\<lparr>so_name = ''work'', so_path = ''/home/me/work''\<rparr>]\<rparr> \<noteq> []
   \<and> list_all root_ok (so_roots \<lparr>so_roots = [\<lparr>so_name = ''work'', so_path = ''/home/me/work''\<rparr>]\<rparr>)
   \<and> distinct (map (\<lambda>r. path_components (so_path r)) (so_roots \<lparr>so_roots = [\<lparr>so_name = ''work'', so_path = ''/home/me/work''\<rparr>]\<rparr>))
   \<and> (\<exists>table. tr_parse example_toml ''text'' = Inr [(''source'', TomlTable table)]
        \<and> map so_name (so_roots \<lparr>so_roots = [\<lparr>so_name = ''work'', so_path = ''/home/me/work''\<rparr>]\<rparr>) = map fst table)"
proof (rule parsed_sources_sound)
  show "Sources_parse example_toml ''text'' ''/home/me'' =
      Inr \<lparr>so_roots = [\<lparr>so_name = ''work'', so_path = ''/home/me/work''\<rparr>]\<rparr>"
    by code_simp
qed

lemma env_var_runtime:
  "SocketPath_resolve None (nonempty_var env name) uid = SocketPath_resolve None (env_var env name) uid"
  by (cases "env_var env name") (simp_all add: nonempty_var_def SocketPath_resolve_def)

text \<open>Where neither override is set, the daemon listens where the clients of the same user and
  environment connect.\<close>

theorem daemon_listens_where_clients_connect:
  assumes "Config_from_env env files toml uid = Inr c"
    and "env ''SECRETSD_SOCKET'' = None" and "env ''SECRETSD_SOCK'' = None"
  shows "BrokerClient_socket env uid = cfg_socket_path c"
  using assms env_var_runtime [of env "''XDG_RUNTIME_DIR''" uid]
  by (auto simp: Config_from_env_def and_then_Inr BrokerClient_socket_def env_var_def nonempty_var_def)

definition example_env :: environment where
  "example_env = map_of [(''HOME'', ''/home/me''), (''XDG_RUNTIME_DIR'', ''/run/user/7'')]"

definition example_files :: config_files where
  "example_files = \<lparr>cf_read_to_string = (\<lambda>_. Inr ''text''), cf_is_dir = (\<lambda>_. True)\<rparr>"

lemma example_from_env:
  "\<exists>c. Config_from_env example_env example_files example_toml 7 = Inr c \<and> cfg_socket_path c = ''/run/user/7/secretsd.sock''"
proof -
  have "(case Config_from_env example_env example_files example_toml 7 of
      Inr c \<Rightarrow> cfg_socket_path c = ''/run/user/7/secretsd.sock'' | Inl _ \<Rightarrow> False)"
    by code_simp
  then show ?thesis by (auto split: sum.splits)
qed

theorem daemon_listens_where_clients_connect_witness:
  "BrokerClient_socket example_env 7 = ''/run/user/7/secretsd.sock''"
proof -
  obtain c where c: "Config_from_env example_env example_files example_toml 7 = Inr c"
      "cfg_socket_path c = ''/run/user/7/secretsd.sock''" using example_from_env by blast
  have "example_env ''SECRETSD_SOCKET'' = None" "example_env ''SECRETSD_SOCK'' = None"
    by (simp_all add: example_env_def)
  with daemon_listens_where_clients_connect [OF c(1)] c(2) show ?thesis by simp
qed

text \<open>The overrides have different names: a daemon moved with \<open>SECRETSD_SOCKET\<close> is not found by a client of
  the same environment.\<close>

lemma socket_override_not_shared:
  "let env = example_env(''SECRETSD_SOCKET'' \<mapsto> ''/tmp/s.sock'') in
   SocketPath_resolve (nonempty_var env ''SECRETSD_SOCKET'') (nonempty_var env ''XDG_RUNTIME_DIR'') 7 = ''/tmp/s.sock''
   \<and> BrokerClient_socket env 7 = ''/run/user/7/secretsd.sock''"
  by code_simp

text \<open>What validation demands.\<close>

lemma validate_Inr: "Config_validate c = Inr () \<longleftrightarrow> cfg_touch_policy c = Always \<or> from_secs 15 < cfg_cooldown c"
  by (cases "cfg_touch_policy c") (auto simp: Config_validate_def)

end
