(* ===== verification/AuditValue.thy ===== *)
theory AuditValue
  imports Prelude
begin

text \<open>
  Values on their way to a log line (\<open>src/audit.rs\<close>). A \<open>str\<close> is given here as its \<open>chars()\<close>, the list
  of scalar values, and its byte length is that of their UTF-8 encoding. The lemmas bound the rendered
  length, exclude control characters, and show that an ordinary short value is logged as it is.
\<close>

type_synonym chars = "nat list"

definition MAX_AUDIT_VALUE_BYTES :: nat where "MAX_AUDIT_VALUE_BYTES = 256"

definition len_utf8 :: "nat \<Rightarrow> nat" where "len_utf8 c = length (utf8_encode_char c)"

definition str_len :: "chars \<Rightarrow> nat" where "str_len cs = sum_list (map len_utf8 cs)"

definition ellipsis :: nat where "ellipsis = 0x2026"

text \<open>The loop that pops characters while the text is longer than a number of bytes.\<close>

function pop_while_longer :: "nat \<Rightarrow> chars \<Rightarrow> chars" where
  "pop_while_longer limit rendered =
     (if str_len rendered > limit then pop_while_longer limit (butlast rendered) else rendered)"
  by pat_completeness auto
termination
proof (relation "measure (length \<circ> snd)", simp)
  fix limit and rendered :: chars
  assume "limit < str_len rendered"
  then show "((limit, butlast rendered), limit, rendered) \<in> measure (length \<circ> snd)"
    by (cases rendered) (auto simp: str_len_def)
qed

declare pop_while_longer.simps [simp del]

definition append_audit_piece :: "chars \<Rightarrow> chars \<Rightarrow> chars \<times> bool" where
  "append_audit_piece rendered piece =
     (if str_len rendered + str_len piece > MAX_AUDIT_VALUE_BYTES
      then (pop_while_longer (MAX_AUDIT_VALUE_BYTES - len_utf8 ellipsis) rendered @ [ellipsis], False)
      else (rendered @ piece, True))"

text \<open>\<open>char::is_control\<close> (the category Cc) and the format \<open>{:04X}\<close>.\<close>

definition is_control :: "nat \<Rightarrow> bool" where
  "is_control c \<longleftrightarrow> c < 32 \<or> (127 \<le> c \<and> c \<le> 159)"

definition upper_hex_digit :: "nat \<Rightarrow> nat" where
  "upper_hex_digit d = (if d < 10 then 48 + d else 55 + d)"

fun upper_hex :: "nat \<Rightarrow> chars" where
  "upper_hex n = (if n < 16 then [upper_hex_digit n] else upper_hex (n div 16) @ [upper_hex_digit (n mod 16)])"

declare upper_hex.simps [simp del]

definition format_04X :: "nat \<Rightarrow> chars" where
  "format_04X n = replicate (4 - length (upper_hex n)) 48 @ upper_hex n"

definition backslash :: nat where "backslash = 92"

definition audit_piece :: "nat \<Rightarrow> chars" where
  "audit_piece c =
     (if c = 13 then [backslash, 114]
      else if c = 10 then [backslash, 110]
      else if c = 9 then [backslash, 116]
      else if c = 0 then [backslash, 48]
      else if is_control c then [backslash, 117, 123] @ format_04X c @ [125]
      else [c])"

fun append_pieces :: "chars \<Rightarrow> chars \<Rightarrow> chars" where
  "append_pieces rendered [] = rendered"
| "append_pieces rendered (c # cs) =
     (case append_audit_piece rendered (audit_piece c) of
        (rendered', appended) \<Rightarrow> if \<not> appended then rendered' else append_pieces rendered' cs)"

definition sanitize_audit_value :: "chars \<Rightarrow> chars" where
  "sanitize_audit_value t = append_pieces [] t"

section \<open>What reaches the log\<close>

lemma str_len_append [simp]: "str_len (a @ b) = str_len a + str_len b"
  by (simp add: str_len_def)

lemma len_utf8_ellipsis [simp]: "len_utf8 ellipsis = 3"
  by code_simp

lemma str_len_single [simp]: "str_len [c] = len_utf8 c"
  by (simp add: str_len_def)

lemma pop_while_longer_len: "str_len (pop_while_longer limit cs) \<le> limit"
  by (induction limit cs rule: pop_while_longer.induct) (subst pop_while_longer.simps, auto)

lemma pop_while_longer_set: "set (pop_while_longer limit cs) \<subseteq> set cs"
proof (induction limit cs rule: pop_while_longer.induct)
  case (1 limit cs)
  have "set (butlast cs) \<subseteq> set cs" by (auto dest: in_set_butlastD)
  with 1 show ?case by (subst pop_while_longer.simps) auto
qed

lemma upper_hex_printable: "c \<in> set (upper_hex n) \<Longrightarrow> \<not> is_control c"
proof (induction n rule: upper_hex.induct)
  case (1 n)
  have d: "d < 16 \<Longrightarrow> \<not> is_control (upper_hex_digit d)" for d by (auto simp: upper_hex_digit_def is_control_def)
  have "c \<in> set (if n < 16 then [upper_hex_digit n] else upper_hex (n div 16) @ [upper_hex_digit (n mod 16)])"
    using 1(2) by (subst (asm) upper_hex.simps)
  with 1(1) d show ?case by (auto split: if_splits)
qed

lemma audit_piece_printable: "x \<in> set (audit_piece c) \<Longrightarrow> \<not> is_control x"
  by (auto simp: audit_piece_def is_control_def backslash_def format_04X_def
      dest: upper_hex_printable split: if_splits)

lemma append_pieces_printable:
  "\<forall>x \<in> set rendered. \<not> is_control x \<Longrightarrow> x \<in> set (append_pieces rendered cs) \<Longrightarrow> \<not> is_control x"
proof (induction rendered cs rule: append_pieces.induct)
  case (2 rendered c cs)
  have e: "\<not> is_control ellipsis" by code_simp
  show ?case
    using 2 e audit_piece_printable pop_while_longer_set
    by (auto simp: append_audit_piece_def split: if_splits) blast+
qed auto

lemma append_pieces_len:
  "str_len rendered \<le> MAX_AUDIT_VALUE_BYTES \<Longrightarrow> str_len (append_pieces rendered cs) \<le> MAX_AUDIT_VALUE_BYTES"
proof (induction rendered cs rule: append_pieces.induct)
  case (2 rendered c cs)
  have "str_len (pop_while_longer (MAX_AUDIT_VALUE_BYTES - 3) rendered) \<le> MAX_AUDIT_VALUE_BYTES - 3"
    by (rule pop_while_longer_len)
  with 2 show ?case by (auto simp: append_audit_piece_def MAX_AUDIT_VALUE_BYTES_def)
qed simp

text \<open>Whatever a client names, what the log gets is at most 256 bytes of UTF-8 and contains no control
  character: no line break, no tab, no escape that a terminal would obey.\<close>

theorem audit_value_bounded_and_printable:
  "str_len (sanitize_audit_value t) \<le> MAX_AUDIT_VALUE_BYTES
   \<and> list_all (\<lambda>c. \<not> is_control c) (sanitize_audit_value t)"
  using append_pieces_len [of "[]" t] append_pieces_printable [of "[]" _ t]
  by (auto simp: sanitize_audit_value_def list_all_iff str_len_def)

lemma append_pieces_plain:
  "list_all (\<lambda>c. \<not> is_control c) cs \<Longrightarrow> str_len rendered + str_len cs \<le> MAX_AUDIT_VALUE_BYTES \<Longrightarrow>
   append_pieces rendered cs = rendered @ cs"
proof (induction rendered cs rule: append_pieces.induct)
  case (2 rendered c cs)
  then have "audit_piece c = [c]" by (auto simp: audit_piece_def is_control_def)
  with 2 show ?case by (simp add: append_audit_piece_def str_len_def)
qed simp

text \<open>A value without control characters that fits is logged unchanged.\<close>

theorem audit_value_unchanged:
  assumes "list_all (\<lambda>c. \<not> is_control c) t" and "str_len t \<le> MAX_AUDIT_VALUE_BYTES"
  shows "sanitize_audit_value t = t"
  using append_pieces_plain [of t "[]"] assms by (simp add: sanitize_audit_value_def str_len_def)

theorem audit_value_unchanged_witness: "sanitize_audit_value (map byte_val ''work-1'') = map byte_val ''work-1''"
  by (rule audit_value_unchanged) code_simp+

end
