(* ===== verification/Server.thy ===== *)
theory Server
  imports Requests Receipts Config AuditValue
begin

text \<open>
  The daemon's shared state and its connections (\<open>src/server.rs\<close>): what one mutex protects, killing the
  active decrypt, the identity of a daemon process, reading a frame, choosing the lane of a connection and
  accepting or rejecting it, and what the audit line records.
\<close>

section \<open>State\<close>

record active_decrypt =
  ad_id :: request_id
  ad_process_group :: nat

text \<open>\<open>ss_killed\<close> is not in the code: it records, oldest first, the process groups that were sent
  \<open>SIGKILL\<close>.\<close>

record server_state =
  ss_instance :: string
  ss_registry :: registry
  ss_grants :: grant_table
  ss_receipts :: receipt_table
  ss_queue :: queue
  ss_store :: human_store
  ss_decryptor :: decryptor
  ss_config :: config
  ss_failures :: "(request_id \<times> err_code) list"
  ss_lock_epoch :: nat
  ss_active_decrypt :: "active_decrypt option"
  ss_killed :: "nat list"

text \<open>Two lowercase hexadecimal digits per byte, as \<open>{byte:02x}\<close> prints them.\<close>

definition random_instance_id :: "io_error + u8 list \<Rightarrow> io_error + string" where
  "random_instance_id read = and_then read (\<lambda>bytes. Inr (hex bytes))"

text \<open>The two reads of \<open>State::new\<close>, of the boot identity and of 16 random bytes, are arguments.\<close>

definition State_new :: "io_error + string \<Rightarrow> io_error + u8 list \<Rightarrow> config \<Rightarrow> io_error + server_state" where
  "State_new boot_read random_read c =
     and_then boot_read (\<lambda>boot.
     and_then (random_instance_id random_read) (\<lambda>instance_id.
       Inr \<lparr>ss_instance = instance_id,
            ss_registry = Registry_new (trim boot),
            ss_grants = GrantTable_default,
            ss_receipts = ReceiptTable_default,
            ss_queue = Queue_new \<lparr>ql_cooldown = cfg_cooldown c, ql_ttl = cfg_request_ttl c,
                                   ql_max_pending_per_scope = cfg_max_pending_per_scope c\<rparr>,
            ss_store = \<lparr>hs_sources = cfg_human_sources c\<rparr>,
            ss_decryptor = Config_decryptor c,
            ss_config = c,
            ss_failures = [],
            ss_lock_epoch = 0,
            ss_active_decrypt = None,
            ss_killed = []\<rparr>))"

definition killpg :: "nat \<Rightarrow> server_state \<Rightarrow> server_state" where
  "killpg pgid st = st\<lparr>ss_killed := ss_killed st @ [pgid]\<rparr>"

definition State_kill_active :: "request_id \<Rightarrow> server_state \<Rightarrow> server_state" where
  "State_kill_active i st =
     (case ss_active_decrypt st of
        Some active \<Rightarrow>
          if ad_id active = i then killpg (ad_process_group active) (st\<lparr>ss_active_decrypt := None\<rparr>) else st
      | None \<Rightarrow> st)"

section \<open>Who may connect\<close>

definition socket_activated :: "environment \<Rightarrow> nat \<Rightarrow> bool" where
  "socket_activated env process_id \<longleftrightarrow>
     env_var env ''LISTEN_FDS'' = Some ''1''
     \<and> Option.bind (env_var env ''LISTEN_PID'') (parse_unsigned 10 U32_MAX) = Some process_id"

definition activation_environment_present :: "environment \<Rightarrow> bool" where
  "activation_environment_present env \<longleftrightarrow> env ''LISTEN_FDS'' \<noteq> None \<or> env ''LISTEN_PID'' \<noteq> None"

definition peer_uid_is_authorized :: "nat \<Rightarrow> nat \<Rightarrow> bool" where
  "peer_uid_is_authorized peer_uid daemon_uid \<longleftrightarrow> peer_uid = daemon_uid"

text \<open>What the kernel answers about descriptor 3: its mode, its socket type, whether it listens, and whether
  its address is a Unix one.\<close>

record activation_fd =
  af_stat :: "32 word option"
  af_stream :: "bool option"
  af_listening :: "bool option"
  af_unix :: bool

definition validate_activated_listener :: "activation_fd \<Rightarrow> string + unit" where
  "validate_activated_listener fd =
     and_then (ok_or ''fstat'' (af_stat fd)) (\<lambda>mode.
     if \<not> sflag_contains mode S_IFSOCK then Inl ''activation fd is not a socket''
     else and_then (ok_or ''getsockopt'' (af_stream fd)) (\<lambda>stream.
     if \<not> stream then Inl ''activation fd is not a stream socket''
     else and_then (ok_or ''getsockopt'' (af_listening fd)) (\<lambda>listening.
     if \<not> listening then Inl ''activation socket is not listening''
     else if \<not> af_unix fd then Inl ''getsockname'' else Inr ())))"

datatype listener_kind = ActivatedListener | BoundListener string nat

text \<open>Which listener the daemon uses: the inherited one, or a socket bound at the configured path (after
  removing what is there) with mode 0600 (\<open>0x180\<close>). The three file operations are arguments.\<close>

record socket_ops =
  so_remove :: "string \<Rightarrow> io_kind option"
  so_bind :: "string \<Rightarrow> bool"
  so_set_permissions :: "string \<Rightarrow> nat \<Rightarrow> bool"

definition server_listener ::
  "environment \<Rightarrow> nat \<Rightarrow> activation_fd \<Rightarrow> socket_ops \<Rightarrow> config \<Rightarrow> string + listener_kind" where
  "server_listener env process_id fd ops c =
     (if socket_activated env process_id
      then and_then (validate_activated_listener fd) (\<lambda>_. Inr ActivatedListener)
      else if activation_environment_present env then Inl ''invalid socket activation environment''
      else if so_remove ops (cfg_socket_path c) = Some OtherKind then Inl ''remove_file''
      else if \<not> so_bind ops (cfg_socket_path c) then Inl ''bind''
      else if \<not> so_set_permissions ops (cfg_socket_path c) 0x180 then Inl ''set_permissions''
      else Inr (BoundListener (cfg_socket_path c) 0x180))"

section \<open>Frames\<close>

text \<open>The reads of a stream: each gives what arrived, an empty one the end of the stream, or fails. The
  buffer offered for a read has room for \<open>remaining\<close> bytes. \<open>None\<close> means that the loop waits for a read
  that the list does not have.\<close>

type_synonym stream_reads = "(io_error + string) list"

fun read_frame_loop :: "string \<Rightarrow> stream_reads \<Rightarrow> (io_error + string) option" where
  "read_frame_loop frame reads =
     (let remaining = (MAX_FRAME_BYTES + 1) - length frame in
      if remaining = 0 then Some (Inr frame)
      else case reads of
          [] \<Rightarrow> None
        | Inl err # _ \<Rightarrow> Some (Inl err)
        | Inr arrived # rest \<Rightarrow>
            let chunk = take remaining arrived in
            if chunk = [] then Some (Inr frame)
            else if newline \<in> set chunk
              then Some (Inr (frame @ takeWhile (\<lambda>c. c \<noteq> newline) chunk @ [newline]))
            else read_frame_loop (frame @ chunk) rest)"

declare read_frame_loop.simps [simp del]

definition read_frame :: "stream_reads \<Rightarrow> (io_error + string) option" where
  "read_frame reads = read_frame_loop [] reads"

text \<open>The request in a frame, as \<open>handle\<close> extracts it.\<close>

definition frame_request :: "string \<Rightarrow> request option" where
  "frame_request frame =
     Option.bind (strip_suffix [newline] frame) (\<lambda>line.
       if length line \<le> MAX_FRAME_BYTES then ok (parse_request line) else None)"

section \<open>Lanes\<close>

datatype connection_lane = MainLane | FastLane | ControlLane

fun request_lane :: "request \<Rightarrow> connection_lane" where
  "request_lane (Get _ _ _) = MainLane"
| "request_lane (RequestGrant _ _ _) = MainLane"
| "request_lane (Authorize _ _ _) = MainLane"
| "request_lane (Hello _) = FastLane"
| "request_lane (Register _ _ _) = FastLane"
| "request_lane (Unregister _) = FastLane"
| "request_lane Grants = FastLane"
| "request_lane (Redeem _ _) = FastLane"
| "request_lane (Deny _) = ControlLane"
| "request_lane Lock = ControlLane"

text \<open>What peeking at a new connection yields: bytes, nothing yet, or an error.\<close>

datatype peek = PeekBytes string | PeekAgain | PeekError

definition ready_request_lane :: "peek \<Rightarrow> string + connection_lane option" where
  "ready_request_lane p =
     (case p of
        PeekError \<Rightarrow> Inl ''recv''
      | PeekAgain \<Rightarrow> Inr None
      | PeekBytes arrived \<Rightarrow>
          (let bytes = take (MAX_FRAME_BYTES + 1) arrived in
           case split_inclusive newline bytes of
             [] \<Rightarrow> Inr None
           | frame # _ \<Rightarrow>
               (case strip_suffix [newline] frame of
                  None \<Rightarrow> Inr None
                | Some line \<Rightarrow>
                    if length line > MAX_FRAME_BYTES then Inr None
                    else Inr (map_option request_lane (ok (parse_request line))))))"

definition CONNECTION_QUEUE_DEPTH :: nat where "CONNECTION_QUEUE_DEPTH = 8"
definition FAST_CONNECTION_QUEUE_DEPTH :: nat where "FAST_CONNECTION_QUEUE_DEPTH = 8"
definition CONTROL_CONNECTION_QUEUE_DEPTH :: nat where "CONTROL_CONNECTION_QUEUE_DEPTH = 8"

definition CONNECTION_CAPACITY_RESPONSE :: string where
  "CONNECTION_CAPACITY_RESPONSE = ''ERR'' @ [tab] @ ''INTERNAL'' @ [tab] @ ''connection capacity reached'' @ [newline]"

text \<open>The three bounded channels, each with the connections that wait in it.\<close>

record 'c lanes =
  ln_main :: "'c list"
  ln_fast :: "'c list"
  ln_control :: "'c list"

datatype accept_result = Enqueued | RejectedWith string | RejectedSilently

definition try_send :: "nat \<Rightarrow> 'c \<Rightarrow> 'c list \<Rightarrow> 'c list option" where
  "try_send depth c waiting = (if length waiting < depth then Some (waiting @ [c]) else None)"

text \<open>One turn of the accept loop with a new connection; the channels never disconnect while their workers
  run. A full lane answers only a connection whose request it could read.\<close>

definition accept_connection :: "'c \<Rightarrow> peek \<Rightarrow> 'c lanes \<Rightarrow> 'c lanes \<times> accept_result" where
  "accept_connection c p l =
     (case ready_request_lane p of
        Inl _ \<Rightarrow> (l, RejectedSilently)
      | Inr lane \<Rightarrow>
          (let rejected = (if lane \<noteq> None then RejectedWith CONNECTION_CAPACITY_RESPONSE else RejectedSilently)
           in case lane of
                Some FastLane \<Rightarrow>
                  (case try_send FAST_CONNECTION_QUEUE_DEPTH c (ln_fast l) of
                     Some q \<Rightarrow> (l\<lparr>ln_fast := q\<rparr>, Enqueued) | None \<Rightarrow> (l, rejected))
              | Some ControlLane \<Rightarrow>
                  (case try_send CONTROL_CONNECTION_QUEUE_DEPTH c (ln_control l) of
                     Some q \<Rightarrow> (l\<lparr>ln_control := q\<rparr>, Enqueued) | None \<Rightarrow> (l, rejected))
              | _ \<Rightarrow>
                  (case try_send CONNECTION_QUEUE_DEPTH c (ln_main l) of
                     Some q \<Rightarrow> (l\<lparr>ln_main := q\<rparr>, Enqueued) | None \<Rightarrow> (l, rejected))))"

text \<open>What a full lane does with a connection it answers: the request is drained, whether it is there or not, and
  the response is sent without waiting, which may send less than all of it.\<close>

definition reject_complete_connection :: "string option \<Rightarrow> string + nat \<Rightarrow> string + unit" where
  "reject_complete_connection recv_error sent =
     (case recv_error of
        Some err \<Rightarrow> Inl err
      | None \<Rightarrow>
          and_then sent (\<lambda>bytes_sent.
            if bytes_sent \<noteq> length CONNECTION_CAPACITY_RESPONSE then Inl ''capacity response was only partially sent''
            else Inr ()))"

section \<open>The audit line\<close>

record audit_context =
  au_key :: chars
  au_untrusted_registered_session :: "chars option"
  au_registered_root_pid :: "int option"

definition str_chars :: "string \<Rightarrow> chars" where
  "str_chars s = (case utf8_decode s of Some cs \<Rightarrow> cs | None \<Rightarrow> [])"

fun request_key :: "request \<Rightarrow> string option" where
  "request_key (Get key _ _) = Some key"
| "request_key (RequestGrant key _ _) = Some key"
| "request_key _ = None"

text \<open>The token a request presents, where it is one of the three that may.\<close>

fun presented_token :: "request \<Rightarrow> string option" where
  "presented_token (Get _ token_hex _) = token_hex"
| "presented_token (RequestGrant _ token_hex _) = token_hex"
| "presented_token (Authorize _ token_hex _) = token_hex"
| "presented_token _ = None"

definition audit_key :: "request \<Rightarrow> chars" where
  "audit_key request =
     (case request of
        Authorize cap _ _ \<Rightarrow> sanitize_audit_value (str_chars (''CAP_'' @ map to_ascii_uppercase cap))
      | _ \<Rightarrow> (case request_key request of
                None \<Rightarrow> str_chars ''-'' | Some key \<Rightarrow> sanitize_audit_value (str_chars key)))"

definition make_audit_context :: "read_file \<Rightarrow> request \<Rightarrow> server_state \<Rightarrow> audit_context" where
  "make_audit_context rd request st =
     (let audit = \<lparr>au_key = audit_key request, au_untrusted_registered_session = None, au_registered_root_pid = None\<rparr>
      in case request of
           Register _ session _ \<Rightarrow> audit\<lparr>au_untrusted_registered_session := Some (sanitize_audit_value (str_chars session))\<rparr>
         | _ \<Rightarrow>
             (case Option.bind (presented_token request) (\<lambda>h. ok (SessionToken_parse_hex h)) of
                None \<Rightarrow> audit
              | Some token \<Rightarrow>
                  (case Registry_registration (ss_registry st) token of
                     None \<Rightarrow> audit
                   | Some r \<Rightarrow>
                       audit\<lparr>au_untrusted_registered_session := Some (sanitize_audit_value (str_chars (reg_session r))),
                             au_registered_root_pid := PeerIdentity_pid rd (reg_root r)\<rparr>)))"

section \<open>Reading a frame\<close>

lemma read_frame_loop_line:
  assumes "frame @ concat chunks = line @ newline # tail" and "newline \<notin> set frame" and "newline \<notin> set line"
    and "length line \<le> MAX_FRAME_BYTES" and "[] \<notin> set chunks"
  shows "read_frame_loop frame (map Inr chunks @ rest) = Some (Inr (line @ [newline]))"
  using assms
proof (induction chunks arbitrary: frame)
  case Nil
  then have "newline \<in> set frame" by simp
  with Nil show ?case by simp
next
  case (Cons chunk chunks)
  obtain missing where m: "line = frame @ missing"
    using Cons.prems(1,2,3) by (auto simp: append_eq_append_conv2 append_eq_Cons_conv)
  then have eq: "chunk @ concat chunks = missing @ newline # tail" using Cons.prems(1) by simp
  let ?r = "(MAX_FRAME_BYTES + 1) - length frame"
  have r: "length missing < ?r" "?r \<noteq> 0" using Cons.prems(4) m by auto
  show ?case
  proof (cases "length missing < length chunk")
    case True
    then obtain more where c: "chunk = missing @ newline # more"
      using eq by (auto simp: append_eq_append_conv2 append_eq_Cons_conv)
    then have t: "take ?r chunk = missing @ newline # take (?r - Suc (length missing)) more"
      using r(1) by (simp add: take_Cons' )
    have "takeWhile (\<lambda>c. c \<noteq> newline) (missing @ newline # take (?r - Suc (length missing)) more) = missing"
      using Cons.prems(3) m by (subst takeWhile_append2) auto
    with r t m show ?thesis by (subst read_frame_loop.simps) (simp add: Let_def)
  next
    case False
    then obtain more where c: "missing = chunk @ more"
      using eq by (auto simp: append_eq_append_conv2 append_eq_Cons_conv)
    then have t: "take ?r chunk = chunk" using r(1) by simp
    have "newline \<notin> set chunk" "chunk \<noteq> []" using c Cons.prems(3,5) m by auto
    then have "read_frame_loop frame (map Inr (chunk # chunks) @ rest) = read_frame_loop (frame @ chunk) (map Inr chunks @ rest)"
      using r t by (subst read_frame_loop.simps) (simp add: Let_def)
    also have "\<dots> = Some (Inr (line @ [newline]))"
      by (rule Cons.IH) (use Cons.prems \<open>newline \<notin> set chunk\<close> in auto)
    finally show ?thesis .
  qed
qed

text \<open>A frame is read whole and never past its end. If the bytes that arrive, in whatever pieces, are a
  line of at most 4096 bytes without a newline, a newline, and anything after it, then the frame read is
  exactly that line with its newline, and the request in it is what the parser makes of the line.\<close>

theorem frame_read_whole:
  assumes "concat chunks = line @ newline # tail" and "newline \<notin> set line"
    and "length line \<le> MAX_FRAME_BYTES" and "[] \<notin> set chunks"
  shows "\<exists>frame. read_frame (map Inr chunks @ rest) = Some (Inr frame) \<and> frame = line @ [newline]
     \<and> frame_request frame = ok (parse_request line)"
  using read_frame_loop_line [of "[]" chunks line tail rest] assms
  by (simp add: read_frame_def frame_request_def)

theorem frame_read_whole_witness:
  "\<exists>frame. read_frame (map Inr [''LO'', ''CK'' @ [newline]] @ []) = Some (Inr frame) \<and> frame = ''LOCK'' @ [newline]
     \<and> frame_request frame = ok (parse_request ''LOCK'')"
  by (rule frame_read_whole [where tail = "[]"]) (simp_all add: newline_def MAX_FRAME_BYTES_def)

end
