(* ===== verification/Dispatch.thy ===== *)
theory Dispatch
  imports Server
begin

text \<open>
  Handling one request (\<open>src/server/approval.rs\<close>, \<open>src/server/dispatch.rs\<close>). Every stretch of code that
  holds the state's mutex is one definition on the state; a handler that gives the mutex up in between is a
  program counter (\<open>handler_pc\<close>) that \<open>handler_step\<close> moves from one such stretch to the next. What a step
  reads of the world (the clock, \<open>/proc\<close>, the file system, the random source) is its argument.
\<close>

text \<open>The world as one stretch sees it: files under \<open>/proc\<close>, the file system, the clock at its first,
  second and third reading, and the random source.\<close>

record world =
  wo_read :: read_file
  wo_fs :: filesystem
  wo_now :: instant
  wo_now2 :: instant
  wo_now3 :: instant
  wo_random :: urandom

section \<open>Outcomes\<close>

datatype outcome =
    OutOk
  | OutFields string
  | OutPayload string
  | OutBytes secret_bytes
  | OutReceipt string
  | OutFailed err_code string

record decision =
  de_outcome :: outcome
  de_scope_kind :: "scope_kind option"
  de_source :: "string option"
  de_request_id :: "request_id option"

fun Outcome_released_bytes :: "outcome \<Rightarrow> nat option" where
  "Outcome_released_bytes (OutBytes v) = Some (length v)"
| "Outcome_released_bytes _ = None"

fun Outcome_decision :: "outcome \<Rightarrow> string" where
  "Outcome_decision (OutFailed code _) = ErrCode_wire code"
| "Outcome_decision _ = ''ok''"

text \<open>\<open>Debug\<close> of an outcome: the constructor and the fields it shows; the bytes of a secret are shown as
  their own redacted \<open>Debug\<close>.\<close>

fun Outcome_fmt :: "outcome \<Rightarrow> string \<times> debug_value list" where
  "Outcome_fmt OutOk = (''Ok'', [])"
| "Outcome_fmt (OutFields fs) = (''Fields'', [DebugStr fs])"
| "Outcome_fmt (OutPayload payload) = (''Payload'', [DebugBytes payload])"
| "Outcome_fmt (OutBytes v) = (''Bytes'', [SecretBytes_fmt v])"
| "Outcome_fmt (OutReceipt _) = (''Receipt(<redacted>)'', [])"
| "Outcome_fmt (OutFailed code message) = (''Failed'', [DebugCode code, DebugStr message])"

text \<open>A decision that carries an outcome and nothing else.\<close>

definition plain_decision :: "outcome \<Rightarrow> decision" where
  "plain_decision out = \<lparr>de_outcome = out, de_scope_kind = None, de_source = None, de_request_id = None\<rparr>"

section \<open>Approval\<close>

record access =
  ac_key :: string
  ac_token_hex :: "string option"
  ac_tty :: "string option"

definition Access_fmt :: "access \<Rightarrow> debug_value" where
  "Access_fmt access =
     DebugStruct ''Access''
       [(''key'', DebugStr (ac_key access)), (''token_present'', DebugBool (ac_token_hex access \<noteq> None)),
        (''tty'', DebugOpt (ac_tty access))]"

datatype approval =
    ApprovalGranted "string option" "request_id option"
  | ApprovalRefused err_code
  | ApprovalIncomplete err_code request_id

definition parse_token :: "string option \<Rightarrow> err_code + session_token option" where
  "parse_token token_hex =
     (case token_hex of
        None \<Rightarrow> Inr None
      | Some h \<Rightarrow> and_then (SessionToken_parse_hex h) (\<lambda>t. Inr (Some t)))"

definition resolve_access ::
  "world \<Rightarrow> access \<Rightarrow> peer_identity \<Rightarrow> server_state \<Rightarrow> server_state \<times> (err_code + scope \<times> secret_name)" where
  "resolve_access w access caller st =
     (case SecretName_parse (ac_key access) of
        Inl err \<Rightarrow> (st, Inl err)
      | Inr key \<Rightarrow>
          (case parse_token (ac_token_hex access) of
             Inl err \<Rightarrow> (st, Inl err)
           | Inr token \<Rightarrow>
               (case Registry_resolve (wo_read w) token (ac_tty access) (Some caller) (ss_registry st) of
                  (reg, res) \<Rightarrow>
                    (st\<lparr>ss_registry := reg\<rparr>, and_then res (\<lambda>s. Inr (s, key))))))"

text \<open>The grant check at the head of \<open>await_approval\<close>: an approval from the cache, or the state from which
  the request goes on. A cached grant whose file changed, or that a fresh ceremony must not use, is
  revoked.\<close>

definition check_grant ::
  "world \<Rightarrow> scope \<Rightarrow> secret_name \<Rightarrow> bool \<Rightarrow> server_state \<Rightarrow> server_state \<times> approval option" where
  "check_grant w s key force_fresh st =
     (case GrantTable_lookup (ss_grants st) s key of
        None \<Rightarrow> (st, None)
      | Some (_, source, ident) \<Rightarrow>
          (let revoked = st\<lparr>ss_grants := GrantTable_revoke s key (ss_grants st)\<rparr> in
           if HumanStore_identity (wo_fs w) (ss_store st) key = Inr ident
           then (if force_fresh then (revoked, None) else (st, Some (ApprovalGranted (Some source) None)))
           else (revoked, None)))"

text \<open>What \<open>await_approval\<close> is waiting for: a request, the deadline, and the source it will report.\<close>

record waiting =
  wa_id :: request_id
  wa_deadline :: instant
  wa_source :: string

definition enter_queue ::
  "world \<Rightarrow> scope \<Rightarrow> secret_name \<Rightarrow> server_state \<Rightarrow> server_state \<times> (approval + waiting)" where
  "enter_queue w s key st =
     (case HumanStore_locate (wo_fs w) (ss_store st) key of
        Inl err \<Rightarrow> (st, Inl (ApprovalRefused err))
      | Inr source \<Rightarrow>
          (case instant_checked_add (wo_now w) (cfg_request_ttl (ss_config st)) of
             None \<Rightarrow> (st, Inl (ApprovalRefused Internal))
           | Some deadline \<Rightarrow>
               (case Queue_enqueue s key (wo_now w) (ss_queue st) of
                  (q, Inl err) \<Rightarrow> (st\<lparr>ss_queue := q\<rparr>, Inl (ApprovalRefused err))
                | (q, Inr i) \<Rightarrow>
                    (st\<lparr>ss_queue := q\<rparr>, Inr \<lparr>wa_id = i, wa_deadline = deadline, wa_source = source\<rparr>))))"

text \<open>One turn of the waiting loop, from taking the mutex to giving it up: \<open>None\<close> is another wait.\<close>

definition poll_approval :: "world \<Rightarrow> waiting \<Rightarrow> server_state \<Rightarrow> server_state \<times> approval option" where
  "poll_approval w wa st =
     (let i = wa_id wa in
      case Queue_state_of (ss_queue st) i of
        Some StGranted \<Rightarrow> (st, Some (ApprovalGranted (Some (wa_source wa)) (Some i)))
      | Some StDenied \<Rightarrow> (st, Some (ApprovalIncomplete Denied i))
      | Some StTimedOut \<Rightarrow> (st, Some (ApprovalIncomplete Timeout i))
      | Some StFailed \<Rightarrow>
          (st, Some (ApprovalIncomplete
             (case find (\<lambda>(j, _). j = i) (ss_failures st) of None \<Rightarrow> Internal | Some (_, err) \<Rightarrow> err) i))
      | None \<Rightarrow> (st, Some (ApprovalIncomplete Internal i))
      | Some _ \<Rightarrow>
          (case checked_duration_since (wa_deadline wa) (wo_now w) of
             None \<Rightarrow>
               (State_kill_active i (st\<lparr>ss_queue := fst (Queue_timeout i (wo_now2 w) (ss_queue st))\<rparr>),
                Some (ApprovalIncomplete Timeout i))
           | Some remaining \<Rightarrow> (st, None)))"

text \<open>The first stretch of \<open>await_approval\<close>, up to the first wait. It reads the clock when the request enters
  the queue, and again in the first turn of the loop.\<close>

definition later_world :: "world \<Rightarrow> world" where
  "later_world w = w\<lparr>wo_now := wo_now2 w, wo_now2 := wo_now3 w\<rparr>"

definition await_enter ::
  "world \<Rightarrow> scope \<Rightarrow> secret_name \<Rightarrow> bool \<Rightarrow> server_state \<Rightarrow> server_state \<times> (approval + waiting)" where
  "await_enter w s key force_fresh st =
     (case check_grant w s key force_fresh st of
        (st1, Some app) \<Rightarrow> (st1, Inl app)
      | (st1, None) \<Rightarrow>
          (case enter_queue w s key st1 of
             (st2, Inl app) \<Rightarrow> (st2, Inl app)
           | (st2, Inr wa) \<Rightarrow>
               (case poll_approval (later_world w) wa st2 of
                  (st3, Some app) \<Rightarrow> (st3, Inl app)
                | (st3, None) \<Rightarrow> (st3, Inr wa))))"

section \<open>Operations that take the mutex once\<close>

definition dispatch_register ::
  "string \<Rightarrow> string \<Rightarrow> peer_identity \<Rightarrow> server_state \<Rightarrow> server_state \<times> decision" where
  "dispatch_register token_hex session root st =
     (case SessionToken_parse_hex token_hex of
        Inl err \<Rightarrow> (st, plain_decision (OutFailed err ''invalid session token''))
      | Inr token \<Rightarrow>
          (case Registry_register \<lparr>reg_token = token, reg_session = session, reg_root = root\<rparr> (ss_registry st) of
             (reg, Inr displaced) \<Rightarrow>
               (st\<lparr>ss_registry := reg, ss_grants := GrantTable_revoke_tokens displaced (ss_grants st)\<rparr>,
                (plain_decision OutOk)\<lparr>de_scope_kind := Some VerifiedSession\<rparr>)
           | (reg, Inl err) \<Rightarrow>
               (st\<lparr>ss_registry := reg\<rparr>,
                plain_decision (OutFailed err ''token is already bound to another session''))))"

definition dispatch_unregister :: "string \<Rightarrow> server_state \<Rightarrow> server_state \<times> decision" where
  "dispatch_unregister session st =
     (case Registry_unregister session (ss_registry st) of
        (reg, tokens) \<Rightarrow>
          (st\<lparr>ss_registry := reg, ss_grants := GrantTable_revoke_tokens tokens (ss_grants st)\<rparr>,
           plain_decision OutOk))"

definition dispatch_grants :: "world \<Rightarrow> server_state \<Rightarrow> server_state \<times> decision" where
  "dispatch_grants w st = (st, plain_decision (OutPayload (GrantTable_render (wo_now w) (ss_grants st))))"

fun receipt_mint_failure :: "io_error \<Rightarrow> outcome" where
  "receipt_mint_failure WouldBlock = OutFailed TooManyPending ''too many outstanding receipts''"
| "receipt_mint_failure OtherIo = OutFailed Internal ''receipt entropy unavailable''"

text \<open>A mint that is still drawing identifiers has not finished: \<open>None\<close>.\<close>

definition finish_authorization ::
  "world \<Rightarrow> capability \<Rightarrow> nat \<Rightarrow> decision \<Rightarrow> server_state \<Rightarrow> (server_state \<times> decision) option" where
  "finish_authorization w cap epoch_before d st =
     (case (de_outcome d, de_request_id d) of
        (OutFields _, Some _) \<Rightarrow>
          if ss_lock_epoch st = epoch_before then
            (case ReceiptTable_mint (wo_random w) cap (wo_now w) (ss_receipts st) of
               (t, None) \<Rightarrow> None
             | (t, Some (Inl err)) \<Rightarrow> Some (st\<lparr>ss_receipts := t\<rparr>, d\<lparr>de_outcome := receipt_mint_failure err\<rparr>)
             | (t, Some (Inr receipt)) \<Rightarrow> Some (st\<lparr>ss_receipts := t\<rparr>, d\<lparr>de_outcome := OutReceipt receipt\<rparr>))
          else Some (st, d\<lparr>de_outcome := OutFailed Denied ''locked during authorization''\<rparr>)
      | _ \<Rightarrow> Some (st, d))"

definition dispatch_deny :: "world \<Rightarrow> request_id \<Rightarrow> server_state \<Rightarrow> server_state \<times> decision" where
  "dispatch_deny w i st =
     (case Queue_deny i (wo_now w) (ss_queue st) of
        (q, True) \<Rightarrow> (State_kill_active i (st\<lparr>ss_queue := q\<rparr>), plain_decision OutOk)
      | (q, False) \<Rightarrow>
          (st\<lparr>ss_queue := q\<rparr>, plain_decision (OutFailed BadRequest ''request is not pending'')))"

definition dispatch_redeem :: "world \<Rightarrow> string \<Rightarrow> string \<Rightarrow> server_state \<Rightarrow> server_state \<times> decision" where
  "dispatch_redeem w receipt_hex expected_cap st =
     (case Capability_parse expected_cap of
        Inl err \<Rightarrow> (st, plain_decision (OutFailed err ''invalid capability name''))
      | Inr cap \<Rightarrow>
          (case ReceiptTable_redeem receipt_hex cap (wo_now w) (ss_receipts st) of
             (t, redeemed) \<Rightarrow>
               (st\<lparr>ss_receipts := t\<rparr>,
                plain_decision
                  (case redeemed of
                     None \<Rightarrow> OutFailed Denied ''receipt is not redeemable''
                   | Some c \<Rightarrow> OutFields (''status=redeemed cap='' @ cap_str c)))))"

definition dispatch_lock :: "world \<Rightarrow> server_state \<Rightarrow> server_state \<times> decision" where
  "dispatch_lock w st =
     (let st1 = st\<lparr>ss_grants := GrantTable_revoke_all (ss_grants st),
                   ss_receipts := ReceiptTable_clear (ss_receipts st),
                   ss_lock_epoch := saturating_add_u64 (ss_lock_epoch st) 1\<rparr>
      in (case ss_active_decrypt st1 of
            None \<Rightarrow> st1
          | Some active \<Rightarrow>
              killpg (ad_process_group active)
                (st1\<lparr>ss_active_decrypt := None,
                     ss_queue := fst (Queue_deny (ad_id active) (wo_now w) (ss_queue st1))\<rparr>),
          plain_decision OutOk))"

definition dispatch_hello :: "nat \<Rightarrow> server_state \<Rightarrow> server_state \<times> decision" where
  "dispatch_hello version st =
     (st, plain_decision
        (if version = PROTOCOL_VERSION
         then OutFields (''version='' @ nat_to_string PROTOCOL_VERSION @ '' instance='' @ ss_instance st)
         else OutFailed VersionMismatch ''unsupported protocol version''))"

section \<open>A handler as a sequence of stretches\<close>

text \<open>What an access is for: the value, the grant, or an authorization that began in a lock epoch.\<close>

datatype purpose = ForValue | ForGrant | ForReceipt capability nat

definition wants_value :: "purpose \<Rightarrow> bool" where "wants_value p \<longleftrightarrow> p = ForValue"

fun forces_fresh :: "purpose \<Rightarrow> bool" where
  "forces_fresh (ForReceipt _ _) = True"
| "forces_fresh _ = False"

datatype handler_pc =
    PcStart request
  | PcAuthorize capability access
  | PcResolve purpose access
  | PcEnter purpose scope secret_name
  | PcWait purpose scope secret_name waiting
  | PcRelease scope secret_name "string option" "request_id option"
  | PcMint capability nat decision
  | PcDone decision

text \<open>The end of \<open>dispatch_access\<close>, where an authorization still has its receipt to mint.\<close>

fun access_done :: "purpose \<Rightarrow> decision \<Rightarrow> handler_pc" where
  "access_done (ForReceipt cap epoch) d = PcMint cap epoch d"
| "access_done _ d = PcDone d"

definition approved :: "purpose \<Rightarrow> scope \<Rightarrow> secret_name \<Rightarrow> approval \<Rightarrow> handler_pc" where
  "approved p s key app =
     (case app of
        ApprovalRefused err \<Rightarrow>
          access_done p \<lparr>de_outcome = OutFailed err ''request refused'', de_scope_kind = Some (Scope_kind s),
                         de_source = None, de_request_id = None\<rparr>
      | ApprovalIncomplete err i \<Rightarrow>
          access_done p \<lparr>de_outcome = OutFailed err ''approval did not complete'',
                         de_scope_kind = Some (Scope_kind s), de_source = None, de_request_id = Some i\<rparr>
      | ApprovalGranted source i \<Rightarrow>
          if wants_value p then PcRelease s key source i
          else access_done p \<lparr>de_outcome = OutFields ''status=granted'', de_scope_kind = Some (Scope_kind s),
                              de_source = source, de_request_id = i\<rparr>)"

definition release_value ::
  "scope \<Rightarrow> secret_name \<Rightarrow> string option \<Rightarrow> request_id option \<Rightarrow> server_state \<Rightarrow> decision" where
  "release_value s key source i st =
     \<lparr>de_outcome =
        (case GrantTable_lookup (ss_grants st) s key of
           None \<Rightarrow> OutFailed Internal ''grant disappeared''
         | Some (v, _, _) \<Rightarrow> OutBytes v),
      de_scope_kind = Some (Scope_kind s), de_source = source, de_request_id = i\<rparr>"

text \<open>The \<open>match\<close> of \<open>dispatch\<close>.\<close>

definition dispatch_start ::
  "world \<Rightarrow> peer_identity \<Rightarrow> request \<Rightarrow> server_state \<Rightarrow> server_state \<times> handler_pc" where
  "dispatch_start w caller request st =
     (let single = (\<lambda>(st', d). (st', PcDone d));
          no_value = (st, PcDone (plain_decision
            (OutFailed NotHumanKey ''capability keys hold no retrievable value'')))
      in case request of
           Hello version \<Rightarrow> single (dispatch_hello version st)
         | Register token_hex session _ \<Rightarrow> single (dispatch_register token_hex session caller st)
         | Unregister session \<Rightarrow> single (dispatch_unregister session st)
         | Get key token_hex tty \<Rightarrow>
             if is_capability_key key then no_value
             else (st, PcResolve ForValue \<lparr>ac_key = key, ac_token_hex = token_hex, ac_tty = tty\<rparr>)
         | RequestGrant key token_hex tty \<Rightarrow>
             if is_capability_key key then no_value
             else (st, PcResolve ForGrant \<lparr>ac_key = key, ac_token_hex = token_hex, ac_tty = tty\<rparr>)
         | Grants \<Rightarrow> single (dispatch_grants w st)
         | Deny i \<Rightarrow> single (dispatch_deny w i st)
         | Lock \<Rightarrow> single (dispatch_lock w st)
         | Authorize cap token_hex tty \<Rightarrow>
             (case Capability_parse cap of
                Inl err \<Rightarrow> (st, PcDone (plain_decision (OutFailed err ''invalid capability name'')))
              | Inr c \<Rightarrow>
                  (st, PcAuthorize c \<lparr>ac_key = Capability_key_name c, ac_token_hex = token_hex, ac_tty = tty\<rparr>))
         | Redeem receipt_hex cap \<Rightarrow> single (dispatch_redeem w receipt_hex cap st))"

definition handler_step ::
  "world \<Rightarrow> peer_identity \<Rightarrow> handler_pc \<Rightarrow> server_state \<Rightarrow> server_state \<times> handler_pc" where
  "handler_step w caller pc st =
     (case pc of
        PcStart request \<Rightarrow> dispatch_start w caller request st
      | PcAuthorize cap access \<Rightarrow> (st, PcResolve (ForReceipt cap (ss_lock_epoch st)) access)
      | PcResolve p access \<Rightarrow>
          (case resolve_access w access caller st of
             (st', Inl err) \<Rightarrow>
               (st', access_done p (plain_decision (OutFailed err ''request has no usable scope'')))
           | (st', Inr (s, key)) \<Rightarrow> (st', PcEnter p s key))
      | PcEnter p s key \<Rightarrow>
          (case await_enter w s key (forces_fresh p) st of
             (st', Inl app) \<Rightarrow> (st', approved p s key app)
           | (st', Inr wa) \<Rightarrow> (st', PcWait p s key wa))
      | PcWait p s key wa \<Rightarrow>
          (case poll_approval w wa st of
             (st', Some app) \<Rightarrow> (st', approved p s key app)
           | (st', None) \<Rightarrow> (st', pc))
      | PcRelease s key source i \<Rightarrow> (st, PcDone (release_value s key source i st))
      | PcMint cap epoch d \<Rightarrow>
          (case finish_authorization w cap epoch d st of
             None \<Rightarrow> (st, pc)
           | Some (st', d') \<Rightarrow> (st', PcDone d'))
      | PcDone d \<Rightarrow> (st, pc))"

section \<open>The answer on the wire\<close>

definition response_bytes :: "outcome \<Rightarrow> string" where
  "response_bytes out =
     (case out of
        OutOk \<Rightarrow> format_response RespOk
      | OutFields fs \<Rightarrow> format_response (RespOkFields fs)
      | OutPayload payload \<Rightarrow> format_response (RespOkBytes (length payload)) @ payload
      | OutBytes v \<Rightarrow> format_response (RespOkBytes (length v)) @ v
      | OutReceipt receipt \<Rightarrow> ''OK'' @ [tab] @ ''status=authorized receipt='' @ receipt @ [newline]
      | OutFailed code message \<Rightarrow> format_response (RespFailed code message))"

text \<open>The same as the \<open>write_all\<close> calls that make it.\<close>

definition response_writes :: "outcome \<Rightarrow> string list" where
  "response_writes out =
     (case out of
        OutOk \<Rightarrow> [format_response RespOk]
      | OutFields fs \<Rightarrow> [format_response (RespOkFields fs)]
      | OutPayload payload \<Rightarrow> [format_response (RespOkBytes (length payload)), payload]
      | OutBytes v \<Rightarrow> [format_response (RespOkBytes (length v)), v]
      | OutReceipt receipt \<Rightarrow> [''OK'' @ [tab] @ ''status=authorized receipt='', receipt, [newline]]
      | OutFailed code message \<Rightarrow> [format_response (RespFailed code message)])"

lemma concat_response_writes [simp]: "concat (response_writes out) = response_bytes out"
  by (cases out) (simp_all add: response_writes_def response_bytes_def)

text \<open>What the other end of a connection takes of an answer: all of it; or so many bytes, after which writing
  fails, because it has hung up; or so many bytes, as many as the socket buffers, after which it neither reads nor
  hangs up. No write timeout is set, so that \<open>write_all\<close> then does not return: \<open>None\<close>. Otherwise the result is all
  that was written so far, and whether the call succeeded.\<close>

datatype peer_takes = TakesAll | TakesThenFails nat | TakesThenBlocks nat

fun write_all :: "peer_takes \<Rightarrow> string \<Rightarrow> string \<Rightarrow> (string \<times> bool) option" where
  "write_all TakesAll written bytes = Some (written @ bytes, True)"
| "write_all (TakesThenFails k) written bytes =
     Some (if length (written @ bytes) \<le> k then (written @ bytes, True) else (take k (written @ bytes), False))"
| "write_all (TakesThenBlocks k) written bytes =
     (if length (written @ bytes) \<le> k then Some (written @ bytes, True) else None)"

fun write_calls :: "peer_takes \<Rightarrow> string \<Rightarrow> string list \<Rightarrow> (string \<times> bool) option" where
  "write_calls p written [] = Some (written, True)"
| "write_calls p written (bytes # calls) =
     (case write_all p written bytes of
        Some (written', True) \<Rightarrow> write_calls p written' calls
      | res \<Rightarrow> res)"

definition write_response :: "peer_takes \<Rightarrow> outcome \<Rightarrow> (string \<times> bool) option" where
  "write_response p out = write_calls p [] (response_writes out)"

text \<open>In effect an answer is one sequence of bytes.\<close>

lemma write_calls_TakesAll: "write_calls TakesAll written cs = Some (written @ concat cs, True)"
  by (induction cs arbitrary: written) simp_all

lemma write_calls_TakesThenFails:
  "length written \<le> k \<Longrightarrow> write_calls (TakesThenFails k) written cs =
     Some (take k (written @ concat cs), length (written @ concat cs) \<le> k)"
proof (induction cs arbitrary: written)
  case (Cons c cs)
  then show ?case by (cases "length (written @ c) \<le> k") auto
qed simp

lemma write_calls_TakesThenBlocks:
  "length written \<le> k \<Longrightarrow> write_calls (TakesThenBlocks k) written cs =
     (if length (written @ concat cs) \<le> k then Some (written @ concat cs, True) else None)"
proof (induction cs arbitrary: written)
  case (Cons c cs)
  then show ?case by (cases "length (written @ c) \<le> k") auto
qed simp

lemma write_response_simps [simp]:
  "write_response TakesAll out = Some (response_bytes out, True)"
  "write_response (TakesThenFails k) out = Some (take k (response_bytes out), length (response_bytes out) \<le> k)"
  "write_response (TakesThenBlocks k) out = (if length (response_bytes out) \<le> k then Some (response_bytes out, True) else None)"
  by (simp_all add: write_response_def write_calls_TakesAll write_calls_TakesThenFails write_calls_TakesThenBlocks)

section \<open>A connection\<close>

text \<open>What \<open>handle\<close> sees of a connection before it dispatches: whether the read timeout can be set, the peer's
  user id, the answer to \<open>SO_PEERPIDFD\<close> and the reads of the frame.\<close>

record incoming =
  in_set_timeout :: "io_error option"
  in_peer_uid :: "io_error + nat"
  in_sockopt :: "int \<times> int"
  in_reads :: stream_reads

datatype handle_error = HandleIo io_error | HandlePermissionDenied | HandleNoIdentity

text \<open>\<open>handle\<close> up to the dispatch: who calls, and where the handler starts. A frame without a request is
  answered without a dispatch; every earlier failure closes the connection without an answer.\<close>

definition handle_admit :: "nat \<Rightarrow> incoming \<Rightarrow> (handle_error + peer_identity \<times> handler_pc) option" where
  "handle_admit euid c =
     (case in_set_timeout c of
        Some err \<Rightarrow> Some (Inl (HandleIo err))
      | None \<Rightarrow>
          (case in_peer_uid c of
             Inl err \<Rightarrow> Some (Inl (HandleIo err))
           | Inr uid \<Rightarrow>
               if \<not> peer_uid_is_authorized uid euid then Some (Inl HandlePermissionDenied)
               else case PeerIdentity_from_stream (in_sockopt c) of
                   Inl _ \<Rightarrow> Some (Inl HandleNoIdentity)
                 | Inr caller \<Rightarrow>
                     (case read_frame (in_reads c) of
                        None \<Rightarrow> None
                      | Some (Inl err) \<Rightarrow> Some (Inl (HandleIo err))
                      | Some (Inr frame) \<Rightarrow>
                          (case frame_request frame of
                             None \<Rightarrow> Some (Inr (caller, PcDone (plain_decision (OutFailed BadRequest ''invalid request frame''))))
                           | Some request \<Rightarrow> Some (Inr (caller, PcStart request))))))"

text \<open>The line the daemon logs for a request it handled.\<close>

record audit_event =
  ae_key :: chars
  ae_source :: chars
  ae_peer_pid :: int
  ae_caller_pid :: "int option"
  ae_scope_kind :: "scope_kind option"
  ae_untrusted_registered_session :: "chars option"
  ae_registered_root_pid :: "int option"
  ae_request_id :: "request_id option"
  ae_decision :: string
  ae_released_bytes :: "nat option"

definition audit_handled :: "audit_context \<Rightarrow> int \<Rightarrow> int option \<Rightarrow> decision \<Rightarrow> audit_event" where
  "audit_handled audit peer_pid caller_pid d =
     \<lparr>ae_key = au_key audit,
      ae_source = (case de_source d of None \<Rightarrow> str_chars ''-'' | Some s \<Rightarrow> sanitize_audit_value (str_chars s)),
      ae_peer_pid = peer_pid, ae_caller_pid = caller_pid, ae_scope_kind = de_scope_kind d,
      ae_untrusted_registered_session = au_untrusted_registered_session audit,
      ae_registered_root_pid = au_registered_root_pid audit, ae_request_id = de_request_id d,
      ae_decision = Outcome_decision (de_outcome d), ae_released_bytes = Outcome_released_bytes (de_outcome d)\<rparr>"

text \<open>A request is dispatched only for the daemon's own user and for a caller the kernel identified.\<close>

lemma handle_admit_start:
  "handle_admit euid c = Some (Inr (caller, PcStart request)) \<Longrightarrow>
     in_peer_uid c = Inr euid \<and> PeerIdentity_from_stream (in_sockopt c) = Inr caller
     \<and> (\<exists>frame. read_frame (in_reads c) = Some (Inr frame) \<and> frame_request frame = Some request)"
  by (auto simp: handle_admit_def peer_uid_is_authorized_def split: option.splits sum.splits if_splits)

end
