(* ===== verification/Worker.thy ===== *)
theory Worker
  imports Dispatch
begin

text \<open>
  The approval worker (\<open>src/server/worker.rs\<close>): the one thread that runs \<open>sops\<close>. Its loop takes the mutex
  to tidy up and pick a request, gives it up to decrypt, takes it to record the process group, and takes it
  again to settle the request; each of these is one definition, and \<open>worker_step\<close> goes from one to the
  next. What decrypting observes is an argument (\<open>sops_run\<close>).
\<close>

record worker_job =
  jb_id :: request_id
  jb_scope :: scope
  jb_key :: secret_name
  jb_generation :: nat
  jb_lock_epoch :: nat
  jb_store :: human_store
  jb_decryptor :: decryptor

text \<open>The head of the loop: expired requests, expired grants and vanished terminals, old requests, old
  receipts, and failures of requests that are gone.\<close>

definition worker_tidy :: "world \<Rightarrow> server_state \<Rightarrow> server_state" where
  "worker_tidy w st =
     (let now = wo_now w;
          swept = Queue_sweep_timeouts now (ss_queue st);
          st1 = fold State_kill_active (snd swept) (st\<lparr>ss_queue := fst swept\<rparr>);
          grants1 = fst (GrantTable_revoke_expired now (cfg_max_grant (ss_config st1)) (ss_grants st1));
          grants2 = GrantTable_revoke_missing_ttys (fs_exists (wo_fs w)) grants1;
          q = Queue_prune now (ss_queue st1)
      in st1\<lparr>ss_grants := grants2, ss_queue := q, ss_receipts := ReceiptTable_sweep now (ss_receipts st1),
             ss_failures := filter (\<lambda>(i, _). Queue_state_of q i \<noteq> None) (ss_failures st1)\<rparr>)"

definition worker_pick :: "world \<Rightarrow> server_state \<Rightarrow> server_state \<times> worker_job option" where
  "worker_pick w st0 =
     (let st = worker_tidy w st0; now = wo_now w in
      case Queue_next_ready (ss_queue st) now of
        None \<Rightarrow> (st, None)
      | Some i \<Rightarrow>
          (case Queue_mark_decrypting i now (ss_queue st) of
             (q, None) \<Rightarrow> (st\<lparr>ss_queue := q\<rparr>, None)
           | (q, Some generation) \<Rightarrow>
               (case Queue_describe q i of
                  None \<Rightarrow> (st\<lparr>ss_queue := Queue_fail i now q\<rparr>, None)
                | Some (s, key) \<Rightarrow>
                    (st\<lparr>ss_queue := q\<rparr>,
                     Some \<lparr>jb_id = i, jb_scope = s, jb_key = key, jb_generation = generation,
                           jb_lock_epoch = ss_lock_epoch st, jb_store = ss_store st,
                           jb_decryptor = ss_decryptor st\<rparr>))))"

text \<open>The callback of the decryptor, called with the process group of the new child.\<close>

definition worker_started :: "worker_job \<Rightarrow> nat \<Rightarrow> server_state \<Rightarrow> server_state" where
  "worker_started job process_group st =
     (if Queue_state_of (ss_queue st) (jb_id job) = Some StDecrypting
      then st\<lparr>ss_active_decrypt := Some \<lparr>ad_id = jb_id job, ad_process_group = process_group\<rparr>\<rparr>
      else killpg process_group st)"

definition session_is_active :: "world \<Rightarrow> scope \<Rightarrow> server_state \<Rightarrow> bool" where
  "session_is_active w s st =
     (case s of
        Session token \<Rightarrow>
          (case Registry_registration (ss_registry st) token of
             None \<Rightarrow> False
           | Some r \<Rightarrow> PeerIdentity_is_alive (wo_read w) (reg_root r))
      | Tty tty _ \<Rightarrow> fs_exists (wo_fs w) tty)"

definition worker_finish ::
  "world \<Rightarrow> worker_job \<Rightarrow> err_code + decrypted_human_file \<Rightarrow> server_state \<Rightarrow> server_state" where
  "worker_finish w job decrypted st0 =
     (let st = State_kill_active (jb_id job) st0 in
      case decrypted of
        Inr dec \<Rightarrow>
          (let st1 = (if ss_lock_epoch st \<noteq> jb_lock_epoch job \<or> \<not> session_is_active w (jb_scope job) st
                      then st\<lparr>ss_queue := fst (Queue_deny (jb_id job) (wo_now w) (ss_queue st))\<rparr>
                      else st)
           in case Queue_complete (jb_id job) (jb_generation job) (wo_now2 w) (ss_queue st1) of
                (q, True) \<Rightarrow>
                  st1\<lparr>ss_queue := q,
                      ss_grants := GrantTable_insert (jb_scope job) (jb_key job) (dh_value dec) (wo_now3 w)
                        \<lparr>go_source = dh_source dec, go_identity = dh_identity dec\<rparr> (ss_grants st1)\<rparr>
              | (q, False) \<Rightarrow> st1\<lparr>ss_queue := q\<rparr>)
      | Inl err \<Rightarrow>
          st\<lparr>ss_queue := Queue_fail (jb_id job) (wo_now w) (ss_queue st),
             ss_failures := ss_failures st @ [(jb_id job, err)]\<rparr>)"

datatype worker_pc =
    WkIdle
  | WkPicked worker_job
  | WkStarted worker_job opened_human_file nat
  | WkDecrypted worker_job "err_code + decrypted_human_file"

text \<open>A decrypt that has not finished with what it observed so far stays where it is. The process group
  that a timed out decrypt kills is recorded.\<close>

definition worker_step :: "world \<Rightarrow> sops_run \<Rightarrow> worker_pc \<Rightarrow> server_state \<Rightarrow> server_state \<times> worker_pc" where
  "worker_step w run pc st =
     (case pc of
        WkIdle \<Rightarrow>
          (case worker_pick w st of
             (st', None) \<Rightarrow> (st', WkIdle)
           | (st', Some job) \<Rightarrow> (st', WkPicked job))
      | WkPicked job \<Rightarrow>
          (case decrypt_start (jb_decryptor job) run (jb_store job) (jb_key job) of
             None \<Rightarrow> (st, pc)
           | Some (Inl err) \<Rightarrow> (st, WkDecrypted job (Inl err))
           | Some (Inr (opened, pid)) \<Rightarrow> (worker_started job pid st, WkStarted job opened pid))
      | WkStarted job opened pid \<Rightarrow>
          (case decrypt_wait (jb_decryptor job) run (jb_key job) opened pid of
             None \<Rightarrow> (st, pc)
           | Some (res, killed) \<Rightarrow> (fold killpg killed st, WkDecrypted job res))
      | WkDecrypted job res \<Rightarrow> (worker_finish w job res st, WkIdle))"

text \<open>The job the worker holds, as the queue knows it.\<close>

fun worker_job_of :: "worker_pc \<Rightarrow> worker_job option" where
  "worker_job_of WkIdle = None"
| "worker_job_of (WkPicked job) = Some job"
| "worker_job_of (WkStarted job _ _) = Some job"
| "worker_job_of (WkDecrypted job _) = Some job"

definition queue_job :: "worker_pc \<Rightarrow> job option" where
  "queue_job pc = map_option (\<lambda>job. (jb_id job, jb_generation job)) (worker_job_of pc)"

section \<open>What the steps leave alone\<close>

lemma killpg_simps [simp]:
  "ss_instance (killpg g st) = ss_instance st" "ss_registry (killpg g st) = ss_registry st"
  "ss_grants (killpg g st) = ss_grants st" "ss_receipts (killpg g st) = ss_receipts st"
  "ss_queue (killpg g st) = ss_queue st" "ss_store (killpg g st) = ss_store st"
  "ss_decryptor (killpg g st) = ss_decryptor st" "ss_config (killpg g st) = ss_config st"
  "ss_failures (killpg g st) = ss_failures st" "ss_lock_epoch (killpg g st) = ss_lock_epoch st"
  "ss_active_decrypt (killpg g st) = ss_active_decrypt st"
  by (simp_all add: killpg_def)

lemma fold_killpg_simps [simp]:
  "ss_registry (fold killpg gs st) = ss_registry st" "ss_grants (fold killpg gs st) = ss_grants st"
  "ss_receipts (fold killpg gs st) = ss_receipts st" "ss_queue (fold killpg gs st) = ss_queue st"
  "ss_lock_epoch (fold killpg gs st) = ss_lock_epoch st"
  by (induction gs arbitrary: st) simp_all

lemma kill_active_simps [simp]:
  "ss_registry (State_kill_active i st) = ss_registry st" "ss_grants (State_kill_active i st) = ss_grants st"
  "ss_receipts (State_kill_active i st) = ss_receipts st" "ss_queue (State_kill_active i st) = ss_queue st"
  "ss_store (State_kill_active i st) = ss_store st" "ss_decryptor (State_kill_active i st) = ss_decryptor st"
  "ss_config (State_kill_active i st) = ss_config st" "ss_failures (State_kill_active i st) = ss_failures st"
  "ss_lock_epoch (State_kill_active i st) = ss_lock_epoch st"
  by (simp_all add: State_kill_active_def split: option.split)

lemma fold_kill_active_simps [simp]:
  "ss_registry (fold State_kill_active is st) = ss_registry st" "ss_grants (fold State_kill_active is st) = ss_grants st"
  "ss_receipts (fold State_kill_active is st) = ss_receipts st" "ss_queue (fold State_kill_active is st) = ss_queue st"
  "ss_store (fold State_kill_active is st) = ss_store st" "ss_decryptor (fold State_kill_active is st) = ss_decryptor st"
  "ss_config (fold State_kill_active is st) = ss_config st" "ss_failures (fold State_kill_active is st) = ss_failures st"
  "ss_lock_epoch (fold State_kill_active is st) = ss_lock_epoch st"
  by (induction "is" arbitrary: st) simp_all

lemma worker_tidy_simps [simp]:
  "ss_registry (worker_tidy w st) = ss_registry st"
  "ss_lock_epoch (worker_tidy w st) = ss_lock_epoch st"
  "ss_queue (worker_tidy w st) = Queue_prune (wo_now w) (fst (Queue_sweep_timeouts (wo_now w) (ss_queue st)))"
  "ss_receipts (worker_tidy w st) = ReceiptTable_sweep (wo_now w) (ss_receipts st)"
  "ss_grants (worker_tidy w st) =
     GrantTable_revoke_missing_ttys (fs_exists (wo_fs w))
       (fst (GrantTable_revoke_expired (wo_now w) (cfg_max_grant (ss_config st)) (ss_grants st)))"
  by (simp_all add: worker_tidy_def Let_def)

end
