(* ===== verification/Broker.thy ===== *)
theory Broker
  imports Worker
begin

text \<open>
  The whole daemon: one shared state, the worker, and any number of connections, each at its program
  counter. A step accepts a request, moves one handler or moves the worker; between two steps anything may
  happen in the world, so every step comes with its own view of it. The invariant that all reachable
  systems keep ties the parts together: the tables are well formed, session grants belong to registered
  sessions, and every handler works for the request it was started with.
\<close>

section \<open>Reachability\<close>

text \<open>What is true at the start and kept by every step is true of every reachable state.\<close>

locale kept_invariant =
  fixes initial :: "'s \<Rightarrow> bool"
    and step :: "'s \<Rightarrow> 's \<Rightarrow> bool"
    and inv :: "'s \<Rightarrow> bool"
  assumes initial_inv: "initial s \<Longrightarrow> inv s"
    and step_inv: "step s s' \<Longrightarrow> inv s \<Longrightarrow> inv s'"
begin

lemma steps_inv: "step\<^sup>*\<^sup>* s s' \<Longrightarrow> inv s \<Longrightarrow> inv s'"
  by (induction rule: rtranclp_induct) (auto intro: step_inv)

lemma reachable_inv: "initial s0 \<Longrightarrow> step\<^sup>*\<^sup>* s0 s \<Longrightarrow> inv s"
  using steps_inv initial_inv by blast

end

section \<open>The system\<close>

record connection =
  cn_caller :: peer_identity
  cn_request :: request
  cn_pc :: handler_pc

record broker =
  br_state :: server_state
  br_worker :: worker_pc
  br_connections :: "nat \<Rightarrow> connection option"

definition broker_initial :: "broker \<Rightarrow> bool" where
  "broker_initial b \<longleftrightarrow>
     (\<exists>boot random c. State_new boot random c = Inr (br_state b))
     \<and> br_worker b = WkIdle \<and> br_connections b = (\<lambda>_. None)"

text \<open>The identifiers of requests do not run out: a daemon would have to serve \<open>2^64\<close> requests.\<close>

inductive broker_step :: "broker \<Rightarrow> broker \<Rightarrow> bool" where
  accept: "br_connections b n = None \<Longrightarrow>
     broker_step b (b\<lparr>br_connections := (br_connections b)
       (n \<mapsto> \<lparr>cn_caller = caller, cn_request = request, cn_pc = PcStart request\<rparr>)\<rparr>)"
| handle: "br_connections b n = Some c \<Longrightarrow> q_next_id (ss_queue (br_state b)) < U64_MAX \<Longrightarrow>
     handler_step w (cn_caller c) (cn_pc c) (br_state b) = (st', pc') \<Longrightarrow>
     broker_step b (b\<lparr>br_state := st', br_connections := (br_connections b)(n \<mapsto> c\<lparr>cn_pc := pc'\<rparr>)\<rparr>)"
| work: "worker_step w run (br_worker b) (br_state b) = (st', pc') \<Longrightarrow>
     broker_step b (b\<lparr>br_state := st', br_worker := pc'\<rparr>)"

definition broker_reachable :: "broker \<Rightarrow> bool" where
  "broker_reachable b \<longleftrightarrow> (\<exists>b0. broker_initial b0 \<and> broker_step\<^sup>*\<^sup>* b0 b)"

section \<open>The queue as the daemon uses it\<close>

text \<open>Every stretch of the daemon uses the queue by calls that a history of the queue has.\<close>

definition queue_calls :: "queue \<times> job option \<Rightarrow> queue \<times> job option \<Rightarrow> bool" where
  "queue_calls = (\<lambda>s s'. \<exists>now. queue_step now s s')\<^sup>*\<^sup>*"

lemma queue_calls_refl [simp]: "queue_calls s s"
  by (simp add: queue_calls_def)

lemma queue_calls_step: "queue_step now s s' \<Longrightarrow> queue_calls s s'"
  unfolding queue_calls_def by (rule r_into_rtranclp) blast

lemma queue_calls_trans: "queue_calls s s' \<Longrightarrow> queue_calls s' s'' \<Longrightarrow> queue_calls s s''"
  unfolding queue_calls_def by (rule rtranclp_trans)

lemmas queue_call = queue_calls_step [OF queue_step.enqueue] queue_calls_step [OF queue_step.deny]
  queue_calls_step [OF queue_step.timeout] queue_calls_step [OF queue_step.complete]
  queue_calls_step [OF queue_step.fail] queue_calls_step [OF queue_step.sweep] queue_calls_step [OF queue_step.prune]

lemma wf_queue_calls: "queue_calls s s' \<Longrightarrow> wf_queue s \<Longrightarrow> wf_queue s'"
  unfolding queue_calls_def by (induction rule: rtranclp_induct) (auto intro: wf_queue_step)

lemma poll_queue: "queue_calls (ss_queue st, job) (ss_queue (fst (poll_approval w wa st)), job)"
  by (auto simp: poll_approval_def Let_def queue_call split: option.split request_state.split)

lemma enter_queue_queue:
  "q_next_id (ss_queue st) < U64_MAX \<Longrightarrow> queue_calls (ss_queue st, job) (ss_queue (fst (enter_queue w s key st)), job)"
  using queue_call(1) [of "ss_queue st" job s key "wo_now w"]
  by (auto simp: enter_queue_def split: option.split sum.split prod.split)

lemma check_grant_queue [simp]: "ss_queue (fst (check_grant w s key ff st)) = ss_queue st"
  by (auto simp: check_grant_def Let_def split: option.split)

lemma await_queue:
  assumes "q_next_id (ss_queue st) < U64_MAX"
  shows "queue_calls (ss_queue st, job) (ss_queue (fst (await_enter w s key ff st)), job)"
proof -
  obtain st1 a where 1: "check_grant w s key ff st = (st1, a)" by fastforce
  then have q1: "ss_queue st1 = ss_queue st" using check_grant_queue [of w s key ff st] by simp
  obtain st2 r where 2: "enter_queue w s key st1 = (st2, r)" by fastforce
  have c2: "queue_calls (ss_queue st, job) (ss_queue st2, job)"
    using enter_queue_queue [of st1 job w s key] assms q1 2 by simp
  have "queue_calls (ss_queue st2, job) (ss_queue (fst (poll_approval (later_world w) wa st2)), job)" for wa by (rule poll_queue)
  with c2 have "queue_calls (ss_queue st, job) (ss_queue (fst (poll_approval (later_world w) wa st2)), job)" for wa
    using queue_calls_trans by blast
  then show ?thesis using 1 2 c2 q1
    by (auto simp: await_enter_def split: option.split sum.split prod.split) (metis fst_conv)+
qed

lemma dispatch_start_queue: "queue_calls (ss_queue st, job) (ss_queue (fst (dispatch_start w caller request st)), job)"
  using queue_call(2) [of "ss_queue st" job _ "wo_now w"]
  by (auto simp: dispatch_start_def Let_def dispatch_hello_def dispatch_register_def dispatch_unregister_def
      dispatch_grants_def dispatch_deny_def dispatch_lock_def dispatch_redeem_def
      split: request.split sum.split prod.split option.split bool.split) (metis fst_conv)+

lemma handler_step_fst:
  "fst (handler_step w caller (PcResolve p a) st) = fst (resolve_access w a caller st)"
  "fst (handler_step w caller (PcEnter p s k) st) = fst (await_enter w s k (forces_fresh p) st)"
  "fst (handler_step w caller (PcWait p s k wa) st) = fst (poll_approval w wa st)"
  by (simp_all add: handler_step_def split: prod.split sum.split option.split)

lemma handler_queue:
  assumes "q_next_id (ss_queue st) < U64_MAX"
  shows "queue_calls (ss_queue st, job) (ss_queue (fst (handler_step w caller pc st)), job)"
proof (cases pc)
  case (PcStart request)
  then show ?thesis by (simp add: handler_step_def dispatch_start_queue)
next
  case (PcEnter p s key)
  with await_queue [OF assms] show ?thesis by (simp add: handler_step_fst)
next
  case (PcWait p s key wa)
  with poll_queue show ?thesis by (simp add: handler_step_fst)
qed (auto simp: handler_step_def resolve_access_def finish_authorization_def
      split: prod.split sum.split option.split outcome.split)

lemma tidy_queue: "queue_calls (ss_queue st, None) (ss_queue (worker_tidy w st), None)"
  using queue_calls_trans [OF queue_call(6) queue_call(7)] by simp

lemma pick_queue:
  "worker_pick w st = (st', r) \<Longrightarrow>
   queue_calls (ss_queue st, None) (ss_queue st', map_option (\<lambda>job. (jb_id job, jb_generation job)) r)"
proof -
  assume p: "worker_pick w st = (st', r)"
  let ?q = "ss_queue (worker_tidy w st)"
  have t: "queue_calls (ss_queue st, None) (?q, None)" by (rule tidy_queue)
  show ?thesis
  proof (cases "Queue_next_ready ?q (wo_now w)")
    case None
    with p t show ?thesis by (auto simp: worker_pick_def Let_def)
  next
    case (Some i)
    obtain q g where m: "Queue_mark_decrypting i (wo_now w) ?q = (q, g)" by fastforce
    show ?thesis
    proof (cases g)
      case None
      then have "q = ?q" using m by (auto simp: Queue_mark_decrypting_def Let_def split: option.splits if_splits)
      with p t Some m None show ?thesis by (auto simp: worker_pick_def Let_def)
    next
      case (Some g')
      then have c: "queue_calls (ss_queue st, None) (q, Some (i, g'))"
        using queue_calls_trans [OF t queue_calls_step [OF queue_step.pick]] m by blast
      have f: "queue_calls (ss_queue st, None) (Queue_fail i (wo_now w) q, None)"
        using queue_calls_trans [OF c queue_call(5)] .
      from p \<open>Queue_next_ready ?q (wo_now w) = Some i\<close> m Some c f show ?thesis
        by (auto simp: worker_pick_def Let_def split: option.splits)
    qed
  qed
qed

lemma finish_queue:
  "queue_calls (ss_queue st, Some (jb_id job, jb_generation job)) (ss_queue (worker_finish w job res st), None)"
proof (cases res)
  case (Inl err)
  then show ?thesis by (simp add: worker_finish_def Let_def queue_call)
next
  case (Inr dec)
  let ?j = "Some (jb_id job, jb_generation job)"
  let ?qd = "fst (Queue_deny (jb_id job) (wo_now w) (ss_queue st))"
  have "queue_calls (ss_queue st, ?j) (?qd, ?j)" by (rule queue_call(2))
  then have d: "queue_calls (ss_queue st, ?j) (fst (Queue_complete (jb_id job) (jb_generation job) (wo_now2 w) ?qd), None)"
    using queue_call(4) queue_calls_trans by blast
  have c: "queue_calls (ss_queue st, ?j) (fst (Queue_complete (jb_id job) (jb_generation job) (wo_now2 w) (ss_queue st)), None)"
    by (rule queue_call(4))
  show ?thesis
    using c d by (auto simp: worker_finish_def Inr Let_def split: prod.splits bool.splits)
qed

lemma worker_queue:
  "worker_step w run pc st = (st', pc') \<Longrightarrow> queue_calls (ss_queue st, queue_job pc) (ss_queue st', queue_job pc')"
proof (cases pc)
  case WkIdle
  moreover assume "worker_step w run pc st = (st', pc')"
  ultimately show ?thesis
    using pick_queue [of w st] by (auto simp: worker_step_def queue_job_def split: prod.splits option.splits)
next
  case (WkDecrypted job res)
  moreover assume "worker_step w run pc st = (st', pc')"
  ultimately show ?thesis using finish_queue by (auto simp: worker_step_def queue_job_def)
qed (auto simp: worker_step_def worker_started_def queue_job_def split: option.splits sum.splits prod.splits)

section \<open>Grants of sessions\<close>

text \<open>A grant held by a session belongs to a token that is registered.\<close>

definition grants_registered :: "registry \<Rightarrow> grant_table \<Rightarrow> bool" where
  "grants_registered reg t \<longleftrightarrow>
     (\<forall>i g tok. grants_map t i = Some g \<longrightarrow> gr_scope g = Session tok \<longrightarrow> Registry_registration reg tok \<noteq> None)"

lemma grants_registered_op:
  assumes "wf_grants t" and "grants_registered reg t" and "\<not> is_insert op"
  shows "grants_registered reg (grant_op_run op t)"
  using assms by (auto simp: grants_registered_def grant_op_run_revocation grants.look_keep_Some)

lemma grants_registered_insert:
  assumes "wf_grants t" and "grants_registered reg t"
    and "\<And>tok. s = Session tok \<Longrightarrow> Registry_registration reg tok \<noteq> None"
  shows "grants_registered reg (GrantTable_insert s k v c og t)"
  using assms by (auto simp: grants_registered_def GrantTable_insert_replace grants.look_replace)

lemma revoke_tokens_Some:
  "wf_grants t \<Longrightarrow> grants_map (GrantTable_revoke_tokens ts t) i = Some g \<longleftrightarrow>
     grants_map t i = Some g \<and> (\<forall>tok \<in> set ts. gr_scope g \<noteq> Session tok)"
  using grants.look_keep_Some [of t "spared (OpRevokeTokens ts)" i g] grant_op_run_revocation [of "OpRevokeTokens ts" t]
  by simp

lemma grants_registered_revoke_tokens:
  assumes "wf_grants t" and "grants_registered reg t"
    and "\<And>tok. Registry_registration reg tok \<noteq> None \<Longrightarrow> Registry_registration reg' tok = None \<Longrightarrow> tok \<in> set ts"
  shows "grants_registered reg' (GrantTable_revoke_tokens ts t)"
  unfolding grants_registered_def revoke_tokens_Some [OF assms(1)]
  using assms(2,3) unfolding grants_registered_def by blast

lemmas wf_grants_ops =
  wf_grant_op [where op = "OpInsert s k v c og" for s k v c og, simplified grant_op_run.simps]
  wf_grant_op [where op = "OpRevoke s k" for s k, simplified grant_op_run.simps]
  wf_grant_op [where op = "OpRevokeTokens ts" for ts, simplified grant_op_run.simps]
  wf_grant_op [where op = "OpRevokeExpired now age" for now age, simplified grant_op_run.simps]
  wf_grant_op [where op = OpRevokeAll, simplified grant_op_run.simps]
  wf_grant_op [where op = "OpRevokeMissingTtys ex" for ex, simplified grant_op_run.simps]

lemmas grants_registered_ops =
  grants_registered_op [where op = "OpRevoke s k" for s k, simplified grant_op_run.simps grant_op.disc simp_thms]
  grants_registered_op [where op = "OpRevokeExpired now age" for now age, simplified grant_op_run.simps grant_op.disc simp_thms]
  grants_registered_op [where op = OpRevokeAll, simplified grant_op_run.simps grant_op.disc simp_thms]
  grants_registered_op [where op = "OpRevokeMissingTtys ex" for ex, simplified grant_op_run.simps grant_op.disc simp_thms]

section \<open>The invariant of the shared state\<close>

definition tables_ok :: "server_state \<Rightarrow> bool" where
  "tables_ok st \<longleftrightarrow> wf_registry (ss_registry st) \<and> wf_grants (ss_grants st) \<and> wf_receipts (ss_receipts st)
     \<and> grants_registered (ss_registry st) (ss_grants st)"

lemma grants_registered_same:
  "(\<And>tok. Registry_registration reg' tok = Registry_registration reg tok) \<Longrightarrow>
   grants_registered reg' t = grants_registered reg t"
  by (simp add: grants_registered_def)

lemma tables_register:
  "tables_ok st \<Longrightarrow> tables_ok (fst (dispatch_register h session root st))"
proof (cases "SessionToken_parse_hex h")
  case (Inr token)
  assume ok: "tables_ok st"
  let ?r = "\<lparr>reg_token = token, reg_session = session, reg_root = root\<rparr>" and ?reg = "ss_registry st"
  obtain reg' res where r: "Registry_register ?r ?reg = (reg', res)" by fastforce
  have wf: "wf_registry reg'" using wf_registry_register [of ?reg ?r] ok r by (simp add: tables_ok_def)
  show ?thesis
  proof (cases res)
    case (Inl err)
    then have "reg' = ?reg" using r by (auto simp: Registry_register_def Let_def split: if_splits)
    with ok Inr r Inl show ?thesis by (simp add: dispatch_register_def)
  next
    case i: (Inr ts)
    have "Registry_registration ?reg tok \<noteq> None \<Longrightarrow> Registry_registration reg' tok = None \<Longrightarrow> tok \<in> set ts" for tok
      using register_displaced [of ?reg ?r ts tok] ok r i by (simp add: tables_ok_def)
    then have "grants_registered reg' (GrantTable_revoke_tokens ts (ss_grants st))"
      using ok by (intro grants_registered_revoke_tokens [of _ ?reg]) (auto simp: tables_ok_def)
    with ok Inr r i wf show ?thesis by (simp add: dispatch_register_def tables_ok_def wf_grants_ops)
  qed
qed (simp add: dispatch_register_def)

lemma tables_unregister: "tables_ok st \<Longrightarrow> tables_ok (fst (dispatch_unregister session st))"
proof -
  assume ok: "tables_ok st"
  let ?reg = "ss_registry st"
  obtain reg' ts where r: "Registry_unregister session ?reg = (reg', ts)" by fastforce
  have "Registry_registration ?reg tok \<noteq> None \<Longrightarrow> Registry_registration reg' tok = None \<Longrightarrow> tok \<in> set ts" for tok
    using unregister_tokens [of ?reg tok session] ok r by (simp add: tables_ok_def)
  then have "grants_registered reg' (GrantTable_revoke_tokens ts (ss_grants st))"
    using ok by (intro grants_registered_revoke_tokens [of _ ?reg]) (auto simp: tables_ok_def)
  with ok r wf_registry_unregister [of ?reg session] show ?thesis
    by (simp add: dispatch_unregister_def tables_ok_def wf_grants_ops)
qed

lemma wf_receipts_redeem: "wf_receipts t \<Longrightarrow> wf_receipts (fst (ReceiptTable_redeem h cap now t))"
  using redeem_spec [of t, where h = h and cap = cap and now = now] by (auto split: prod.splits)

lemma wf_receipts_clear: "wf_receipts (ReceiptTable_clear t)"
  by (simp add: wf_receipts_def ReceiptTable_clear_def)

lemma tables_redeem: "tables_ok st \<Longrightarrow> tables_ok (fst (dispatch_redeem w h cap st))"
  using wf_receipts_redeem [of "ss_receipts st" h _ "wo_now w"]
  by (auto simp: dispatch_redeem_def tables_ok_def split: sum.split prod.split) (metis fst_conv)

lemma tables_lock: "tables_ok st \<Longrightarrow> tables_ok (fst (dispatch_lock w st))"
  by (auto simp: dispatch_lock_def Let_def tables_ok_def wf_grants_ops grants_registered_ops wf_receipts_clear
      split: option.split)

lemma tables_deny: "tables_ok st \<Longrightarrow> tables_ok (fst (dispatch_deny w i st))"
  by (auto simp: dispatch_deny_def tables_ok_def split: prod.split bool.split)

lemma tables_start: "tables_ok st \<Longrightarrow> tables_ok (fst (dispatch_start w caller request st))"
  using tables_register tables_unregister tables_redeem tables_lock tables_deny
  by (cases request)
     (auto simp: dispatch_start_def Let_def dispatch_hello_def dispatch_grants_def split: sum.split prod.split;
      metis fst_conv)+

lemma tables_resolve: "tables_ok st \<Longrightarrow> tables_ok (fst (resolve_access w a caller st))"
proof -
  assume ok: "tables_ok st"
  have "tables_ok (st\<lparr>ss_registry := fst (Registry_resolve rd t tty c (ss_registry st))\<rparr>)" for rd t tty c
    using ok grants_registered_same [of "fst (Registry_resolve rd t tty c (ss_registry st))" "ss_registry st"]
    by (simp add: tables_ok_def wf_registry_resolve)
  then show ?thesis using ok
    by (auto simp: resolve_access_def split: sum.split prod.split) (metis fst_conv)
qed

lemma tables_check_grant: "tables_ok st \<Longrightarrow> tables_ok (fst (check_grant w s key ff st))"
  by (auto simp: check_grant_def Let_def tables_ok_def wf_grants_ops grants_registered_ops split: option.split)

lemma tables_enter_queue: "tables_ok st \<Longrightarrow> tables_ok (fst (enter_queue w s key st))"
  by (auto simp: enter_queue_def tables_ok_def split: option.split sum.split prod.split)

lemma tables_poll: "tables_ok st \<Longrightarrow> tables_ok (fst (poll_approval w wa st))"
  by (auto simp: poll_approval_def Let_def tables_ok_def split: option.split request_state.split)

lemma tables_await: "tables_ok st \<Longrightarrow> tables_ok (fst (await_enter w s key ff st))"
proof -
  assume ok: "tables_ok st"
  obtain st1 a where 1: "check_grant w s key ff st = (st1, a)" by fastforce
  obtain st2 r where 2: "enter_queue w s key st1 = (st2, r)" by fastforce
  have ok1: "tables_ok st1" using tables_check_grant [OF ok, of w s key ff] 1 by simp
  have ok2: "tables_ok st2" using tables_enter_queue [OF ok1, of w s key] 2 by simp
  have ok3: "tables_ok (fst (poll_approval (later_world w) wa st2))" for wa by (rule tables_poll [OF ok2])
  show ?thesis using 1 2 ok1 ok2 ok3
    by (auto simp: await_enter_def split: option.split sum.split prod.split) (metis fst_conv)+
qed

lemma tables_mint:
  "tables_ok st \<Longrightarrow> finish_authorization w cap e d st = Some (st', d') \<Longrightarrow> tables_ok st'"
  using wf_mint [of "ss_receipts st" "wo_random w" cap "wo_now w"]
  by (auto simp: finish_authorization_def tables_ok_def
      split: outcome.splits option.splits if_splits prod.splits sum.splits)

lemma tables_handler: "tables_ok st \<Longrightarrow> tables_ok (fst (handler_step w caller pc st))"
  using tables_start [of st w caller] tables_resolve [of st w _ caller] tables_await [of st w] tables_poll [of st w]
    tables_mint [of st w]
  by (cases pc) (auto simp: handler_step_def split: prod.split sum.split option.split; metis fst_conv)+

lemma tables_tidy: "tables_ok st \<Longrightarrow> tables_ok (worker_tidy w st)"
  by (simp add: tables_ok_def wf_grants_ops grants_registered_ops wf_sweep)

lemma tables_pick: "tables_ok st \<Longrightarrow> worker_pick w st = (st', r) \<Longrightarrow> tables_ok st'"
  using tables_tidy [of st w]
  by (auto simp: worker_pick_def Let_def tables_ok_def split: option.splits prod.splits)

lemma session_is_active_kill [simp]: "session_is_active w s (State_kill_active i st) = session_is_active w s st"
  by (cases s) (simp_all add: session_is_active_def)

lemma deny_completes_not:
  assumes "ids_ok q"
  shows "\<not> snd (Queue_complete i g now (fst (Queue_deny i now' q)))"
proof (cases "find_request q i")
  case None
  then have "Queue_deny i now' q = (q, False)" by (simp add: Queue_deny_def)
  with None show ?thesis by (auto simp: Queue_complete_def Let_def find_request_None)
next
  case (Some r)
  show ?thesis
  proof (cases "active_request r")
    case True
    let ?q = "update_request i (retire StDenied) q"
    have "Queue_deny i now' q = (Queue_finish i now' ?q, True)" using True Some by (simp add: Queue_deny_def)
    moreover have "decrypting ?q = {r \<in> decrypting q. pr_id r \<noteq> i}"
      by (rule decrypting_stop [OF assms]) simp
    ultimately show ?thesis unfolding Queue_complete_def Let_def by (auto simp: decrypting_def)
  next
    case False
    then show ?thesis using Some find_request_unique [OF assms Some]
      by (auto simp: Queue_deny_def Queue_complete_def Let_def active_request_def)
  qed
qed

text \<open>What the end of a decrypt does to the grants: it inserts at most the value for the job's own scope and
  key, and only for a current epoch and an active session.\<close>

lemma finish_grants:
  assumes "ids_ok (ss_queue st)"
  shows "ss_grants (worker_finish w job res st) = ss_grants st
     \<or> (\<exists>dec. res = Inr dec \<and> ss_lock_epoch st = jb_lock_epoch job \<and> session_is_active w (jb_scope job) st
          \<and> snd (Queue_complete (jb_id job) (jb_generation job) (wo_now2 w) (ss_queue st))
          \<and> ss_grants (worker_finish w job res st) =
              GrantTable_insert (jb_scope job) (jb_key job) (dh_value dec) (wo_now3 w)
                \<lparr>go_source = dh_source dec, go_identity = dh_identity dec\<rparr> (ss_grants st))"
proof (cases res)
  case (Inl err)
  then show ?thesis by (simp add: worker_finish_def Let_def)
next
  case (Inr dec)
  show ?thesis
  proof (cases "ss_lock_epoch st \<noteq> jb_lock_epoch job \<or> \<not> session_is_active w (jb_scope job) st")
    case True
    with Inr deny_completes_not [OF assms, of "jb_id job" "jb_generation job" "wo_now2 w" "wo_now w"] show ?thesis
      by (auto simp: worker_finish_def Let_def split: prod.split bool.split)
  next
    case False
    with Inr show ?thesis by (auto simp: worker_finish_def Let_def split: prod.split bool.split)
  qed
qed

lemma finish_other_simps [simp]:
  "ss_registry (worker_finish w job res st) = ss_registry st"
  "ss_receipts (worker_finish w job res st) = ss_receipts st"
  "ss_lock_epoch (worker_finish w job res st) = ss_lock_epoch st"
  by (simp_all add: worker_finish_def Let_def split: sum.split prod.split bool.split)

lemma tables_finish:
  assumes "tables_ok st" and "ids_ok (ss_queue st)"
  shows "tables_ok (worker_finish w job res st)"
  using finish_grants [OF assms(2), of w job res] assms(1)
  by (auto simp: tables_ok_def wf_grants_ops session_is_active_def intro!: grants_registered_insert split: option.splits)

lemma tables_worker:
  "worker_step w run pc st = (st', pc') \<Longrightarrow> tables_ok st \<Longrightarrow> ids_ok (ss_queue st) \<Longrightarrow> tables_ok st'"
  using tables_pick [of st w] tables_finish [of st w]
  by (cases pc)
     (auto simp: worker_step_def worker_started_def tables_ok_def split: prod.splits option.splits sum.splits if_splits)

section \<open>Handlers work for their request\<close>

text \<open>The access a request asks for, the scopes that can answer for it, and what a handler may be doing.\<close>

fun access_of :: "request \<Rightarrow> access option" where
  "access_of (Get key token_hex tty) = Some \<lparr>ac_key = key, ac_token_hex = token_hex, ac_tty = tty\<rparr>"
| "access_of (RequestGrant key token_hex tty) = Some \<lparr>ac_key = key, ac_token_hex = token_hex, ac_tty = tty\<rparr>"
| "access_of (Authorize cap token_hex tty) =
     (case Capability_parse cap of
        Inl _ \<Rightarrow> None
      | Inr c \<Rightarrow> Some \<lparr>ac_key = Capability_key_name c, ac_token_hex = token_hex, ac_tty = tty\<rparr>)"
| "access_of _ = None"

definition scope_matches :: "access \<Rightarrow> scope \<Rightarrow> bool" where
  "scope_matches a s \<longleftrightarrow>
     (case ac_token_hex a of
        Some h \<Rightarrow> (\<exists>t. SessionToken_parse_hex h = Inr t \<and> s = Session t)
      | None \<Rightarrow> (\<exists>d b. ac_tty a = Some d \<and> s = Tty d b))"

definition serves :: "request \<Rightarrow> scope \<Rightarrow> secret_name \<Rightarrow> bool" where
  "serves req s k \<longleftrightarrow> (\<exists>a. access_of req = Some a \<and> scope_matches a s \<and> SecretName_parse (ac_key a) = Inr k)"

fun purpose_ok :: "request \<Rightarrow> purpose \<Rightarrow> bool" where
  "purpose_ok req ForValue = (case req of Get key _ _ \<Rightarrow> \<not> is_capability_key key | _ \<Rightarrow> False)"
| "purpose_ok req ForGrant = (case req of RequestGrant key _ _ \<Rightarrow> \<not> is_capability_key key | _ \<Rightarrow> False)"
| "purpose_ok req (ForReceipt c _) = (case req of Authorize cap _ _ \<Rightarrow> Capability_parse cap = Inr c | _ \<Rightarrow> False)"

text \<open>A fresh approval: a request for the handler's own scope and key was granted.\<close>

definition freshly_granted :: "queue \<Rightarrow> request \<Rightarrow> decision \<Rightarrow> bool" where
  "freshly_granted q req d \<longleftrightarrow>
     (\<exists>i s k. de_request_id d = Some i \<and> serves req s k \<and> is_or_pruned q i s k \<and> granted_or_pruned q i)"

fun pc_ok :: "queue \<Rightarrow> request \<Rightarrow> handler_pc \<Rightarrow> bool" where
  "pc_ok q req (PcStart r) = (r = req)"
| "pc_ok q req (PcAuthorize c a) = (purpose_ok req (ForReceipt c 0) \<and> access_of req = Some a)"
| "pc_ok q req (PcResolve p a) = (purpose_ok req p \<and> access_of req = Some a)"
| "pc_ok q req (PcEnter p s k) = (purpose_ok req p \<and> serves req s k)"
| "pc_ok q req (PcWait p s k wa) = (purpose_ok req p \<and> serves req s k \<and> is_or_pruned q (wa_id wa) s k)"
| "pc_ok q req (PcRelease s k _ _) = (purpose_ok req ForValue \<and> serves req s k)"
| "pc_ok q req (PcMint c e d) =
     (purpose_ok req (ForReceipt c e)
      \<and> (\<forall>v. de_outcome d \<noteq> OutBytes v) \<and> (\<forall>r. de_outcome d \<noteq> OutReceipt r)
      \<and> (\<forall>fs. de_outcome d = OutFields fs \<longrightarrow> freshly_granted q req d))"
| "pc_ok q req (PcDone d) =
     ((\<forall>v. de_outcome d = OutBytes v \<longrightarrow> purpose_ok req ForValue)
      \<and> (\<forall>r. de_outcome d = OutReceipt r \<longrightarrow> (\<exists>c. purpose_ok req (ForReceipt c 0)) \<and> freshly_granted q req d))"

lemma request_is_calls:
  assumes "queue_calls (q, job) s'" and "wf_queue (q, job)" and "is_or_pruned q i s k"
  shows "is_or_pruned (fst s') i s k"
proof -
  have "is_or_pruned (fst s') i s k \<and> wf_queue s'"
    using assms unfolding queue_calls_def
  proof (induction rule: rtranclp_induct)
    case (step y z)
    then obtain now where "queue_step now y z" by blast
    with step request_is_step [of now "fst y" "snd y" "fst z" "snd z" i s k] wf_queue_step [of now y z]
    show ?case by (simp add: wf_queue_def)
  qed simp
  then show ?thesis ..
qed

lemma granted_calls:
  assumes "queue_calls (q, job) s'" and "wf_queue (q, job)" and "job_open q job"
  shows "job_open (fst s') (snd s') \<and> (granted_or_pruned q i \<longrightarrow> granted_or_pruned (fst s') i)"
proof -
  have "job_open (fst s') (snd s') \<and> (granted_or_pruned q i \<longrightarrow> granted_or_pruned (fst s') i) \<and> wf_queue s'"
    using assms unfolding queue_calls_def
  proof (induction rule: rtranclp_induct)
    case (step y z)
    then obtain now where st: "queue_step now (fst y, snd y) (fst z, snd z)" by auto
    with step have y: "ids_ok (fst y)" "job_open (fst y) (snd y)" "granted_or_pruned q i \<longrightarrow> granted_or_pruned (fst y) i" "wf_queue y"
      by (auto simp: wf_queue_def)
    from granted_step [OF st y(1,2), of i] job_open_step [OF st y(1,2)] y(3,4) wf_queue_step [of now y z] st
    show ?case by auto
  qed simp
  then show ?thesis by blast
qed

lemma freshly_granted_calls:
  assumes "queue_calls (q, job) (q', job')" and "wf_queue (q, job)" and "job_open q job" and "freshly_granted q req d"
  shows "freshly_granted q' req d"
  using assms(4) request_is_calls [OF assms(1,2)] granted_calls [OF assms(1-3)]
  unfolding freshly_granted_def by fastforce

lemma pc_ok_calls:
  assumes "queue_calls (q, job) (q', job')" and "wf_queue (q, job)" and "job_open q job" and "pc_ok q req pc"
  shows "pc_ok q' req pc"
  using assms(4) request_is_calls [OF assms(1,2)] freshly_granted_calls [OF assms(1-3)]
  by (cases pc) auto

section \<open>A handler's own step\<close>

lemma resolve_access_serves:
  "resolve_access w a caller st = (st', Inr (s, k)) \<Longrightarrow> access_of req = Some a \<Longrightarrow> serves req s k"
  by (auto simp: resolve_access_def serves_def scope_matches_def parse_token_def and_then_Inr Registry_resolve_def
      split: sum.splits prod.splits option.splits if_splits)

lemma state_of_granted: "ids_ok q \<Longrightarrow> Queue_state_of q i = Some StGranted \<Longrightarrow> granted_or_pruned q i"
  using find_request_unique [of q i]
  by (auto simp: Queue_state_of_def granted_or_pruned_def ids_ok_def find_request_Some [unfolded ids_ok_def])

lemma poll_granted:
  "poll_approval w wa st = (st', Some (ApprovalGranted src i)) \<Longrightarrow>
   i = Some (wa_id wa) \<and> st' = st \<and> Queue_state_of (ss_queue st) (wa_id wa) = Some StGranted"
  by (auto simp: poll_approval_def Let_def split: option.splits request_state.splits)

lemma enter_queue_request_is:
  "enter_queue w s k st = (st', Inr wa) \<Longrightarrow> ids_ok (ss_queue st) \<Longrightarrow> q_next_id (ss_queue st) < U64_MAX \<Longrightarrow>
   is_or_pruned (ss_queue st') (wa_id wa) s k"
  using enqueue_request_is [of s k "wo_now w" "ss_queue st"]
  by (auto simp: enter_queue_def split: sum.splits option.splits prod.splits)

lemma check_grant_fresh: "check_grant w s k True st = (st', r) \<Longrightarrow> r = None"
  by (auto simp: check_grant_def Let_def split: option.splits if_splits)

text \<open>An approval comes from the cache, where that is allowed, or from a granted request.\<close>

definition approval_ok :: "queue \<Rightarrow> scope \<Rightarrow> secret_name \<Rightarrow> bool \<Rightarrow> approval \<Rightarrow> bool" where
  "approval_ok q s k ff app \<longleftrightarrow>
     (\<forall>src i. app = ApprovalGranted src i \<longrightarrow>
        (i = None \<and> \<not> ff) \<or> (\<exists>j. i = Some j \<and> is_or_pruned q j s k \<and> granted_or_pruned q j))"

lemma approved_ok:
  "purpose_ok req p \<Longrightarrow> serves req s k \<Longrightarrow> approval_ok q s k (forces_fresh p) app \<Longrightarrow> pc_ok q req (approved p s k app)"
  by (cases p; cases app) (auto simp: approved_def wants_value_def approval_ok_def freshly_granted_def)

lemma poll_approval_ok:
  assumes "poll_approval w wa st = (st', Some app)" and "ids_ok (ss_queue st)" and "is_or_pruned (ss_queue st) (wa_id wa) s k"
  shows "approval_ok (ss_queue st') s k ff app"
  using assms poll_granted [of w wa st st'] state_of_granted [of "ss_queue st" "wa_id wa"]
  by (auto simp: approval_ok_def)

lemma poll_request_is:
  assumes "poll_approval w wa st = (st', r)" and "ids_ok (ss_queue st)" and "is_or_pruned (ss_queue st) (wa_id wa) s k"
  shows "r = None \<Longrightarrow> is_or_pruned (ss_queue st') (wa_id wa) s k"
  using assms by (auto simp: poll_approval_def Let_def split: option.splits request_state.splits)

lemma await_ok:
  assumes aw: "await_enter w s k ff st = (st', res)" and wf: "wf_queue (ss_queue st, job)"
    and n: "q_next_id (ss_queue st) < U64_MAX"
  shows "case res of Inl app \<Rightarrow> approval_ok (ss_queue st') s k ff app | Inr wa \<Rightarrow> is_or_pruned (ss_queue st') (wa_id wa) s k"
proof -
  obtain st1 a where 1: "check_grant w s k ff st = (st1, a)" by fastforce
  then have q1: "ss_queue st1 = ss_queue st" using check_grant_queue [of w s k ff st] by simp
  have ids: "ids_ok (ss_queue st)" using wf by (simp add: wf_queue_def)
  show ?thesis
  proof (cases a)
    case (Some app)
    then have "\<not> ff" using 1 check_grant_fresh [of w s k st] by auto
    moreover have "\<exists>src. app = ApprovalGranted src None"
      using 1 Some by (auto simp: check_grant_def Let_def split: option.splits if_splits)
    ultimately show ?thesis using aw 1 Some by (auto simp: await_enter_def approval_ok_def)
  next
    case None
    obtain st2 r where 2: "enter_queue w s k st1 = (st2, r)" by fastforce
    show ?thesis
    proof (cases r)
      case (Inl app)
      then have "\<exists>err. app = ApprovalRefused err"
        using 2 by (auto simp: enter_queue_def split: sum.splits option.splits prod.splits)
      then show ?thesis using aw 1 2 None Inl by (auto simp: await_enter_def approval_ok_def)
    next
      case (Inr wa)
      have is2: "is_or_pruned (ss_queue st2) (wa_id wa) s k"
        using enter_queue_request_is [of w s k st1 st2 wa] 2 Inr q1 ids n by simp
      have ids2: "ids_ok (ss_queue st2)"
        using wf_queue_calls [OF enter_queue_queue [of st1 job w s k]] wf 2 q1 n by (simp add: wf_queue_def)
      show ?thesis
        using aw 1 2 None Inr poll_approval_ok [of "later_world w" wa st2 _ _ s k ff, OF _ ids2 is2]
          poll_request_is [of "later_world w" wa st2 _ _ s k, OF _ ids2 is2]
        by (auto simp: await_enter_def split: prod.splits option.splits)
    qed
  qed
qed

lemma start_ok: "dispatch_start w caller req st = (st', pc') \<Longrightarrow> pc_ok q req pc'"
  by (cases req)
     (auto simp: dispatch_start_def Let_def dispatch_hello_def dispatch_register_def dispatch_unregister_def
      dispatch_grants_def dispatch_deny_def dispatch_lock_def dispatch_redeem_def plain_decision_def
      split: prod.splits sum.splits option.splits bool.splits if_splits)

lemma mint_ok:
  assumes "finish_authorization w c e d st = Some (st', d')" and "pc_ok q req (PcMint c e d)"
  shows "pc_ok q req (PcDone d')"
  using assms
  by (cases "de_outcome d"; cases "de_request_id d")
     (auto simp: finish_authorization_def freshly_granted_def receipt_mint_failure.simps
      split: if_splits prod.splits option.splits sum.splits request.splits elim!: receipt_mint_failure.elims; blast)+

lemma mint_queue: "finish_authorization w c e d st = Some (st', d') \<Longrightarrow> ss_queue st' = ss_queue st"
  by (auto simp: finish_authorization_def split: outcome.splits option.splits if_splits prod.splits sum.splits)

lemma handler_pc_ok:
  assumes h: "handler_step w caller pc st = (st', pc')" and pc: "pc_ok (ss_queue st) req pc"
    and wf: "wf_queue (ss_queue st, job)" and n: "q_next_id (ss_queue st) < U64_MAX"
  shows "pc_ok (ss_queue st') req pc'"
proof (cases pc)
  case (PcStart r)
  with h pc show ?thesis using start_ok by (simp add: handler_step_def)
next
  case (PcAuthorize c a)
  with h pc show ?thesis by (auto simp: handler_step_def split: request.splits)
next
  case (PcResolve p a)
  with h pc show ?thesis
    by (cases p) (auto simp: handler_step_def plain_decision_def dest: resolve_access_serves split: prod.splits sum.splits)
next
  case (PcEnter p s k)
  with h pc await_ok [OF _ wf n, of w s k "forces_fresh p"] show ?thesis
    by (auto simp: handler_step_def intro!: approved_ok split: prod.splits sum.splits)
next
  case (PcWait p s k wa)
  have ids: "ids_ok (ss_queue st)" using wf by (simp add: wf_queue_def)
  from PcWait h pc poll_approval_ok [OF _ ids, of w wa] poll_request_is [OF _ ids, of w wa] show ?thesis
    by (auto simp: handler_step_def intro!: approved_ok split: prod.splits option.splits)
next
  case (PcRelease s k src i)
  with h pc show ?thesis by (auto simp: handler_step_def release_value_def split: option.splits)
next
  case (PcMint c e d)
  with h show ?thesis
    using pc mint_ok [of w c e d st st' _ "ss_queue st" req] mint_queue [of w c e d st st']
    by (auto simp del: pc_ok.simps simp: handler_step_def split: option.splits)
next
  case (PcDone d)
  with h pc show ?thesis by (simp add: handler_step_def)
qed

section \<open>The invariant of the daemon\<close>

definition broker_ok :: "broker \<Rightarrow> bool" where
  "broker_ok b \<longleftrightarrow>
     (let st = br_state b; q = ss_queue st; job = queue_job (br_worker b) in
      tables_ok st \<and> wf_queue (q, job) \<and> job_open q job
      \<and> (\<forall>j. worker_job_of (br_worker b) = Some j \<longrightarrow> is_or_pruned q (jb_id j) (jb_scope j) (jb_key j))
      \<and> (\<forall>n c. br_connections b n = Some c \<longrightarrow> pc_ok q (cn_request c) (cn_pc c)))"

lemma describe_request_is: "ids_ok q \<Longrightarrow> Queue_describe q i = Some (s, k) \<Longrightarrow> is_or_pruned q i s k"
  using find_request_unique [of q i]
  by (auto simp: Queue_describe_def is_or_pruned_def find_request_Some) (auto simp: ids_ok_def)

lemma pick_request_is:
  assumes "worker_pick w st = (st', Some job)" and "wf_queue (ss_queue st, None)"
  shows "is_or_pruned (ss_queue st') (jb_id job) (jb_scope job) (jb_key job)"
proof -
  have "ids_ok (ss_queue st')" using wf_queue_calls [OF pick_queue [OF assms(1)] assms(2)] by (simp add: wf_queue_def)
  then show ?thesis using assms(1) describe_request_is [of "ss_queue st'" "jb_id job" "jb_scope job" "jb_key job"]
    by (auto simp: worker_pick_def Let_def split: option.splits prod.splits)
qed

lemma worker_job_request_is:
  assumes "worker_step w run pc st = (st', pc')" and "wf_queue (ss_queue st, queue_job pc)"
    and "\<And>j. worker_job_of pc = Some j \<Longrightarrow> is_or_pruned (ss_queue st) (jb_id j) (jb_scope j) (jb_key j)"
    and "worker_job_of pc' = Some j"
  shows "is_or_pruned (ss_queue st') (jb_id j) (jb_scope j) (jb_key j)"
  using assms pick_request_is [of w st st' j]
  by (cases pc)
     (auto simp: worker_step_def queue_job_def worker_started_def split: prod.splits option.splits sum.splits if_splits)

lemma State_new_parts:
  "State_new boot random c = Inr st \<Longrightarrow>
     (\<exists>id. ss_registry st = Registry_new id) \<and> ss_grants st = GrantTable_default \<and> ss_receipts st = ReceiptTable_default
     \<and> (\<exists>limits. ss_queue st = Queue_new limits) \<and> ss_lock_epoch st = 0"
  by (auto simp: State_new_def and_then_Inr)

lemma tables_initial: "State_new boot random c = Inr st \<Longrightarrow> tables_ok st"
  by (drule State_new_parts)
     (auto simp: tables_ok_def wf_receipts_def ReceiptTable_default_def grants_registered_def grants_map_default)

lemma broker_initial_ok: "broker_initial b \<Longrightarrow> broker_ok b"
  by (auto simp: broker_initial_def broker_ok_def Let_def queue_job_def job_open_def wf_queue_new
      intro: tables_initial dest: State_new_parts)

lemma broker_step_ok: "broker_step b b' \<Longrightarrow> broker_ok b \<Longrightarrow> broker_ok b'"
proof (induction rule: broker_step.induct)
  case (accept b n caller request)
  then show ?case by (auto simp: broker_ok_def Let_def)
next
  case (handle b n c w st' pc')
  let ?q = "ss_queue (br_state b)" and ?job = "queue_job (br_worker b)"
  have ok: "tables_ok (br_state b)" "wf_queue (?q, ?job)" "job_open ?q ?job"
    using handle.prems by (auto simp: broker_ok_def Let_def)
  have calls: "queue_calls (?q, ?job) (ss_queue st', ?job)"
    using handler_queue [OF handle.hyps(2), of ?job w "cn_caller c" "cn_pc c"] handle.hyps(3) by simp
  have "tables_ok st'" using tables_handler [OF ok(1), of w "cn_caller c" "cn_pc c"] handle.hyps(3) by simp
  moreover have "wf_queue (ss_queue st', ?job)" by (rule wf_queue_calls [OF calls ok(2)])
  moreover have "job_open (ss_queue st') ?job" using granted_calls [OF calls ok(2,3)] by simp
  moreover have "is_or_pruned (ss_queue st') (jb_id j) (jb_scope j) (jb_key j)" if "worker_job_of (br_worker b) = Some j" for j
    using request_is_calls [OF calls ok(2)] that handle.prems by (auto simp: broker_ok_def Let_def)
  moreover have "pc_ok (ss_queue st') (cn_request c') (cn_pc c')" if "br_connections b m = Some c'" for m c'
    using pc_ok_calls [OF calls ok(2,3)] that handle.prems by (auto simp: broker_ok_def Let_def)
  moreover have "pc_ok (ss_queue st') (cn_request c) pc'"
    using handler_pc_ok [OF handle.hyps(3) _ ok(2) handle.hyps(2)] handle.hyps(1) handle.prems
    by (auto simp: broker_ok_def Let_def)
  ultimately show ?case by (auto simp: broker_ok_def Let_def)
next
  case (work w run b st' pc')
  let ?q = "ss_queue (br_state b)" and ?job = "queue_job (br_worker b)"
  have ok: "tables_ok (br_state b)" "wf_queue (?q, ?job)" "job_open ?q ?job"
    using work.prems by (auto simp: broker_ok_def Let_def)
  note calls = worker_queue [OF work.hyps]
  have "tables_ok st'" using tables_worker [OF work.hyps ok(1)] ok(2) by (simp add: wf_queue_def)
  moreover have "wf_queue (ss_queue st', queue_job pc')" by (rule wf_queue_calls [OF calls ok(2)])
  moreover have "job_open (ss_queue st') (queue_job pc')" using granted_calls [OF calls ok(2,3)] by simp
  moreover have "is_or_pruned (ss_queue st') (jb_id j) (jb_scope j) (jb_key j)" if "worker_job_of pc' = Some j" for j
    by (rule worker_job_request_is [OF work.hyps ok(2) _ that]) (use work.prems in \<open>auto simp: broker_ok_def Let_def\<close>)
  moreover have "pc_ok (ss_queue st') (cn_request c') (cn_pc c')" if "br_connections b m = Some c'" for m c'
    using pc_ok_calls [OF calls ok(2,3)] that work.prems by (auto simp: broker_ok_def Let_def)
  ultimately show ?case by (auto simp: broker_ok_def Let_def)
qed

interpretation daemon: kept_invariant broker_initial broker_step broker_ok
  by unfold_locales (auto intro: broker_initial_ok broker_step_ok)

lemma reachable_ok: "broker_reachable b \<Longrightarrow> broker_ok b"
  unfolding broker_reachable_def using daemon.reachable_inv by blast

section \<open>Lock epochs\<close>

text \<open>The epoch only grows, and what a job or an authorization remembers of it is no later than now.\<close>

fun pc_epoch :: "handler_pc \<Rightarrow> nat option" where
  "pc_epoch (PcResolve (ForReceipt _ e) _) = Some e"
| "pc_epoch (PcEnter (ForReceipt _ e) _ _) = Some e"
| "pc_epoch (PcWait (ForReceipt _ e) _ _ _) = Some e"
| "pc_epoch (PcMint _ e _) = Some e"
| "pc_epoch _ = None"

definition epochs_ok :: "broker \<Rightarrow> bool" where
  "epochs_ok b \<longleftrightarrow>
     (\<forall>job. worker_job_of (br_worker b) = Some job \<longrightarrow> jb_lock_epoch job \<le> ss_lock_epoch (br_state b))
     \<and> (\<forall>n c e. br_connections b n = Some c \<longrightarrow> pc_epoch (cn_pc c) = Some e \<longrightarrow> e \<le> ss_lock_epoch (br_state b))
     \<and> ss_lock_epoch (br_state b) \<le> U64_MAX"

lemma check_grant_epoch [simp]: "ss_lock_epoch (fst (check_grant w s k ff st)) = ss_lock_epoch st"
  by (auto simp: check_grant_def Let_def split: option.split)

lemma enter_epoch [simp]: "ss_lock_epoch (fst (enter_queue w s k st)) = ss_lock_epoch st"
  by (auto simp: enter_queue_def split: option.split sum.split prod.split)

lemma poll_epoch [simp]: "ss_lock_epoch (fst (poll_approval w wa st)) = ss_lock_epoch st"
  by (auto simp: poll_approval_def Let_def split: option.split request_state.split)

lemma await_epoch [simp]: "ss_lock_epoch (fst (await_enter w s k ff st)) = ss_lock_epoch st"
proof -
  obtain st1 a where 1: "check_grant w s k ff st = (st1, a)" by fastforce
  obtain st2 r where 2: "enter_queue w s k st1 = (st2, r)" by fastforce
  have e: "ss_lock_epoch st1 = ss_lock_epoch st" "ss_lock_epoch st2 = ss_lock_epoch st1"
    using check_grant_epoch [of w s k ff st] enter_epoch [of w s k st1] 1 2 by simp_all
  have "ss_lock_epoch st3 = ss_lock_epoch st2" if "poll_approval (later_world w) wa st2 = (st3, r')" for wa st3 r'
    using poll_epoch [of "later_world w" wa st2] that by simp
  with 1 2 e show ?thesis by (auto simp: await_enter_def split: option.split sum.split prod.split)
qed

lemma resolve_epoch [simp]: "ss_lock_epoch (fst (resolve_access w a caller st)) = ss_lock_epoch st"
  by (auto simp: resolve_access_def split: sum.split prod.split)

lemma mint_epoch: "finish_authorization w c e d st = Some (st', d') \<Longrightarrow> ss_lock_epoch st' = ss_lock_epoch st"
  by (auto simp: finish_authorization_def split: outcome.splits option.splits if_splits prod.splits sum.splits)

lemma start_epoch:
  "ss_lock_epoch (fst (dispatch_start w caller req st)) =
     (if req = Lock then saturating_add_u64 (ss_lock_epoch st) 1 else ss_lock_epoch st)"
  by (cases req)
     (auto simp: dispatch_start_def Let_def dispatch_hello_def dispatch_register_def dispatch_unregister_def
      dispatch_grants_def dispatch_deny_def dispatch_lock_def dispatch_redeem_def
      split: prod.split sum.split option.split bool.split)

lemma handler_epoch:
  "ss_lock_epoch (fst (handler_step w caller pc st)) =
     (if pc = PcStart Lock then saturating_add_u64 (ss_lock_epoch st) 1 else ss_lock_epoch st)"
  by (cases pc) (simp_all only: handler_step_fst, auto simp: handler_step_def start_epoch dest: mint_epoch split: option.split)

lemma handler_epoch_mono:
  "ss_lock_epoch st \<le> U64_MAX \<Longrightarrow> ss_lock_epoch st \<le> ss_lock_epoch (fst (handler_step w caller pc st))
     \<and> ss_lock_epoch (fst (handler_step w caller pc st)) \<le> U64_MAX"
  by (simp add: handler_epoch saturating_add_u64_def)

lemma pick_epoch: "worker_pick w st = (st', r) \<Longrightarrow> ss_lock_epoch st' = ss_lock_epoch st \<and> (\<forall>job. r = Some job \<longrightarrow> jb_lock_epoch job = ss_lock_epoch st)"
  by (auto simp: worker_pick_def Let_def split: option.splits prod.splits)

lemma worker_epoch:
  "worker_step w run pc st = (st', pc') \<Longrightarrow> ss_lock_epoch st' = ss_lock_epoch st
     \<and> (\<forall>job. worker_job_of pc' = Some job \<longrightarrow> worker_job_of pc = Some job \<or> jb_lock_epoch job = ss_lock_epoch st)"
  using pick_epoch [of w st]
  by (cases pc) (auto simp: worker_step_def worker_started_def split: prod.splits option.splits sum.splits if_splits)

lemma approved_epoch: "pc_epoch (approved p s k app) = Some e \<Longrightarrow> \<exists>c. p = ForReceipt c e"
  by (cases p) (auto simp: approved_def wants_value_def split: approval.splits)

lemma handler_pc_epoch:
  "handler_step w caller pc st = (st', pc') \<Longrightarrow> pc_epoch pc' = Some e \<Longrightarrow> pc_epoch pc = Some e \<or> e = ss_lock_epoch st"
  using approved_epoch [of _ _ _ _ e]
  by (cases pc)
     (auto simp: handler_step_def dispatch_start_def Let_def release_value_def
       dest!: approved_epoch
       split: prod.splits sum.splits option.splits request.splits if_splits elim!: access_done.elims pc_epoch.elims)

lemma epochs_initial: "broker_initial b \<Longrightarrow> epochs_ok b"
  by (auto simp: broker_initial_def epochs_ok_def dest: State_new_parts)

lemma epochs_step: "broker_step b b' \<Longrightarrow> epochs_ok b \<Longrightarrow> epochs_ok b' \<and> ss_lock_epoch (br_state b) \<le> ss_lock_epoch (br_state b')"
proof (induction rule: broker_step.induct)
  case (accept b n caller request)
  then show ?case by (auto simp: epochs_ok_def)
next
  case (handle b n c w st' pc')
  from handle.prems have le: "ss_lock_epoch (br_state b) \<le> ss_lock_epoch st' \<and> ss_lock_epoch st' \<le> U64_MAX"
    using handler_epoch_mono [of "br_state b" w "cn_caller c" "cn_pc c"] handle.hyps(3) by (simp add: epochs_ok_def)
  with handle handler_pc_epoch [OF handle.hyps(3)] show ?case
    by (auto simp: epochs_ok_def) (meson le_trans order_refl)+
next
  case (work w run b st' pc')
  with worker_epoch [OF work.hyps] show ?case by (auto simp: epochs_ok_def)
qed

interpretation epochs: kept_invariant broker_initial broker_step epochs_ok
  by unfold_locales (auto intro: epochs_initial dest: epochs_step)

lemma epochs_steps:
  "broker_step\<^sup>*\<^sup>* b b' \<Longrightarrow> epochs_ok b \<Longrightarrow> ss_lock_epoch (br_state b) \<le> ss_lock_epoch (br_state b')"
proof (induction rule: rtranclp_induct)
  case (step y z)
  then show ?case using epochs_step [of y z] epochs.steps_inv [of b y] by auto
qed simp

section \<open>One approval, one receipt\<close>

text \<open>The request whose approval a handler turns, or has turned, into a receipt. Requests for capabilities are
  never shared, so no two handlers claim the same one.\<close>

fun receipt_claim :: "handler_pc \<Rightarrow> request_id option" where
  "receipt_claim (PcWait (ForReceipt _ _) _ _ wa) = Some (wa_id wa)"
| "receipt_claim (PcMint _ _ d) = de_request_id d"
| "receipt_claim (PcDone d) = (case de_outcome d of OutReceipt _ \<Rightarrow> de_request_id d | _ \<Rightarrow> None)"
| "receipt_claim _ = None"

definition claims_in :: "(nat \<Rightarrow> connection option) \<Rightarrow> request_id \<Rightarrow> bool" where
  "claims_in cs next_id \<longleftrightarrow>
     (\<forall>n c i. cs n = Some c \<longrightarrow> receipt_claim (cn_pc c) = Some i \<longrightarrow>
        i < next_id \<and> (\<forall>m c'. cs m = Some c' \<longrightarrow> receipt_claim (cn_pc c') = Some i \<longrightarrow> m = n))"

definition claims_ok :: "broker \<Rightarrow> bool" where
  "claims_ok b \<longleftrightarrow> claims_in (br_connections b) (q_next_id (ss_queue (br_state b)))"

lemma calls_next_id:
  assumes "queue_calls (q, job) s'" and "wf_queue (q, job)"
  shows "q_next_id q \<le> q_next_id (fst s')"
proof -
  have "q_next_id q \<le> q_next_id (fst s') \<and> wf_queue s'"
    using assms unfolding queue_calls_def
  proof (induction rule: rtranclp_induct)
    case (step y z)
    then obtain now where "queue_step now y z" by blast
    with step next_id_mono [of now "fst y" "snd y" "fst z" "snd z"] wf_queue_step [of now y z]
    show ?case by (simp add: wf_queue_def)
  qed simp
  then show ?thesis ..
qed

lemma serves_receipt_capability: "serves req s k \<Longrightarrow> purpose_ok req (ForReceipt c e) \<Longrightarrow> capability_key k"
  by (auto simp: serves_def capability_key_def Capability_key_name_def is_capability_key_def SecretName_parse_Inr
      split: request.splits)

lemma enqueue_capability_fresh:
  "capability_key k \<Longrightarrow> Queue_enqueue s k now q = (q', Inr i) \<Longrightarrow> i = q_next_id q \<and> q_next_id q' = saturating_add_u64 (q_next_id q) 1"
  by (auto simp: Queue_enqueue_def Let_def split: if_splits option.splits)

lemma enter_capability_fresh:
  "capability_key k \<Longrightarrow> enter_queue w s k st = (st', Inr wa) \<Longrightarrow> q_next_id (ss_queue st) < U64_MAX \<Longrightarrow>
   wa_id wa = q_next_id (ss_queue st) \<and> q_next_id (ss_queue st) < q_next_id (ss_queue st')"
  by (auto simp: enter_queue_def saturating_add_u64_def split: sum.splits option.splits prod.splits
      dest!: enqueue_capability_fresh)

fun approval_id :: "approval \<Rightarrow> request_id option" where
  "approval_id (ApprovalGranted _ i) = i"
| "approval_id (ApprovalRefused _) = None"
| "approval_id (ApprovalIncomplete _ i) = Some i"

lemma approved_claim: "receipt_claim (approved p s k app) = Some i \<Longrightarrow> (\<exists>c e. p = ForReceipt c e) \<and> approval_id app = Some i"
  by (cases p; cases app) (auto simp: approved_def wants_value_def)

lemma poll_claim:
  "poll_approval w wa st = (st', Some app) \<Longrightarrow> approval_id app = Some (wa_id wa)"
  by (auto simp: poll_approval_def Let_def split: option.splits request_state.splits)

lemma poll_next_id: "poll_approval w wa st = (st', r) \<Longrightarrow> q_next_id (ss_queue st') = q_next_id (ss_queue st)"
  by (auto simp: poll_approval_def Let_def Queue_timeout_def Queue_finish_def update_request_def
      split: option.splits request_state.splits)

lemma await_claim:
  assumes aw: "await_enter w s k True st = (st', res)" and "capability_key k" and n: "q_next_id (ss_queue st) < U64_MAX"
    and i: "(\<exists>app. res = Inl app \<and> approval_id app = Some i) \<or> (\<exists>wa. res = Inr wa \<and> wa_id wa = i)"
  shows "i = q_next_id (ss_queue st) \<and> i < q_next_id (ss_queue st')"
proof -
  obtain st1 a where 1: "check_grant w s k True st = (st1, a)" by fastforce
  then have q1: "ss_queue st1 = ss_queue st" "a = None"
    using check_grant_queue [of w s k True st] check_grant_fresh [of w s k st] by auto
  obtain st2 r where 2: "enter_queue w s k st1 = (st2, r)" by fastforce
  show ?thesis
  proof (cases r)
    case (Inl app)
    then have "approval_id app = None" using 2 by (auto simp: enter_queue_def split: sum.splits option.splits prod.splits)
    with aw 1 2 Inl q1 i show ?thesis by (auto simp: await_enter_def)
  next
    case (Inr wa)
    from enter_capability_fresh [OF assms(2), of w s st1 st2 wa] 2 Inr q1 n
    have wa: "wa_id wa = q_next_id (ss_queue st)" "q_next_id (ss_queue st) < q_next_id (ss_queue st2)" by auto
    obtain st3 ro where 3: "poll_approval (later_world w) wa st2 = (st3, ro)" by fastforce
    with aw 1 2 Inr q1 have "st' = st3" "res = (case ro of Some app \<Rightarrow> Inl app | None \<Rightarrow> Inr wa)"
      by (auto simp: await_enter_def split: option.splits)
    with wa i 3 poll_claim [of "later_world w" wa st2 st3] poll_next_id [OF 3] show ?thesis by (auto split: option.splits)
  qed
qed

lemma handler_claim:
  assumes h: "handler_step w caller pc st = (st', pc')" and pc: "pc_ok q req pc"
    and n: "q_next_id (ss_queue st) < U64_MAX" and i: "receipt_claim pc' = Some i"
  shows "receipt_claim pc = Some i \<or> (i = q_next_id (ss_queue st) \<and> i < q_next_id (ss_queue st'))"
proof (cases pc)
  case (PcStart r)
  then show ?thesis using h i
    by (auto simp: handler_step_def dispatch_start_def Let_def dispatch_hello_def dispatch_register_def dispatch_unregister_def
      dispatch_grants_def dispatch_deny_def dispatch_lock_def dispatch_redeem_def plain_decision_def
      split: prod.splits sum.splits option.splits bool.splits if_splits request.splits)
next
  case (PcResolve p a)
  then show ?thesis using h i by (cases p) (auto simp: handler_step_def plain_decision_def split: prod.splits sum.splits)
next
  case (PcEnter p s k)
  obtain res where aw: "await_enter w s k (forces_fresh p) st = (st', res)"
    using h PcEnter by (auto simp: handler_step_def split: prod.splits sum.splits)
  then have pc': "pc' = (case res of Inl app \<Rightarrow> approved p s k app | Inr wa \<Rightarrow> PcWait p s k wa)"
    using h PcEnter by (auto simp: handler_step_def split: sum.splits)
  then obtain c e where p: "p = ForReceipt c e" using i by (cases p) (auto split: sum.splits dest: approved_claim)
  with PcEnter pc have "capability_key k" using serves_receipt_capability by auto
  from await_claim [of w s k st st' res, OF _ this n] aw p pc' i show ?thesis
    by (auto split: sum.splits dest: approved_claim)
next
  case (PcWait p s k wa)
  with h i show ?thesis
    by (cases p) (auto simp: handler_step_def split: prod.splits option.splits dest!: approved_claim poll_claim)
next
  case (PcMint c e d)
  with h i show ?thesis
    by (auto simp: handler_step_def finish_authorization_def split: outcome.splits option.splits if_splits prod.splits sum.splits)
qed (use h i in \<open>auto simp: handler_step_def release_value_def split: option.splits\<close>)

lemma claims_ok_sub:
  assumes "claims_ok b" and "q_next_id (ss_queue (br_state b)) \<le> q_next_id (ss_queue (br_state b'))"
    and "\<And>m c i. br_connections b' m = Some c \<Longrightarrow> receipt_claim (cn_pc c) = Some i \<Longrightarrow> br_connections b m = Some c"
  shows "claims_ok b'"
  using assms unfolding claims_ok_def claims_in_def by (meson less_le_trans)

lemma claims_step: "broker_step b b' \<Longrightarrow> broker_ok b \<Longrightarrow> claims_ok b \<Longrightarrow> claims_ok b'"
proof (induction rule: broker_step.induct)
  case (accept b n caller request)
  from accept.prems(2) show ?case by (rule claims_ok_sub) (auto split: if_splits)
next
  case (handle b n c w st' pc')
  let ?q = "ss_queue (br_state b)"
  have ok: "wf_queue (?q, queue_job (br_worker b))" "pc_ok ?q (cn_request c) (cn_pc c)"
    using handle.prems(1) handle.hyps(1) by (auto simp: broker_ok_def Let_def)
  have le: "q_next_id ?q \<le> q_next_id (ss_queue st')"
    using calls_next_id [OF handler_queue [OF handle.hyps(2)] ok(1), of w "cn_caller c" "cn_pc c"] handle.hyps(3) by simp
  let ?cs = "(br_connections b)(n \<mapsto> c\<lparr>cn_pc := pc'\<rparr>)"
  have claim: "(\<exists>c1. br_connections b m = Some c1 \<and> receipt_claim (cn_pc c1) = Some i)
      \<or> (m = n \<and> i = q_next_id ?q \<and> i < q_next_id (ss_queue st'))"
    if "?cs m = Some c'" "receipt_claim (cn_pc c') = Some i" for m c' i
    using handler_claim [OF handle.hyps(3) ok(2) handle.hyps(2), of i] that handle.hyps(1) by (auto split: if_splits)
  have old: "i < q_next_id ?q" "br_connections b m' = Some c2 \<Longrightarrow> receipt_claim (cn_pc c2) = Some i \<Longrightarrow> m' = m"
    if "br_connections b m = Some c1" "receipt_claim (cn_pc c1) = Some i" for m c1 m' c2 i
    using handle.prems(2) that unfolding claims_ok_def claims_in_def by blast+
  have "i < q_next_id (ss_queue st')" if "?cs m = Some c'" "receipt_claim (cn_pc c') = Some i" for m c' i
    using claim [OF that] old(1) le by (auto intro: less_le_trans)
  moreover have "m' = m"
    if new: "?cs m = Some c1" "receipt_claim (cn_pc c1) = Some i" "?cs m' = Some c2" "receipt_claim (cn_pc c2) = Some i"
    for m c1 m' c2 i
  proof (cases "i < q_next_id ?q")
    case True
    then obtain d1 d2 where "br_connections b m = Some d1" "receipt_claim (cn_pc d1) = Some i"
        "br_connections b m' = Some d2" "receipt_claim (cn_pc d2) = Some i"
      using claim [OF new(1,2)] claim [OF new(3,4)] by (elim disjE exE conjE) simp_all
    then show ?thesis by (rule old(2))
  next
    case False
    then have "m = n" "m' = n" using claim [OF new(1,2)] claim [OF new(3,4)] by (auto dest: old(1))
    then show ?thesis by simp
  qed
  ultimately have "claims_in ?cs (q_next_id (ss_queue st'))" unfolding claims_in_def by blast
  then show ?case by (simp add: claims_ok_def)
next
  case (work w run b st' pc')
  let ?q = "ss_queue (br_state b)"
  have "q_next_id ?q \<le> q_next_id (ss_queue st')"
    using calls_next_id [OF worker_queue [OF work.hyps]] work.prems(1) by (simp add: broker_ok_def Let_def)
  with work.prems(2) show ?case by (auto intro: claims_ok_sub)
qed

interpretation claims: kept_invariant broker_initial broker_step "\<lambda>b. broker_ok b \<and> claims_ok b"
proof unfold_locales
  show "broker_initial b \<Longrightarrow> broker_ok b \<and> claims_ok b" for b
    using broker_initial_ok [of b] by (simp add: broker_initial_def claims_ok_def claims_in_def)
  show "broker_step b b' \<Longrightarrow> broker_ok b \<and> claims_ok b \<Longrightarrow> broker_ok b' \<and> claims_ok b'" for b b'
    using broker_step_ok claims_step by blast
qed

section \<open>A receipt's approval was seen\<close>

text \<open>Some earlier state of the daemon had the connection waiting for the request, and the queue had the request's
  entry there, of the handler's own scope and key, and granted.\<close>

definition approval_seen :: "broker \<Rightarrow> nat \<Rightarrow> request \<Rightarrow> request_id \<Rightarrow> scope \<Rightarrow> secret_name \<Rightarrow> bool" where
  "approval_seen b n req i s k \<longleftrightarrow>
     (\<exists>b1 c1 cap e wa r. broker_reachable b1 \<and> broker_step\<^sup>*\<^sup>* b1 b
        \<and> br_connections b1 n = Some c1 \<and> cn_request c1 = req \<and> cn_pc c1 = PcWait (ForReceipt cap e) s k wa \<and> wa_id wa = i
        \<and> find_request (ss_queue (br_state b1)) i = Some r
        \<and> pr_state r = StGranted \<and> pr_scope r = s \<and> pr_key r = k)"

lemma approval_seen_step: "approval_seen b n req i s k \<Longrightarrow> broker_step b b' \<Longrightarrow> approval_seen b' n req i s k"
  using rtranclp.rtrancl_into_rtrancl [of broker_step _ b b'] unfolding approval_seen_def by blast

text \<open>The request behind a decision that grants, or that carries a receipt.\<close>

fun granted_claim :: "handler_pc \<Rightarrow> request_id option" where
  "granted_claim (PcMint _ _ d) = (case de_outcome d of OutFields _ \<Rightarrow> de_request_id d | _ \<Rightarrow> None)"
| "granted_claim (PcDone d) = (case de_outcome d of OutReceipt _ \<Rightarrow> de_request_id d | _ \<Rightarrow> None)"
| "granted_claim _ = None"

lemma approved_granted_claim:
  "granted_claim (approved p s k app) = Some i \<Longrightarrow> (\<exists>c e. p = ForReceipt c e) \<and> (\<exists>src. app = ApprovalGranted src (Some i))"
  by (cases p; cases app) (auto simp: approved_def wants_value_def)

lemma enqueue_capability_pending:
  assumes "capability_key k" and "Queue_enqueue s k now q = (q', Inr i)" and "ids_ok q" and "q_next_id q < U64_MAX"
  shows "Queue_state_of q' i = Some StPending"
  using assms(2)
proof (cases rule: enqueue_cases)
  case (added r)
  have "ids_ok q'" using added(1,2,8) assms(3,4) by (auto simp: ids_ok_def less_Suc_eq saturating_add_u64_def)
  then have "find_request q' i = Some r" using added by (simp add: find_request_Some)
  with added(5) show ?thesis by (simp add: Queue_state_of_def)
qed (use assms(1) in simp_all)

text \<open>A request for a capability is new when it enters the queue, so no approval is seen on entering.\<close>

lemma await_not_granted:
  assumes aw: "await_enter w s k True st = (st', Inl (ApprovalGranted src i))" and k: "capability_key k"
    and ids: "ids_ok (ss_queue st)" and n: "q_next_id (ss_queue st) < U64_MAX"
  shows False
proof -
  obtain st1 a where 1: "check_grant w s k True st = (st1, a)" by fastforce
  then have q1: "ss_queue st1 = ss_queue st" "a = None"
    using check_grant_queue [of w s k True st] check_grant_fresh [of w s k st] by auto
  obtain st2 r where 2: "enter_queue w s k st1 = (st2, r)" by fastforce
  show ?thesis
  proof (cases r)
    case (Inl app)
    with 2 have "app \<noteq> ApprovalGranted src i" by (auto simp: enter_queue_def split: sum.splits option.splits prod.splits)
    with aw 1 2 Inl q1 show ?thesis by (simp add: await_enter_def)
  next
    case (Inr wa)
    with 2 have "Queue_state_of (ss_queue st2) (wa_id wa) = Some StPending"
      using enqueue_capability_pending [OF k, of s "wo_now w" "ss_queue st1"] ids n q1
      by (auto simp: enter_queue_def split: sum.splits option.splits prod.splits)
    moreover obtain st3 ro where 3: "poll_approval (later_world w) wa st2 = (st3, ro)" by fastforce
    with aw 1 2 Inr q1 have "ro = Some (ApprovalGranted src i)" by (auto simp: await_enter_def split: option.splits)
    with poll_granted 3 have "Queue_state_of (ss_queue st2) (wa_id wa) = Some StGranted" by blast
    ultimately show ?thesis by simp
  qed
qed

lemma handler_granted_claim:
  assumes h: "handler_step w caller pc st = (st', pc')" and pc: "pc_ok (ss_queue st) req pc"
    and ids: "ids_ok (ss_queue st)" and n: "q_next_id (ss_queue st) < U64_MAX" and i: "granted_claim pc' = Some i"
  shows "granted_claim pc = Some i
    \<or> (\<exists>cap e s k wa. pc = PcWait (ForReceipt cap e) s k wa \<and> wa_id wa = i \<and> Queue_state_of (ss_queue st) i = Some StGranted)"
proof (cases pc)
  case (PcStart r)
  then show ?thesis using h i
    by (auto simp: handler_step_def dispatch_start_def Let_def dispatch_hello_def dispatch_register_def dispatch_unregister_def
      dispatch_grants_def dispatch_deny_def dispatch_lock_def dispatch_redeem_def plain_decision_def
      split: prod.splits sum.splits option.splits bool.splits if_splits request.splits)
next
  case (PcResolve p a)
  then show ?thesis using h i by (cases p) (auto simp: handler_step_def plain_decision_def split: prod.splits sum.splits)
next
  case (PcEnter p s k)
  with h i obtain app where aw: "await_enter w s k (forces_fresh p) st = (st', Inl app)" "pc' = approved p s k app"
    by (auto simp: handler_step_def split: prod.splits sum.splits)
  with approved_granted_claim i obtain c e src where p: "p = ForReceipt c e" "app = ApprovalGranted src (Some i)" by metis
  with PcEnter pc have "capability_key k" using serves_receipt_capability by auto
  with await_not_granted ids n aw p show ?thesis by fastforce
next
  case (PcWait p s k wa)
  with h i show ?thesis
    by (auto simp: handler_step_def split: prod.splits option.splits dest!: approved_granted_claim poll_granted)
next
  case (PcMint c e d)
  with h i pc show ?thesis
    by (auto simp: handler_step_def finish_authorization_def split: outcome.splits option.splits if_splits prod.splits sum.splits)
qed (use h i in \<open>auto simp: handler_step_def release_value_def split: option.splits\<close>)

definition approvals_seen :: "broker \<Rightarrow> bool" where
  "approvals_seen b \<longleftrightarrow>
     (\<forall>n c i. br_connections b n = Some c \<longrightarrow> granted_claim (cn_pc c) = Some i \<longrightarrow>
        (\<exists>s k. serves (cn_request c) s k \<and> approval_seen b n (cn_request c) i s k))"

lemma approvals_seen_mono:
  assumes "approvals_seen b" and "broker_step b b'" and "br_connections b n = Some c" and "granted_claim (cn_pc c) = Some i"
  shows "\<exists>s k. serves (cn_request c) s k \<and> approval_seen b' n (cn_request c) i s k"
  using assms approval_seen_step unfolding approvals_seen_def by blast

lemma granted_entry_seen:
  assumes r: "broker_reachable b" and "br_connections b n = Some c" and "cn_pc c = PcWait (ForReceipt cap e) s k wa"
    and "Queue_state_of (ss_queue (br_state b)) (wa_id wa) = Some StGranted"
  shows "serves (cn_request c) s k \<and> approval_seen b n (cn_request c) (wa_id wa) s k"
proof -
  let ?q = "ss_queue (br_state b)"
  have "pc_ok ?q (cn_request c) (cn_pc c)" and ids: "ids_ok ?q"
    using reachable_ok [OF r] assms(2) by (auto simp: broker_ok_def Let_def wf_queue_def)
  with assms(3) have ok: "serves (cn_request c) s k" "is_or_pruned ?q (wa_id wa) s k" by simp_all
  obtain en where "find_request ?q (wa_id wa) = Some en" "pr_state en = StGranted"
    using assms(4) by (auto simp: Queue_state_of_def)
  moreover from this(1) ok(2) ids have "pr_scope en = s" "pr_key en = k" by (auto simp: is_or_pruned_def find_request_Some)
  ultimately show ?thesis using r assms(2,3) ok(1) unfolding approval_seen_def by blast
qed

lemma approvals_seen_step:
  assumes "broker_step b b'" and "broker_reachable b" and "approvals_seen b"
  shows "approvals_seen b'"
  using assms
proof (induction rule: broker_step.induct)
  case (accept b n caller request)
  from approvals_seen_mono [OF accept.prems(2) broker_step.accept [OF accept.hyps]] show ?case
    unfolding approvals_seen_def by (auto split: if_splits)
next
  case (handle b n c w st' pc')
  let ?b' = "b\<lparr>br_state := st', br_connections := (br_connections b)(n \<mapsto> c\<lparr>cn_pc := pc'\<rparr>)\<rparr>"
  note step = broker_step.handle [OF handle.hyps]
  have ok: "pc_ok (ss_queue (br_state b)) (cn_request c) (cn_pc c)" "ids_ok (ss_queue (br_state b))"
    using reachable_ok [OF handle.prems(1)] handle.hyps(1) by (auto simp: broker_ok_def Let_def wf_queue_def)
  have own: "\<exists>s k. serves (cn_request c) s k \<and> approval_seen ?b' n (cn_request c) i s k" if "granted_claim pc' = Some i" for i
    using handler_granted_claim [OF handle.hyps(3) ok handle.hyps(2) that]
      approvals_seen_mono [OF handle.prems(2) step handle.hyps(1), of i]
      granted_entry_seen [OF handle.prems(1) handle.hyps(1)] approval_seen_step [OF _ step]
    by blast
  have "\<exists>s k. serves (cn_request c') s k \<and> approval_seen ?b' m (cn_request c') i s k"
    if "br_connections ?b' m = Some c'" "granted_claim (cn_pc c') = Some i" for m c' i
    using that own approvals_seen_mono [OF handle.prems(2) step, of m c' i] by (cases "m = n") auto
  then show ?case unfolding approvals_seen_def by blast
next
  case (work w run b st' pc')
  from approvals_seen_mono [OF work.prems(2) broker_step.work [OF work.hyps]] show ?case
    unfolding approvals_seen_def by simp
qed

interpretation approvals: kept_invariant broker_initial broker_step "\<lambda>b. broker_reachable b \<and> approvals_seen b"
proof unfold_locales
  show "broker_initial b \<Longrightarrow> broker_reachable b \<and> approvals_seen b" for b
    unfolding broker_reachable_def approvals_seen_def by (auto simp: broker_initial_def)
  show "broker_step b b' \<Longrightarrow> broker_reachable b \<and> approvals_seen b \<Longrightarrow> broker_reachable b' \<and> approvals_seen b'" for b b'
    using approvals_seen_step unfolding broker_reachable_def by (meson rtranclp.rtrancl_into_rtrancl)
qed

section \<open>Authorizations that a lock overtook\<close>

text \<open>What an authorization has to mint from: a refusal, or the grant of a request.\<close>

fun mint_decided :: "handler_pc \<Rightarrow> bool" where
  "mint_decided (PcMint _ _ d) =
     ((\<exists>code msg. de_outcome d = OutFailed code msg) \<or> (\<exists>fs i. de_outcome d = OutFields fs \<and> de_request_id d = Some i))"
| "mint_decided _ = True"

lemma approved_decided:
  "approval_ok q s k (forces_fresh p) app \<Longrightarrow> mint_decided (approved p s k app)"
  by (cases p; cases app) (auto simp: approved_def wants_value_def approval_ok_def)

lemma handler_decided:
  assumes h: "handler_step w caller pc st = (st', pc')" and pc: "pc_ok (ss_queue st) req pc"
    and wf: "wf_queue (ss_queue st, job)" and n: "q_next_id (ss_queue st) < U64_MAX" and d: "mint_decided pc"
  shows "mint_decided pc'"
proof (cases pc)
  case (PcStart r)
  then show ?thesis using h
    by (auto simp: handler_step_def dispatch_start_def Let_def dispatch_hello_def dispatch_register_def dispatch_unregister_def
      dispatch_grants_def dispatch_deny_def dispatch_lock_def dispatch_redeem_def
      split: prod.splits sum.splits option.splits bool.splits if_splits request.splits)
next
  case (PcResolve p a)
  then show ?thesis using h by (cases p) (auto simp: handler_step_def plain_decision_def split: prod.splits sum.splits)
next
  case (PcEnter p s k)
  with h await_ok [OF _ wf n, of w s k "forces_fresh p"] show ?thesis
    by (auto simp: handler_step_def intro!: approved_decided split: prod.splits sum.splits)
next
  case (PcWait p s k wa)
  have ids: "ids_ok (ss_queue st)" using wf by (simp add: wf_queue_def)
  from PcWait h pc poll_approval_ok [OF _ ids, of w wa] show ?thesis
    by (auto simp: handler_step_def intro!: approved_decided split: prod.splits option.splits)
qed (use h d in \<open>auto simp: handler_step_def split: option.splits\<close>)

definition mints_decided :: "broker \<Rightarrow> bool" where
  "mints_decided b \<longleftrightarrow> (\<forall>n c. br_connections b n = Some c \<longrightarrow> mint_decided (cn_pc c))"

lemma mints_decided_step: "broker_step b b' \<Longrightarrow> broker_ok b \<Longrightarrow> mints_decided b \<Longrightarrow> mints_decided b'"
proof (induction rule: broker_step.induct)
  case (handle b n c w st' pc')
  then have "pc_ok (ss_queue (br_state b)) (cn_request c) (cn_pc c)"
      "wf_queue (ss_queue (br_state b), queue_job (br_worker b))" "mint_decided (cn_pc c)"
    by (auto simp: broker_ok_def Let_def mints_decided_def)
  from handler_decided [OF handle.hyps(3) this(1,2) handle.hyps(2) this(3)] handle.prems(2) show ?case
    by (auto simp: mints_decided_def)
qed (auto simp: mints_decided_def)

interpretation decided: kept_invariant broker_initial broker_step "\<lambda>b. broker_ok b \<and> mints_decided b"
proof unfold_locales
  show "broker_initial b \<Longrightarrow> broker_ok b \<and> mints_decided b" for b
    using broker_initial_ok [of b] by (simp add: broker_initial_def mints_decided_def)
  show "broker_step b b' \<Longrightarrow> broker_ok b \<and> mints_decided b \<Longrightarrow> broker_ok b' \<and> mints_decided b'" for b b'
    using broker_step_ok mints_decided_step by blast
qed

text \<open>An authorization of an older epoch goes on in that epoch, until it fails.\<close>

definition overtaken :: "nat \<Rightarrow> handler_pc \<Rightarrow> bool" where
  "overtaken e pc \<longleftrightarrow> pc_epoch pc = Some e \<or> (\<exists>d code msg. pc = PcDone d \<and> de_outcome d = OutFailed code msg)"

lemma approved_overtaken: "overtaken e (approved (ForReceipt c e) s k app)"
  by (cases app) (auto simp: overtaken_def approved_def wants_value_def)

lemma mint_overtaken:
  assumes "mint_decided (PcMint c e d)" and "ss_lock_epoch st \<noteq> e"
  shows "finish_authorization w c e d st =
    Some (st, case de_outcome d of OutFields _ \<Rightarrow> d\<lparr>de_outcome := OutFailed Denied ''locked during authorization''\<rparr> | _ \<Rightarrow> d)"
  using assms by (auto simp: finish_authorization_def)

lemma handler_overtaken:
  assumes h: "handler_step w caller pc st = (st', pc')" and e: "ss_lock_epoch st \<noteq> e"
    and d: "mint_decided pc" and o: "overtaken e pc"
  shows "overtaken e pc'"
proof (cases "pc_epoch pc")
  case None
  with o h show ?thesis by (auto simp: overtaken_def handler_step_def)
next
  case (Some e')
  with o have "e' = e" by (auto simp: overtaken_def)
  with Some have "pc_epoch pc = Some e" by simp
  then show ?thesis
  proof (cases rule: pc_epoch.elims)
    case (1 c e1 a)
    with h show ?thesis
      by (auto simp: overtaken_def handler_step_def plain_decision_def split: prod.splits sum.splits)
  next
    case (2 c e1 s k)
    with h approved_overtaken [of e c s k] show ?thesis
      by (auto simp: overtaken_def handler_step_def split: prod.splits sum.splits)
  next
    case (3 c e1 s k wa)
    with h approved_overtaken [of e c s k] show ?thesis
      by (auto simp: overtaken_def handler_step_def split: prod.splits option.splits)
  next
    case (4 c e1 dc)
    with h d e mint_overtaken [of c e dc st w] show ?thesis
      by (auto simp: overtaken_def handler_step_def split: option.splits outcome.splits)
  qed simp_all
qed

lemma overtaken_steps:
  assumes "broker_step\<^sup>*\<^sup>* b b'" and "broker_ok b" and "mints_decided b" and "epochs_ok b" and "e < ss_lock_epoch (br_state b)"
    and "br_connections b n = Some c" and "overtaken e (cn_pc c)"
  shows "\<exists>c'. br_connections b' n = Some c' \<and> cn_request c' = cn_request c \<and> cn_caller c' = cn_caller c \<and> overtaken e (cn_pc c')"
  using assms(1)
proof (induction rule: rtranclp_induct)
  case base
  then show ?case using assms(6,7) by simp
next
  case (step x y)
  have x: "mints_decided x" using decided.steps_inv [OF step.hyps(1)] assms(2,3) by blast
  have e: "e < ss_lock_epoch (br_state x)" using epochs_steps [OF step.hyps(1) assms(4)] assms(5) by simp
  obtain c' where c': "br_connections x n = Some c'" "cn_request c' = cn_request c" "cn_caller c' = cn_caller c" "overtaken e (cn_pc c')"
    using step.IH by blast
  from step.hyps(2) show ?case
  proof cases
    case (handle m cm w st' pc')
    with c' e x handler_overtaken [of w "cn_caller c'" "cn_pc c'" "br_state x" st' pc' e] show ?thesis
      by (auto simp: mints_decided_def)
  qed (use c' in auto)
qed

section \<open>Grants only come from the worker\<close>

definition grants_shrink :: "grant_table \<Rightarrow> grant_table \<Rightarrow> bool" where
  "grants_shrink t t' \<longleftrightarrow> (\<forall>i g. grants_map t' i = Some g \<longrightarrow> grants_map t i = Some g)"

lemma grants_shrink_refl [simp]: "grants_shrink t t"
  by (simp add: grants_shrink_def)

lemma grants_shrink_op: "wf_grants t \<Longrightarrow> \<not> is_insert op \<Longrightarrow> grants_shrink t (grant_op_run op t)"
  by (auto simp: grants_shrink_def grant_op_run_revocation grants.look_keep_Some)

lemmas grants_shrink_ops =
  grants_shrink_op [where op = "OpRevoke s k" for s k, simplified grant_op_run.simps grant_op.disc simp_thms]
  grants_shrink_op [where op = "OpRevokeTokens ts" for ts, simplified grant_op_run.simps grant_op.disc simp_thms]
  grants_shrink_op [where op = "OpRevokeExpired now age" for now age, simplified grant_op_run.simps grant_op.disc simp_thms]
  grants_shrink_op [where op = OpRevokeAll, simplified grant_op_run.simps grant_op.disc simp_thms]
  grants_shrink_op [where op = "OpRevokeMissingTtys ex" for ex, simplified grant_op_run.simps grant_op.disc simp_thms]

lemma grants_shrink_trans: "grants_shrink t t' \<Longrightarrow> grants_shrink t' t'' \<Longrightarrow> grants_shrink t t''"
  by (simp add: grants_shrink_def)

lemma check_grant_shrink: "wf_grants (ss_grants st) \<Longrightarrow> grants_shrink (ss_grants st) (ss_grants (fst (check_grant w s k ff st)))"
  by (auto simp: check_grant_def Let_def grants_shrink_ops split: option.split)

lemma poll_grants [simp]: "ss_grants (fst (poll_approval w wa st)) = ss_grants st"
  by (auto simp: poll_approval_def Let_def split: option.split request_state.split)

lemma enter_grants [simp]: "ss_grants (fst (enter_queue w s k st)) = ss_grants st"
  by (auto simp: enter_queue_def split: option.split sum.split prod.split)

lemma await_grants: "ss_grants (fst (await_enter w s k ff st)) = ss_grants (fst (check_grant w s k ff st))"
proof -
  obtain st1 a where 1: "check_grant w s k ff st = (st1, a)" by fastforce
  obtain st2 r where 2: "enter_queue w s k st1 = (st2, r)" by fastforce
  have e: "ss_grants st2 = ss_grants st1" using enter_grants [of w s k st1] 2 by simp
  have "ss_grants st3 = ss_grants st2" if "poll_approval (later_world w) wa st2 = (st3, r')" for wa st3 r'
    using poll_grants [of "later_world w" wa st2] that by simp
  with 1 2 e show ?thesis by (auto simp: await_enter_def split: option.split sum.split prod.split)
qed

lemma start_shrink:
  "wf_grants (ss_grants st) \<Longrightarrow> grants_shrink (ss_grants st) (ss_grants (fst (dispatch_start w caller req st)))"
  by (cases req)
     (auto simp: dispatch_start_def Let_def dispatch_hello_def dispatch_register_def dispatch_unregister_def
      dispatch_grants_def dispatch_deny_def dispatch_lock_def dispatch_redeem_def grants_shrink_ops
      split: prod.split sum.split option.split bool.split)

lemma handler_shrink:
  "wf_grants (ss_grants st) \<Longrightarrow> grants_shrink (ss_grants st) (ss_grants (fst (handler_step w caller pc st)))"
  by (cases pc)
     (simp_all only: handler_step_fst,
      auto simp: handler_step_def start_shrink await_grants check_grant_shrink resolve_access_def finish_authorization_def
        split: option.split sum.split prod.split outcome.split)

lemma tidy_shrink: "wf_grants (ss_grants st) \<Longrightarrow> grants_shrink (ss_grants st) (ss_grants (worker_tidy w st))"
  using grants_shrink_trans [OF grants_shrink_ops(3) grants_shrink_ops(5)] by (simp add: wf_grants_ops)

lemma worker_shrink:
  assumes "worker_step w run pc st = (st', pc')" and "wf_grants (ss_grants st)"
    and "\<And>job dec. pc \<noteq> WkDecrypted job (Inr dec)"
  shows "grants_shrink (ss_grants st) (ss_grants st')"
  using assms tidy_shrink [of st w]
  by (cases pc)
     (auto simp: worker_step_def worker_started_def worker_pick_def worker_finish_def Let_def
      split: prod.splits option.splits sum.splits if_splits)

lemma complete_grants:
  assumes "ids_ok q" and "snd (Queue_complete i g now q)"
  shows "Queue_state_of q i = Some StDecrypting \<and> Queue_state_of (fst (Queue_complete i g now q)) i = Some StGranted"
proof -
  obtain r where r: "r \<in> set (q_requests q)" "pr_id r = i" "pr_generation r = g" "pr_state r = StDecrypting"
    using assms(2) by (auto simp: Queue_complete_def Let_def)
  let ?r = "r\<lparr>pr_state := StGranted\<rparr>"
  have ids: "ids_ok (fst (Queue_complete i g now q))" using quiet_complete [OF assms(1)] assms(1)
    by (auto simp: quiet_def intro: ids_ok_shrinks)
  have "?r \<in> set (q_requests (fst (Queue_complete i g now q)))"
    using r by (auto simp: Queue_complete_def Let_def Queue_finish_def update_request_map [OF assms(1)])
  then have "find_request (fst (Queue_complete i g now q)) i = Some ?r" using r(2) find_request_Some [OF ids] by simp
  moreover have "find_request q i = Some r" using r(1,2) find_request_Some [OF assms(1)] by simp
  ultimately show ?thesis using r by (simp add: Queue_state_of_def)
qed

section \<open>Decrypted values hold no NUL byte\<close>

fun worker_ok :: "worker_pc \<Rightarrow> bool" where
  "worker_ok (WkDecrypted job (Inr dec)) = (nul \<notin> set (dh_value dec))"
| "worker_ok _ = True"

lemma worker_step_worker_ok: "worker_step w run pc st = (st', pc') \<Longrightarrow> worker_ok pc \<Longrightarrow> worker_ok pc'"
proof (cases pc)
  case (WkStarted job opened pid)
  moreover assume "worker_step w run pc st = (st', pc')"
  moreover have "nul \<notin> set (dh_value dec)"
    if "decrypt_wait (jb_decryptor job) run (jb_key job) opened pid = Some (Inr dec, killed)" for dec killed
    using that by (rule decrypt_wait_ok) (auto dest: parse_single_assignment_no_nul)
  ultimately show ?thesis
    by (auto simp: worker_step_def split: option.splits prod.splits sum.splits) (metis sum.exhaust worker_ok.simps(1,5))
qed (auto simp: worker_step_def split: option.splits prod.splits sum.splits if_splits)

interpretation decrypted_clean: kept_invariant broker_initial broker_step "\<lambda>b. worker_ok (br_worker b)"
proof unfold_locales
  show "broker_initial b \<Longrightarrow> worker_ok (br_worker b)" for b by (simp add: broker_initial_def)
  show "broker_step b b' \<Longrightarrow> worker_ok (br_worker b) \<Longrightarrow> worker_ok (br_worker b')" for b b'
    by (induction rule: broker_step.induct) (auto intro: worker_step_worker_ok)
qed

section \<open>Where grants come from\<close>

lemma step_new_grant:
  assumes "broker_step b b'" and "wf_grants (ss_grants (br_state b))"
    and "grants_map (ss_grants (br_state b')) i = Some g" and "grants_map (ss_grants (br_state b)) i \<noteq> Some g"
  shows "\<exists>job dec w. br_worker b = WkDecrypted job (Inr dec) \<and> br_state b' = worker_finish w job (Inr dec) (br_state b)"
  using assms
proof (induction rule: broker_step.induct)
  case (handle b n c w st' pc')
  then show ?case using handler_shrink [of "br_state b" w "cn_caller c" "cn_pc c"] by (cases i) (auto simp: grants_shrink_def)
next
  case (work w run b st' pc')
  show ?case
  proof (cases "\<exists>job dec. br_worker b = WkDecrypted job (Inr dec)")
    case True
    with work.hyps show ?thesis by (auto simp: worker_step_def)
  next
    case False
    with worker_shrink [OF work.hyps work.prems(1)] work.prems show ?thesis by (cases i) (auto simp: grants_shrink_def)
  qed
qed auto

lemma new_grant_inserted:
  assumes "broker_ok b" and "broker_step b b'"
    and "grants_map (ss_grants (br_state b')) (s, k) = Some g" and "grants_map (ss_grants (br_state b)) (s, k) \<noteq> Some g"
  obtains job dec w where "br_worker b = WkDecrypted job (Inr dec)" "br_state b' = worker_finish w job (Inr dec) (br_state b)"
    "ss_lock_epoch (br_state b) = jb_lock_epoch job"
    "snd (Queue_complete (jb_id job) (jb_generation job) (wo_now2 w) (ss_queue (br_state b)))"
    "session_is_active w (jb_scope job) (br_state b)"
    "jb_scope job = s" "jb_key job = k" "gr_value g = dh_value dec"
    "gr_origin g = \<lparr>go_source = dh_source dec, go_identity = dh_identity dec\<rparr>"
proof -
  have t: "wf_grants (ss_grants (br_state b))" "ids_ok (ss_queue (br_state b))"
    using assms(1) by (auto simp: broker_ok_def Let_def tables_ok_def wf_queue_def)
  obtain job dec w where d: "br_worker b = WkDecrypted job (Inr dec)" "br_state b' = worker_finish w job (Inr dec) (br_state b)"
    using step_new_grant [OF assms(2) t(1) assms(3,4)] by blast
  let ?res = "Inr dec :: err_code + decrypted_human_file"
  from finish_grants [OF t(2), of w job ?res] assms(3,4) d(2)
  have ins: "ss_lock_epoch (br_state b) = jb_lock_epoch job"
      "snd (Queue_complete (jb_id job) (jb_generation job) (wo_now2 w) (ss_queue (br_state b)))"
      "session_is_active w (jb_scope job) (br_state b)"
      "ss_grants (br_state b') = GrantTable_insert (jb_scope job) (jb_key job) (dh_value dec) (wo_now3 w)
         \<lparr>go_source = dh_source dec, go_identity = dh_identity dec\<rparr> (ss_grants (br_state b))"
    by auto
  from ins(4) assms(3,4) t(1) have g: "jb_scope job = s" "jb_key job = k" "gr_value g = dh_value dec"
      "gr_origin g = \<lparr>go_source = dh_source dec, go_identity = dh_identity dec\<rparr>"
    by (auto simp: GrantTable_insert_replace grants.look_replace grant_index_def split: if_splits)
  with d ins(1-3) show ?thesis by (intro that)
qed

text \<open>No grant holds a NUL byte: the parser of the decrypted text refuses it.\<close>

definition grants_clean :: "broker \<Rightarrow> bool" where
  "grants_clean b \<longleftrightarrow> (\<forall>i g. grants_map (ss_grants (br_state b)) i = Some g \<longrightarrow> nul \<notin> set (gr_value g))"

lemma grants_clean_step:
  assumes "broker_ok b" and "worker_ok (br_worker b)" and "broker_step b b'" and "grants_clean b"
  shows "grants_clean b'"
  unfolding grants_clean_def
proof (intro allI impI)
  fix i g assume g: "grants_map (ss_grants (br_state b')) i = Some g"
  obtain s k where i: "i = (s, k)" by (cases i)
  show "nul \<notin> set (gr_value g)"
  proof (cases "grants_map (ss_grants (br_state b)) i = Some g")
    case True
    then show ?thesis using assms(4) unfolding grants_clean_def by blast
  next
    case False
    with g i obtain job dec where "br_worker b = WkDecrypted job (Inr dec)" "gr_value g = dh_value dec"
      using new_grant_inserted [OF assms(1,3)] by metis
    with assms(2) show ?thesis by simp
  qed
qed

interpretation clean: kept_invariant broker_initial broker_step "\<lambda>b. broker_ok b \<and> worker_ok (br_worker b) \<and> grants_clean b"
proof unfold_locales
  show "broker_initial b \<Longrightarrow> broker_ok b \<and> worker_ok (br_worker b) \<and> grants_clean b" for b
    using broker_initial_ok [of b] decrypted_clean.initial_inv [of b]
    by (auto simp: broker_initial_def grants_clean_def dest!: State_new_parts)
  show "broker_step b b' \<Longrightarrow> broker_ok b \<and> worker_ok (br_worker b) \<and> grants_clean b \<Longrightarrow>
      broker_ok b' \<and> worker_ok (br_worker b') \<and> grants_clean b'" for b b'
    using broker_step_ok decrypted_clean.step_inv grants_clean_step by blast
qed

section \<open>Running the daemon on a script\<close>

datatype event = EvAccept nat peer_identity request | EvHandle nat world | EvWork world sops_run

fun broker_event :: "event \<Rightarrow> broker \<Rightarrow> broker option" where
  "broker_event (EvAccept n caller request) b =
     (case br_connections b n of
        None \<Rightarrow> Some (b\<lparr>br_connections := (br_connections b)
          (n \<mapsto> \<lparr>cn_caller = caller, cn_request = request, cn_pc = PcStart request\<rparr>)\<rparr>)
      | Some _ \<Rightarrow> None)"
| "broker_event (EvHandle n w) b =
     (case br_connections b n of
        None \<Rightarrow> None
      | Some c \<Rightarrow>
          if q_next_id (ss_queue (br_state b)) < U64_MAX then
            (case handler_step w (cn_caller c) (cn_pc c) (br_state b) of
               (st', pc') \<Rightarrow>
                 Some (b\<lparr>br_state := st', br_connections := (br_connections b)(n \<mapsto> c\<lparr>cn_pc := pc'\<rparr>)\<rparr>))
          else None)"
| "broker_event (EvWork w run) b =
     (case worker_step w run (br_worker b) (br_state b) of
        (st', pc') \<Rightarrow> Some (b\<lparr>br_state := st', br_worker := pc'\<rparr>))"

fun broker_run :: "event list \<Rightarrow> broker \<Rightarrow> broker option" where
  "broker_run [] b = Some b"
| "broker_run (e # es) b = Option.bind (broker_event e b) (broker_run es)"

lemma event_step: "broker_event e b = Some b' \<Longrightarrow> broker_step b b'"
  by (cases e) (auto split: option.splits prod.splits if_splits intro: broker_step.intros)

lemma run_steps: "broker_run es b = Some b' \<Longrightarrow> broker_step\<^sup>*\<^sup>* b b'"
proof (induction es arbitrary: b)
  case (Cons e es)
  then obtain b1 where "broker_event e b = Some b1" "broker_run es b1 = Some b'" by (auto simp: bind_eq_Some_conv)
  with Cons.IH event_step show ?case by (meson converse_rtranclp_into_rtranclp)
qed simp

lemma run_reachable: "broker_initial b \<Longrightarrow> broker_run es b = Some b' \<Longrightarrow> broker_reachable b'"
  unfolding broker_reachable_def using run_steps by blast

text \<open>Every step is the step of some event.\<close>

lemma step_event: "broker_step b b' \<Longrightarrow> \<exists>e. broker_event e b = Some b'"
proof (induction rule: broker_step.induct)
  case (accept b n caller request)
  then show ?case by (intro exI [of _ "EvAccept n caller request"]) simp
next
  case (handle b n c w st' pc')
  then show ?case by (intro exI [of _ "EvHandle n w"]) simp
next
  case (work w run b st' pc')
  then show ?case by (intro exI [of _ "EvWork w run"]) simp
qed

lemma run_snoc: "broker_run (es @ [e]) b = Option.bind (broker_run es b) (broker_event e)"
  by (induction es arbitrary: b) (auto split: bind_splits)

lemma run_append:
  assumes "broker_run (es @ fs) b = Some b'"
  obtains b1 where "broker_run es b = Some b1" "broker_run fs b1 = Some b'"
proof -
  from assms have "\<exists>b1. broker_run es b = Some b1 \<and> broker_run fs b1 = Some b'"
    by (induction es arbitrary: b) (auto simp: bind_eq_Some_conv)
  with that show ?thesis by blast
qed

text \<open>So a state is reachable exactly when some script leads to it.\<close>

lemma reachable_run:
  assumes "broker_reachable b"
  obtains b0 es where "broker_initial b0" "broker_run es b0 = Some b"
proof -
  obtain b0 where b0: "broker_initial b0" "broker_step\<^sup>*\<^sup>* b0 b" using assms unfolding broker_reachable_def by blast
  from b0(2) have "\<exists>es. broker_run es b0 = Some b"
  proof induction
    case base
    show ?case by (intro exI [of _ "[]"]) simp
  next
    case (step b1 b2)
    then obtain es e where "broker_run es b0 = Some b1" "broker_event e b1 = Some b2" using step_event by blast
    then show ?case by (intro exI [of _ "es @ [e]"]) (simp add: run_snoc)
  qed
  with b0(1) that show ?thesis by blast
qed

section \<open>Where a decrypted value comes from\<close>

text \<open>In the script \<open>es\<close> from \<open>b0\<close>, the worker opened the backing file of the job it had picked, and spawned
  \<open>sops\<close> on a duplicate of that descriptor.\<close>

definition sops_started :: "broker \<Rightarrow> event list \<Rightarrow> worker_job \<Rightarrow> opened_human_file \<Rightarrow> nat \<Rightarrow> bool" where
  "sops_started b0 es job opened pid \<longleftrightarrow>
     (\<exists>es1 w run es2 b1 fd. es = es1 @ EvWork w run # es2 \<and> broker_run es1 b0 = Some b1 \<and> br_worker b1 = WkPicked job
        \<and> HumanStore_open (sr_fs run) (jb_store job) (jb_key job) = Inr opened
        \<and> sr_dup run (oh_file opened) = Some fd
        \<and> sr_spawn run (sops_decrypt_command (jb_decryptor job) fd) = Some pid)"

fun is_work :: "event \<Rightarrow> bool" where
  "is_work (EvWork _ _) = True"
| "is_work _ = False"

text \<open>In the script \<open>es\<close> from \<open>b0\<close>, the last step of the worker was to see that \<open>sops\<close>, started for the job on the
  opened file, exited successfully before its deadline, and \<open>out\<close> is what its output pipe held.\<close>

definition sops_printed :: "broker \<Rightarrow> event list \<Rightarrow> worker_job \<Rightarrow> opened_human_file \<Rightarrow> string \<Rightarrow> bool" where
  "sops_printed b0 es job opened out \<longleftrightarrow>
     (\<exists>es1 w run es2 b1 pid deadline ex.
        es = es1 @ EvWork w run # es2 \<and> (\<forall>e \<in> set es2. \<not> is_work e)
        \<and> broker_run es1 b0 = Some b1 \<and> br_worker b1 = WkStarted job opened pid
        \<and> sops_started b0 es1 job opened pid
        \<and> instant_checked_add (sr_now run) (dc_timeout (jb_decryptor job)) = Some deadline
        \<and> find (ends deadline) (sr_polls run) = Some (Exited ex) \<and> se_success ex \<and> se_stdout ex = PipeEnds out)"

lemma sops_started_snoc: "sops_started b0 es job opened pid \<Longrightarrow> sops_started b0 (es @ [e]) job opened pid"
  unfolding sops_started_def by (metis append_Cons append_assoc)

lemma sops_printed_snoc:
  assumes "sops_printed b0 es job opened out" and "\<not> is_work e"
  shows "sops_printed b0 (es @ [e]) job opened out"
proof -
  have "es @ [e] = es1 @ EvWork w run # (es2 @ [e])" if "es = es1 @ EvWork w run # es2" for es1 w run es2
    using that by simp
  moreover have "\<forall>e' \<in> set (es2 @ [e]). \<not> is_work e'" if "\<forall>e' \<in> set es2. \<not> is_work e'" for es2 using that assms(2) by simp
  ultimately show ?thesis using assms(1) unfolding sops_printed_def by blast
qed

lemma event_worker: "broker_event e b = Some b' \<Longrightarrow> \<not> is_work e \<Longrightarrow> br_worker b' = br_worker b"
  by (cases e) (auto split: option.splits prod.splits if_splits)

lemma decrypt_start_opens:
  "decrypt_start d run store key = Some (Inr (opened, pid)) \<Longrightarrow>
   HumanStore_open (sr_fs run) store key = Inr opened
   \<and> (\<exists>fd. sr_dup run (oh_file opened) = Some fd \<and> sr_spawn run (sops_decrypt_command d fd) = Some pid)"
  by (auto simp: decrypt_start_def duplicate_ciphertext_fd_def and_then_Inr ok_or_Inr split: option.splits if_splits)

text \<open>A worker that waits for \<open>sops\<close> started it, and what it decrypted is what that \<open>sops\<close> printed.\<close>

definition worker_traced :: "broker \<Rightarrow> event list \<Rightarrow> worker_pc \<Rightarrow> bool" where
  "worker_traced b0 es pc \<longleftrightarrow>
     (\<forall>job opened pid. pc = WkStarted job opened pid \<longrightarrow> sops_started b0 es job opened pid)
     \<and> (\<forall>job dec. pc = WkDecrypted job (Inr dec) \<longrightarrow>
          (\<exists>opened out. sops_printed b0 es job opened out \<and> parse_single_assignment out (jb_key job) = Inr (dh_value dec)
             \<and> dh_source dec = oh_label opened \<and> dh_identity dec = oh_identity opened))"

lemma worker_step_traced:
  assumes "worker_traced b0 es (br_worker b)" and "broker_run es b0 = Some b"
    and "worker_step w run (br_worker b) (br_state b) = (st', pc')"
  shows "worker_traced b0 (es @ [EvWork w run]) pc'"
proof (cases "br_worker b")
  case WkIdle
  with assms(3) show ?thesis by (auto simp: worker_traced_def worker_step_def split: prod.splits option.splits)
next
  case (WkPicked job)
  have "sops_started b0 (es @ [EvWork w run]) job opened pid"
    if "decrypt_start (jb_decryptor job) run (jb_store job) (jb_key job) = Some (Inr (opened, pid))" for opened pid
    using decrypt_start_opens [OF that] assms(2) WkPicked unfolding sops_started_def by blast
  with WkPicked assms(3) show ?thesis
    by (auto simp: worker_traced_def worker_step_def split: prod.splits option.splits sum.splits)
next
  case (WkStarted job opened pid)
  with assms(1) have st: "sops_started b0 es job opened pid" by (simp add: worker_traced_def)
  have "\<exists>opened out. sops_printed b0 (es @ [EvWork w run]) job opened out
      \<and> parse_single_assignment out (jb_key job) = Inr (dh_value dec)
      \<and> dh_source dec = oh_label opened \<and> dh_identity dec = oh_identity opened"
    if d: "decrypt_wait (jb_decryptor job) run (jb_key job) opened pid = Some (Inr dec, killed)" for dec killed
  proof -
    from d obtain deadline ex out where "instant_checked_add (sr_now run) (dc_timeout (jb_decryptor job)) = Some deadline"
        "find (ends deadline) (sr_polls run) = Some (Exited ex)" "se_success ex" "se_stdout ex = PipeEnds out"
        and p: "parse_single_assignment out (jb_key job) = Inr (dh_value dec)"
          "dh_source dec = oh_label opened" "dh_identity dec = oh_identity opened"
      by (rule decrypt_wait_ok)
    moreover have "es @ [EvWork w run] = es @ EvWork w run # [] \<and> (\<forall>e \<in> set []. \<not> is_work e)" by simp
    ultimately have "sops_printed b0 (es @ [EvWork w run]) job opened out"
      using st assms(2) WkStarted unfolding sops_printed_def by blast
    with p show ?thesis by blast
  qed
  with WkStarted assms(3) st show ?thesis
    by (auto simp: worker_traced_def worker_step_def intro: sops_started_snoc split: prod.splits option.splits)
next
  case (WkDecrypted job res)
  with assms(3) show ?thesis by (simp add: worker_traced_def worker_step_def)
qed

lemma run_traced:
  assumes "broker_initial b0"
  shows "broker_run es b0 = Some b \<Longrightarrow> worker_traced b0 es (br_worker b)"
proof (induction es arbitrary: b rule: rev_induct)
  case Nil
  with assms show ?case by (auto simp: broker_initial_def worker_traced_def)
next
  case (snoc e es)
  then obtain b1 where b1: "broker_run es b0 = Some b1" "broker_event e b1 = Some b"
    by (auto simp: run_snoc split: bind_splits)
  show ?case
  proof (cases "is_work e")
    case True
    then obtain w run where "e = EvWork w run" by (cases e) auto
    with b1 worker_step_traced [OF snoc.IH [OF b1(1)] b1(1)] show ?thesis by (auto split: prod.splits)
  next
    case False
    with event_worker [OF b1(2)] snoc.IH [OF b1(1)] show ?thesis
      by (simp add: worker_traced_def) (blast intro: sops_started_snoc sops_printed_snoc)
  qed
qed

end
