(* ===== verification/Scenario.thy ===== *)
theory Scenario
  imports Broker
begin

text \<open>
  A small concrete daemon: two processes, a store with one human key and one capability key, a \<open>sops\<close> that
  succeeds. Its scripts drive the model from start to answer by evaluation.
\<close>

definition demo_read :: read_file where
  "demo_read path =
     (if path = ''/proc/self/fdinfo/5'' then Some (''Pid:'' @ [tab] @ ''100'' @ [newline])
      else if path = ''/proc/self/fdinfo/6'' then Some (''Pid:'' @ [tab] @ ''200'' @ [newline])
      else None)"

definition demo_world :: "nat \<Rightarrow> world" where
  "demo_world secs =
     \<lparr>wo_read = demo_read, wo_fs = example_fs [''DB.env'', ''CAP_SSH.env''] 7,
      wo_now = from_secs secs, wo_now2 = from_secs secs, wo_now3 = from_secs secs,
      wo_random = Inr [Inr (replicate 32 (of_nat secs))]\<rparr>"

definition demo_config :: config where
  "demo_config =
     \<lparr>cfg_socket_path = ''/run/user/7/secretsd.sock'', cfg_human_sources = hs_sources example_store,
      cfg_sops_bin = ''sops'', cfg_pcsc_socket = None, cfg_yubikey_probe_argv = [],
      cfg_yubikey_probe_timeout = from_secs 3, cfg_touch_policy = Cached, cfg_max_grant = from_secs 3600,
      cfg_cooldown = from_secs 16, cfg_request_ttl = from_secs 120, cfg_max_pending_per_scope = 4\<rparr>"

definition demo_token :: string where "demo_token = replicate 64 (CHR ''0'')"

definition demo_start :: broker where
  "demo_start =
     (case State_new (Inr ''boot'') (Inr (replicate 16 1)) demo_config of
        Inr st \<Rightarrow> \<lparr>br_state = st, br_worker = WkIdle, br_connections = (\<lambda>_. None)\<rparr>
      | Inl _ \<Rightarrow> \<lparr>br_state = undefined, br_worker = WkIdle, br_connections = (\<lambda>_. None)\<rparr>)"

lemma demo_initial: "broker_initial demo_start"
proof -
  have "State_new (Inr ''boot'') (Inr (replicate 16 1)) demo_config = Inr (br_state demo_start)"
    by (simp add: demo_start_def State_new_def random_instance_id_def)
  then show ?thesis unfolding broker_initial_def by (auto simp: demo_start_def split: sum.split)
qed

text \<open>A process registers, and asks for the key of its session.\<close>

definition demo_register :: "nat \<Rightarrow> nat \<Rightarrow> event list" where
  "demo_register n fd = [EvAccept n \<lparr>pidfd = fd\<rparr> (Register demo_token ''work'' 100), EvHandle n (demo_world 1)]"

definition demo_ask :: "nat \<Rightarrow> nat \<Rightarrow> request \<Rightarrow> event list" where
  "demo_ask n fd request = EvAccept n \<lparr>pidfd = fd\<rparr> request # replicate 3 (EvHandle n (demo_world 2))"

definition demo_sops :: "string \<Rightarrow> sops_run" where
  "demo_sops output =
     example_sops_run\<lparr>sr_fs := example_fs [''DB.env'', ''CAP_SSH.env''] 7,
       sr_polls := [Exited \<lparr>se_success = True, se_stderr = PipeEnds [], se_stdout = PipeEnds (output @ [newline])\<rparr>]\<rparr>"

definition demo_work :: "nat \<Rightarrow> string \<Rightarrow> event" where
  "demo_work secs output = EvWork (demo_world secs) (demo_sops output)"

definition demo_get :: request where "demo_get = Get ''DB'' (Some demo_token) None"

text \<open>A session that asks for its key: up to the end of the decrypt, then the grant, then the answer.\<close>

definition demo_decrypted :: "event list" where
  "demo_decrypted = demo_register 0 5 @ demo_ask 1 5 demo_get @ replicate 3 (demo_work 20 ''DB=hunter2'')"

definition demo_granted :: "event list" where
  "demo_granted = demo_decrypted @ [demo_work 20 ''DB=hunter2'']"

definition demo_served :: "event list" where
  "demo_served = demo_granted @ [EvHandle 1 (demo_world 21)]"

definition demo_scope :: scope where "demo_scope = Session (SessionToken (replicate 32 0))"

text \<open>An authorization from a terminal: up to the wait, then the approval, then the receipt.\<close>

definition demo_authorize :: "nat \<Rightarrow> nat \<Rightarrow> event list" where
  "demo_authorize n secs =
     EvAccept n \<lparr>pidfd = 5\<rparr> (Authorize ''ssh'' None (Some ''/dev/pts/3'')) # replicate 4 (EvHandle n (demo_world secs))"

definition demo_authorized :: "nat \<Rightarrow> nat \<Rightarrow> event list" where
  "demo_authorized n secs =
     demo_authorize n secs @ replicate 4 (demo_work secs ''CAP_SSH=x'') @ [EvHandle n (demo_world secs)]"

definition demo_terminal :: scope where "demo_terminal = Tty ''/dev/pts/3'' ''boot''"

definition demo_final :: "event list \<Rightarrow> broker" where
  "demo_final es = (case broker_run es demo_start of Some b \<Rightarrow> b | None \<Rightarrow> demo_start)"

lemma demo_reachable: "broker_reachable (demo_final es)"
  using run_reachable [OF demo_initial, of es] run_reachable [OF demo_initial, of "[]"]
  by (auto simp: demo_final_def split: option.split)

text \<open>A script that runs goes on to a next event by one step.\<close>

lemma demo_next:
  assumes "\<not> Option.is_none (broker_run (es @ [e]) demo_start)"
  shows "broker_event e (demo_final es) = Some (demo_final (es @ [e]))"
  using assms by (auto simp: run_snoc demo_final_def Option.is_none_def split: bind_splits)

end
