(* ===== verification/Service.thy ===== *)
theory Service
  imports Scenario "HOL-Library.Multiset"
begin

text \<open>
  The threads of the daemon (\<open>serve_listener\<close> and \<open>start_connection_workers\<close> of \<open>src/server.rs\<close>): the accept
  loop, the three bounded channels, and the threads that receive from them and run \<open>handle\<close> from the first read
  to the last write. A service is a daemon of the theory \<open>Broker\<close> with its sockets; every step of it is a step of
  one thread. The lemmas show that it refines that daemon, that no connection is lost and how many there are,
  that only the main lane ever waits for a human, and that the other two lanes always drain.
\<close>

section \<open>Sockets and lanes\<close>

text \<open>A socket as the daemon sees it: what peeking shows when it is accepted, what \<open>handle\<close> then finds, and what the
  other end takes of the answer. Peeking leaves the bytes in the socket, so the reads that follow give them first, in whatever pieces.\<close>

record socket =
  sk_peek :: peek
  sk_incoming :: incoming
  sk_takes :: peer_takes

definition socket_ok :: "socket \<Rightarrow> bool" where
  "socket_ok sk \<longleftrightarrow>
     (\<forall>arrived. sk_peek sk = PeekBytes arrived \<longrightarrow>
        (\<exists>chunks rest. in_reads (sk_incoming sk) = map Inr chunks @ rest \<and> [] \<notin> set chunks \<and> prefix arrived (concat chunks)))"

definition CONNECTION_WORKERS :: nat where "CONNECTION_WORKERS = 8"
definition FAST_CONNECTION_WORKERS :: nat where "FAST_CONNECTION_WORKERS = 1"
definition CONTROL_CONNECTION_WORKERS :: nat where "CONTROL_CONNECTION_WORKERS = 1"

fun lane_of :: "connection_lane \<Rightarrow> 'c lanes \<Rightarrow> 'c list" where
  "lane_of MainLane l = ln_main l"
| "lane_of FastLane l = ln_fast l"
| "lane_of ControlLane l = ln_control l"

fun set_lane :: "connection_lane \<Rightarrow> 'c list \<Rightarrow> 'c lanes \<Rightarrow> 'c lanes" where
  "set_lane MainLane q l = l\<lparr>ln_main := q\<rparr>"
| "set_lane FastLane q l = l\<lparr>ln_fast := q\<rparr>"
| "set_lane ControlLane q l = l\<lparr>ln_control := q\<rparr>"

fun lane_workers :: "connection_lane \<Rightarrow> nat" where
  "lane_workers MainLane = CONNECTION_WORKERS"
| "lane_workers FastLane = FAST_CONNECTION_WORKERS"
| "lane_workers ControlLane = CONTROL_CONNECTION_WORKERS"

fun lane_depth :: "connection_lane \<Rightarrow> nat" where
  "lane_depth MainLane = CONNECTION_QUEUE_DEPTH"
| "lane_depth FastLane = FAST_CONNECTION_QUEUE_DEPTH"
| "lane_depth ControlLane = CONTROL_CONNECTION_QUEUE_DEPTH"

section \<open>The service\<close>

text \<open>\<open>sv_lanes\<close> are the channels and \<open>sv_busy\<close> the connections that the threads of each pool hold. \<open>sv_sockets\<close> and
  \<open>sv_ended\<close> are not in the code: they record the connections that were accepted, and those that are over with
  the bytes that were written to them.\<close>

record service =
  sv_euid :: nat
  sv_broker :: broker
  sv_lanes :: "nat lanes"
  sv_busy :: "nat lanes"
  sv_sockets :: "nat \<Rightarrow> socket option"
  sv_ended :: "(nat \<times> string option) list"

definition no_lanes :: "nat lanes" where
  "no_lanes = \<lparr>ln_main = [], ln_fast = [], ln_control = []\<rparr>"

definition serve_listener_start :: "io_error + string \<Rightarrow> io_error + u8 list \<Rightarrow> nat \<Rightarrow> config \<Rightarrow> io_error + service" where
  "serve_listener_start boot_read random_read euid c =
     and_then (State_new boot_read random_read c) (\<lambda>st.
       Inr \<lparr>sv_euid = euid, sv_broker = \<lparr>br_state = st, br_worker = WkIdle, br_connections = (\<lambda>_. None)\<rparr>,
            sv_lanes = no_lanes, sv_busy = no_lanes, sv_sockets = (\<lambda>_. None), sv_ended = []\<rparr>)"

datatype serve_error = ServeListener string | ServeState io_error

definition serve ::
  "environment \<Rightarrow> nat \<Rightarrow> activation_fd \<Rightarrow> socket_ops \<Rightarrow> io_error + string \<Rightarrow> io_error + u8 list \<Rightarrow> nat \<Rightarrow> config \<Rightarrow>
     serve_error + service" where
  "serve env process_id fd ops boot_read random_read euid c =
     and_then (map_err ServeListener (server_listener env process_id fd ops c)) (\<lambda>_.
       map_err ServeState (serve_listener_start boot_read random_read euid c))"

text \<open>What of a text goes out by a \<open>send\<close> that does not wait.\<close>

fun send_dontwait :: "peer_takes \<Rightarrow> string \<Rightarrow> string" where
  "send_dontwait TakesAll bytes = bytes"
| "send_dontwait (TakesThenFails k) bytes = take k bytes"
| "send_dontwait (TakesThenBlocks k) bytes = take k bytes"

text \<open>A turn of the accept loop.\<close>

definition serve_accept :: "nat \<Rightarrow> socket \<Rightarrow> service \<Rightarrow> service" where
  "serve_accept n sk sv =
     (let sv' = sv\<lparr>sv_sockets := (sv_sockets sv)(n \<mapsto> sk)\<rparr> in
      case accept_connection n (sk_peek sk) (sv_lanes sv) of
        (l, Enqueued) \<Rightarrow> sv'\<lparr>sv_lanes := l\<rparr>
      | (l, RejectedWith text) \<Rightarrow> sv'\<lparr>sv_lanes := l, sv_ended := sv_ended sv @ [(n, Some (send_dontwait (sk_takes sk) text))]\<rparr>
      | (l, RejectedSilently) \<Rightarrow> sv'\<lparr>sv_lanes := l, sv_ended := sv_ended sv @ [(n, None)]\<rparr>)"

text \<open>A turn of a connection worker, in stretches: it receives a connection, reads its frame, dispatches the
  request, and writes the answer.\<close>

definition worker_receive :: "connection_lane \<Rightarrow> service \<Rightarrow> service option" where
  "worker_receive lane sv =
     (case lane_of lane (sv_lanes sv) of
        [] \<Rightarrow> None
      | n # rest \<Rightarrow>
          if length (lane_of lane (sv_busy sv)) < lane_workers lane
          then Some (sv\<lparr>sv_lanes := set_lane lane rest (sv_lanes sv),
                        sv_busy := set_lane lane (lane_of lane (sv_busy sv) @ [n]) (sv_busy sv)\<rparr>)
          else None)"

definition end_connection :: "connection_lane \<Rightarrow> nat \<Rightarrow> string option \<Rightarrow> service \<Rightarrow> service" where
  "end_connection lane n written sv =
     sv\<lparr>sv_busy := set_lane lane (remove1 n (lane_of lane (sv_busy sv))) (sv_busy sv), sv_ended := sv_ended sv @ [(n, written)]\<rparr>"

text \<open>The answer is written, as far as the other end takes it, and the connection closed; a write that blocks keeps
  the thread.\<close>

definition write_answer :: "connection_lane \<Rightarrow> nat \<Rightarrow> decision \<Rightarrow> service \<Rightarrow> service option" where
  "write_answer lane n d sv =
     (case Option.bind (sv_sockets sv n) (\<lambda>sk. write_response (sk_takes sk) (de_outcome d)) of
        None \<Rightarrow> None
      | Some (written, _) \<Rightarrow> Some (end_connection lane n (Some written) sv))"

definition worker_admit :: "connection_lane \<Rightarrow> nat \<Rightarrow> service \<Rightarrow> service option" where
  "worker_admit lane n sv =
     (if n \<in> set (lane_of lane (sv_busy sv)) \<and> br_connections (sv_broker sv) n = None then
        (case Option.bind (sv_sockets sv n) (\<lambda>sk. handle_admit (sv_euid sv) (sk_incoming sk)) of
           None \<Rightarrow> None
         | Some (Inl err) \<Rightarrow> Some (end_connection lane n None sv)
         | Some (Inr (caller, PcStart request)) \<Rightarrow>
             map_option (\<lambda>b. sv\<lparr>sv_broker := b\<rparr>) (broker_event (EvAccept n caller request) (sv_broker sv))
         | Some (Inr (caller, PcDone d)) \<Rightarrow> write_answer lane n d sv
         | _ \<Rightarrow> None)
      else None)"

definition worker_dispatch :: "connection_lane \<Rightarrow> nat \<Rightarrow> world \<Rightarrow> service \<Rightarrow> service option" where
  "worker_dispatch lane n w sv =
     (if n \<in> set (lane_of lane (sv_busy sv))
      then map_option (\<lambda>b. sv\<lparr>sv_broker := b\<rparr>) (broker_event (EvHandle n w) (sv_broker sv))
      else None)"

definition worker_respond :: "connection_lane \<Rightarrow> nat \<Rightarrow> service \<Rightarrow> service option" where
  "worker_respond lane n sv =
     (if n \<in> set (lane_of lane (sv_busy sv)) then
        (case map_option cn_pc (br_connections (sv_broker sv) n) of
           Some (PcDone d) \<Rightarrow> write_answer lane n d sv
         | _ \<Rightarrow> None)
      else None)"

datatype service_event =
    SvAccept nat socket
  | SvReceive connection_lane
  | SvAdmit connection_lane nat
  | SvDispatch connection_lane nat world
  | SvRespond connection_lane nat
  | SvWork world sops_run

fun run_event :: "service_event \<Rightarrow> service \<Rightarrow> service option" where
  "run_event (SvAccept n sk) sv = (if sv_sockets sv n = None then Some (serve_accept n sk sv) else None)"
| "run_event (SvReceive lane) sv = worker_receive lane sv"
| "run_event (SvAdmit lane n) sv = worker_admit lane n sv"
| "run_event (SvDispatch lane n w) sv = worker_dispatch lane n w sv"
| "run_event (SvRespond lane n) sv = worker_respond lane n sv"
| "run_event (SvWork w run) sv = map_option (\<lambda>b. sv\<lparr>sv_broker := b\<rparr>) (broker_event (EvWork w run) (sv_broker sv))"

fun run_events :: "service_event list \<Rightarrow> service \<Rightarrow> service option" where
  "run_events [] sv = Some sv"
| "run_events (e # es) sv = Option.bind (run_event e sv) (run_events es)"

text \<open>The pool whose thread takes the step; the accept loop and the approval worker belong to none.\<close>

fun event_lane :: "service_event \<Rightarrow> connection_lane option" where
  "event_lane (SvAccept _ _) = None"
| "event_lane (SvReceive lane) = Some lane"
| "event_lane (SvAdmit lane _) = Some lane"
| "event_lane (SvDispatch lane _ _) = Some lane"
| "event_lane (SvRespond lane _) = Some lane"
| "event_lane (SvWork _ _) = None"

inductive service_step :: "service \<Rightarrow> service \<Rightarrow> bool" where
  accept: "sv_sockets sv n = None \<Longrightarrow> socket_ok sk \<Longrightarrow> service_step sv (serve_accept n sk sv)"
| receive: "worker_receive lane sv = Some sv' \<Longrightarrow> service_step sv sv'"
| admit: "worker_admit lane n sv = Some sv' \<Longrightarrow> service_step sv sv'"
| dispatch: "worker_dispatch lane n w sv = Some sv' \<Longrightarrow> service_step sv sv'"
| respond: "worker_respond lane n sv = Some sv' \<Longrightarrow> service_step sv sv'"
| work: "broker_event (EvWork w run) (sv_broker sv) = Some b \<Longrightarrow> service_step sv (sv\<lparr>sv_broker := b\<rparr>)"

definition service_initial :: "service \<Rightarrow> bool" where
  "service_initial sv \<longleftrightarrow> (\<exists>boot random euid c. serve_listener_start boot random euid c = Inr sv)"

definition service_reachable :: "service \<Rightarrow> bool" where
  "service_reachable sv \<longleftrightarrow> (\<exists>sv0. service_initial sv0 \<and> service_step\<^sup>*\<^sup>* sv0 sv)"

section \<open>Refinement with stuttering\<close>

text \<open>Every step of the detailed system is a step of the abstract one or leaves its view of the state alone. Then
  runs carry over, and so does whatever holds of all reachable abstract states.\<close>

locale stuttering_refinement =
  fixes cinit :: "'c \<Rightarrow> bool" and cstep :: "'c \<Rightarrow> 'c \<Rightarrow> bool"
    and ainit :: "'a \<Rightarrow> bool" and astep :: "'a \<Rightarrow> 'a \<Rightarrow> bool"
    and view :: "'c \<Rightarrow> 'a"
  assumes view_init: "cinit s \<Longrightarrow> ainit (view s)"
    and view_step: "cstep s s' \<Longrightarrow> view s' = view s \<or> astep (view s) (view s')"
begin

lemma view_steps: "cstep\<^sup>*\<^sup>* s s' \<Longrightarrow> astep\<^sup>*\<^sup>* (view s) (view s')"
proof (induction rule: rtranclp_induct)
  case (step s' s'')
  then show ?case using view_step [OF step(2)] by (metis rtranclp.rtrancl_into_rtrancl)
qed simp

lemma view_reachable: "cinit s0 \<Longrightarrow> cstep\<^sup>*\<^sup>* s0 s \<Longrightarrow> \<exists>a0. ainit a0 \<and> astep\<^sup>*\<^sup>* a0 (view s)"
  using view_init view_steps by blast

end

lemma worker_admit_Some:
  assumes "worker_admit lane n sv = Some sv'"
  obtains (closed) sk err where "n \<in> set (lane_of lane (sv_busy sv))" "br_connections (sv_broker sv) n = None"
      "sv_sockets sv n = Some sk" "handle_admit (sv_euid sv) (sk_incoming sk) = Some (Inl err)" "sv' = end_connection lane n None sv"
  | (refused) sk caller d written all where "n \<in> set (lane_of lane (sv_busy sv))" "br_connections (sv_broker sv) n = None"
      "sv_sockets sv n = Some sk" "handle_admit (sv_euid sv) (sk_incoming sk) = Some (Inr (caller, PcDone d))"
      "write_response (sk_takes sk) (de_outcome d) = Some (written, all)" "sv' = end_connection lane n (Some written) sv"
  | (started) sk caller request where "n \<in> set (lane_of lane (sv_busy sv))" "br_connections (sv_broker sv) n = None"
      "sv_sockets sv n = Some sk" "handle_admit (sv_euid sv) (sk_incoming sk) = Some (Inr (caller, PcStart request))"
      "sv' = sv\<lparr>sv_broker := (sv_broker sv)\<lparr>br_connections := (br_connections (sv_broker sv))
         (n \<mapsto> \<lparr>cn_caller = caller, cn_request = request, cn_pc = PcStart request\<rparr>)\<rparr>\<rparr>"
  using assms
  by (auto simp: worker_admit_def write_answer_def bind_eq_Some_conv
      split: if_splits option.splits sum.splits prod.splits handler_pc.splits)

lemma worker_dispatch_Some:
  assumes "worker_dispatch lane n w sv = Some sv'"
  obtains c st' pc' where "n \<in> set (lane_of lane (sv_busy sv))" "br_connections (sv_broker sv) n = Some c"
    "q_next_id (ss_queue (br_state (sv_broker sv))) < U64_MAX"
    "handler_step w (cn_caller c) (cn_pc c) (br_state (sv_broker sv)) = (st', pc')"
    "sv' = sv\<lparr>sv_broker := (sv_broker sv)\<lparr>br_state := st', br_connections := (br_connections (sv_broker sv))(n \<mapsto> c\<lparr>cn_pc := pc'\<rparr>)\<rparr>\<rparr>"
  using assms by (auto simp: worker_dispatch_def split: if_splits option.splits prod.splits)

lemma worker_respond_Some:
  assumes "worker_respond lane n sv = Some sv'"
  obtains c d sk written all where "n \<in> set (lane_of lane (sv_busy sv))" "br_connections (sv_broker sv) n = Some c" "cn_pc c = PcDone d"
    "sv_sockets sv n = Some sk" "write_response (sk_takes sk) (de_outcome d) = Some (written, all)"
    "sv' = end_connection lane n (Some written) sv"
  using assms by (auto simp: worker_respond_def write_answer_def bind_eq_Some_conv split: if_splits option.splits handler_pc.splits)

lemma worker_receive_Some:
  assumes "worker_receive lane sv = Some sv'"
  obtains n rest where "lane_of lane (sv_lanes sv) = n # rest" "length (lane_of lane (sv_busy sv)) < lane_workers lane"
    "sv' = sv\<lparr>sv_lanes := set_lane lane rest (sv_lanes sv),
              sv_busy := set_lane lane (lane_of lane (sv_busy sv) @ [n]) (sv_busy sv)\<rparr>"
  using assms by (auto simp: worker_receive_def split: list.splits if_splits)

lemma end_connection_simps [simp]:
  "sv_broker (end_connection lane n x sv) = sv_broker sv" "sv_sockets (end_connection lane n x sv) = sv_sockets sv"
  "sv_lanes (end_connection lane n x sv) = sv_lanes sv" "sv_euid (end_connection lane n x sv) = sv_euid sv"
  "sv_ended (end_connection lane n x sv) = sv_ended sv @ [(n, x)]"
  "sv_busy (end_connection lane n x sv) = set_lane lane (remove1 n (lane_of lane (sv_busy sv))) (sv_busy sv)"
  by (simp_all add: end_connection_def)

lemma lane_of_set_lane [simp]: "lane_of a (set_lane b q l) = (if a = b then q else lane_of a l)"
  by (cases a; cases b) simp_all

lemma serve_accept_broker [simp]: "sv_broker (serve_accept n sk sv) = sv_broker sv"
  by (simp add: serve_accept_def Let_def split: prod.split accept_result.split)

lemma step_broker: "service_step sv sv' \<Longrightarrow> sv_broker sv' = sv_broker sv \<or> broker_step (sv_broker sv) (sv_broker sv')"
proof (induction rule: service_step.induct)
  case (admit lane n sv sv')
  then show ?case by (cases rule: worker_admit_Some) (auto intro: broker_step.accept)
next
  case (dispatch lane n w sv sv')
  then show ?case by (cases rule: worker_dispatch_Some) (auto intro: broker_step.handle)
next
  case (work w run sv b)
  then have "broker_step (sv_broker sv) b" by (rule event_step)
  then show ?case by simp
qed (auto elim!: worker_receive_Some worker_respond_Some)

interpretation threads: stuttering_refinement service_initial service_step broker_initial broker_step sv_broker
proof
  show "service_initial sv \<Longrightarrow> broker_initial (sv_broker sv)" for sv
    unfolding service_initial_def serve_listener_start_def broker_initial_def and_then_Inr by fastforce
qed (rule step_broker)

lemma service_broker_reachable: "service_reachable sv \<Longrightarrow> broker_reachable (sv_broker sv)"
  unfolding service_reachable_def broker_reachable_def using threads.view_reachable by blast

section \<open>What peeking decides\<close>

text \<open>The lane a connection is put in.\<close>

definition chosen_lane :: "peek \<Rightarrow> connection_lane" where
  "chosen_lane p = (case ready_request_lane p of Inr (Some lane) \<Rightarrow> lane | _ \<Rightarrow> MainLane)"

lemma ready_lane_line:
  assumes "ready_request_lane (PeekBytes arrived) = Inr (Some lane)"
  obtains line tail request where "arrived = line @ newline # tail" "newline \<notin> set line" "length line \<le> MAX_FRAME_BYTES"
    "parse_request line = Inr request" "request_lane request = lane"
proof -
  define bytes where "bytes = take (MAX_FRAME_BYTES + 1) arrived"
  from assms obtain frame more line request where f: "split_inclusive newline bytes = frame # more" "frame = line @ [newline]"
      "length line \<le> MAX_FRAME_BYTES" "parse_request line = Inr request" "request_lane request = lane"
    by (auto simp: ready_request_lane_def Let_def strip_suffix_Some ok_def bytes_def split: list.splits option.splits if_splits sum.splits)
  have "newline \<in> set bytes" using concat_split_inclusive [of newline bytes] f(1,2) by (metis UnCI concat.simps(2) in_set_conv_decomp set_append)
  then obtain xs ys where b: "bytes = xs @ newline # ys" "newline \<notin> set xs" by (meson split_list_first)
  with f(1,2) have "line = xs" by (simp add: split_inclusive_row)
  moreover have "arrived = xs @ newline # (ys @ drop (MAX_FRAME_BYTES + 1) arrived)"
    using b(1) append_take_drop_id [of "MAX_FRAME_BYTES + 1" arrived] unfolding bytes_def by simp
  ultimately show thesis using that f(3-5) b(2) by blast
qed

text \<open>A connection whose request could be read at once is put in the lane of the very request that is read later.\<close>

definition peeked_at :: "socket \<Rightarrow> request \<Rightarrow> bool" where
  "peeked_at sk request \<longleftrightarrow>
     (\<exists>line tail. sk_peek sk = PeekBytes (line @ newline # tail) \<and> newline \<notin> set line \<and> parse_request line = Inr request)"

lemma peeked_request:
  assumes "socket_ok sk" and "ready_request_lane (sk_peek sk) = Inr (Some lane)"
  obtains frame request where "read_frame (in_reads (sk_incoming sk)) = Some (Inr frame)" "frame_request frame = Some request"
    "request_lane request = lane" "peeked_at sk request"
proof -
  from assms(2) obtain arrived where a: "sk_peek sk = PeekBytes arrived"
    by (cases "sk_peek sk") (auto simp: ready_request_lane_def)
  from assms(1) a obtain chunks rest where r: "in_reads (sk_incoming sk) = map Inr chunks @ rest" "[] \<notin> set chunks" "prefix arrived (concat chunks)"
    by (auto simp: socket_ok_def)
  from assms(2) a obtain line tail request where l: "arrived = line @ newline # tail" "newline \<notin> set line"
      "length line \<le> MAX_FRAME_BYTES" "parse_request line = Inr request" "request_lane request = lane"
    by (auto elim: ready_lane_line)
  from r(3) l(1) obtain more where "concat chunks = line @ newline # more" by (auto simp: prefix_def)
  then have "read_frame (in_reads (sk_incoming sk)) = Some (Inr (line @ [newline]))"
    unfolding read_frame_def r(1) using read_frame_loop_line [of "[]" chunks line more rest] l(2,3) r(2) by simp
  moreover have "frame_request (line @ [newline]) = Some request" using l(3,4) by (simp add: frame_request_def ok_def)
  moreover have "peeked_at sk request" using a l(1,2,4) unfolding peeked_at_def by blast
  ultimately show thesis using that l(5) by blast
qed

lemma chosen_lane_request:
  assumes "socket_ok sk" and "chosen_lane (sk_peek sk) = lane" and "lane \<noteq> MainLane"
    and "handle_admit euid (sk_incoming sk) = Some (Inr (caller, PcStart request))"
  shows "request_lane request = lane \<and> peeked_at sk request"
proof -
  from assms(2,3) have "ready_request_lane (sk_peek sk) = Inr (Some lane)"
    by (auto simp: chosen_lane_def split: sum.splits option.splits)
  with peeked_request [OF assms(1)] handle_admit_start [OF assms(4)] show ?thesis by (metis option.inject sum.inject(2))
qed

lemma chosen_lane_admits:
  assumes "socket_ok sk" and "chosen_lane (sk_peek sk) \<noteq> MainLane"
  shows "\<exists>r. handle_admit euid (sk_incoming sk) = Some r \<and> (\<forall>caller pc. r = Inr (caller, pc) \<longrightarrow> (\<exists>request. pc = PcStart request))"
proof -
  from assms(2) obtain lane where "ready_request_lane (sk_peek sk) = Inr (Some lane)"
    by (auto simp: chosen_lane_def split: sum.splits option.splits)
  with assms(1) obtain frame request where "read_frame (in_reads (sk_incoming sk)) = Some (Inr frame)"
    "frame_request frame = Some request" by (elim peeked_request)
  then show ?thesis by (auto simp: handle_admit_def split: option.splits sum.splits if_splits)
qed

section \<open>The invariant of the service\<close>

text \<open>Where the connections are: waiting in a channel, held by a thread, or over.\<close>

definition placed :: "service \<Rightarrow> nat multiset" where
  "placed sv = mset (ln_main (sv_lanes sv)) + mset (ln_fast (sv_lanes sv)) + mset (ln_control (sv_lanes sv))
     + mset (ln_main (sv_busy sv)) + mset (ln_fast (sv_busy sv)) + mset (ln_control (sv_busy sv)) + mset (map fst (sv_ended sv))"

definition lanes_bounded :: "service \<Rightarrow> bool" where
  "lanes_bounded sv \<longleftrightarrow>
     (\<forall>lane. length (lane_of lane (sv_lanes sv)) \<le> lane_depth lane \<and> length (lane_of lane (sv_busy sv)) \<le> lane_workers lane)"

definition placed_once :: "service \<Rightarrow> bool" where
  "placed_once sv \<longleftrightarrow> (\<forall>n. count (placed sv) n = (if sv_sockets sv n = None then 0 else 1))"

definition held :: "connection_lane \<Rightarrow> service \<Rightarrow> nat set" where
  "held lane sv = set (lane_of lane (sv_lanes sv)) \<union> set (lane_of lane (sv_busy sv))"

definition lanes_chosen :: "service \<Rightarrow> bool" where
  "lanes_chosen sv \<longleftrightarrow>
     (\<forall>lane. \<forall>n \<in> held lane sv. \<exists>sk. sv_sockets sv n = Some sk \<and> socket_ok sk \<and> chosen_lane (sk_peek sk) = lane)"

text \<open>Every handler works for the caller and the request of its socket, and those outside the main lane are at
  their start or at their end.\<close>

definition admitted :: "service \<Rightarrow> bool" where
  "admitted sv \<longleftrightarrow>
     (\<forall>n c. br_connections (sv_broker sv) n = Some c \<longrightarrow>
        (\<exists>sk. sv_sockets sv n = Some sk
           \<and> handle_admit (sv_euid sv) (sk_incoming sk) = Some (Inr (cn_caller c, PcStart (cn_request c))))
        \<and> (request_lane (cn_request c) \<noteq> MainLane \<longrightarrow> cn_pc c = PcStart (cn_request c) \<or> (\<exists>d. cn_pc c = PcDone d)))"

definition service_ok :: "service \<Rightarrow> bool" where
  "service_ok sv \<longleftrightarrow> lanes_bounded sv \<and> placed_once sv \<and> lanes_chosen sv \<and> admitted sv"

lemma placed_end:
  "n \<in> set (lane_of lane (sv_busy sv)) \<Longrightarrow> placed (end_connection lane n x sv) = placed sv"
  by (cases lane) (simp_all add: placed_def end_connection_def insert_DiffM2)

lemma placed_receive: "worker_receive lane sv = Some sv' \<Longrightarrow> placed sv' = placed sv"
  by (cases lane) (auto elim!: worker_receive_Some simp: placed_def)

lemma placed_accept: "placed (serve_accept n sk sv) = add_mset n (placed sv)"
  by (auto simp: placed_def serve_accept_def accept_connection_def try_send_def Let_def
      split: prod.split accept_result.split sum.split option.split connection_lane.split)

lemma placed_broker [simp]: "placed (sv\<lparr>sv_broker := b\<rparr>) = placed sv"
  by (simp add: placed_def)

text \<open>Each part is kept by each kind of step.\<close>

lemma accept_lanes:
  assumes "accept_connection n p l = (l', r)"
  shows "(if r = Enqueued then length (lane_of (chosen_lane p) l) < lane_depth (chosen_lane p)
        \<and> l' = set_lane (chosen_lane p) (lane_of (chosen_lane p) l @ [n]) l
      else l' = l)"
  using assms
  by (auto simp: accept_connection_def chosen_lane_def try_send_def Let_def
      split: sum.splits option.splits connection_lane.splits if_splits)

lemma serve_accept_cases:
  obtains (enqueued) "length (lane_of (chosen_lane (sk_peek sk)) (sv_lanes sv)) < lane_depth (chosen_lane (sk_peek sk))"
      "serve_accept n sk sv = sv\<lparr>sv_sockets := (sv_sockets sv)(n \<mapsto> sk),
         sv_lanes := set_lane (chosen_lane (sk_peek sk)) (lane_of (chosen_lane (sk_peek sk)) (sv_lanes sv) @ [n]) (sv_lanes sv)\<rparr>"
  | (rejected) written where "serve_accept n sk sv = sv\<lparr>sv_sockets := (sv_sockets sv)(n \<mapsto> sk), sv_ended := sv_ended sv @ [(n, written)]\<rparr>"
proof (cases "accept_connection n (sk_peek sk) (sv_lanes sv)")
  case (Pair l r)
  from accept_lanes [OF this] that Pair show ?thesis by (cases r) (auto simp: serve_accept_def Let_def)
qed

lemma lanes_bounded_step: "service_step sv sv' \<Longrightarrow> lanes_bounded sv \<Longrightarrow> lanes_bounded sv'"
proof (induction rule: service_step.induct)
  case (accept sv n sk)
  then show ?case by (cases rule: serve_accept_cases [of sk sv n]) (auto simp: lanes_bounded_def Suc_le_eq)
next
  case (receive lane sv sv')
  then show ?case by (cases rule: worker_receive_Some) (auto simp: lanes_bounded_def Suc_le_eq dest: spec [of _ lane])
next
  case (admit lane n sv sv')
  then show ?case
    by (cases rule: worker_admit_Some) (auto simp: lanes_bounded_def length_remove1 intro: order_trans [OF diff_le_self])
next
  case (respond lane n sv sv')
  then show ?case
    by (cases rule: worker_respond_Some) (auto simp: lanes_bounded_def length_remove1 intro: order_trans [OF diff_le_self])
qed (auto simp: lanes_bounded_def elim!: worker_dispatch_Some)

lemma placed_once_step: "service_step sv sv' \<Longrightarrow> placed_once sv \<Longrightarrow> placed_once sv'"
proof (induction rule: service_step.induct)
  case (accept sv n sk)
  then show ?case using placed_accept [of n sk sv]
    by (cases rule: serve_accept_cases [of sk sv n]) (auto simp: placed_once_def)
next
  case (receive lane sv sv')
  then show ?case using placed_receive [of lane sv sv'] by (auto simp: placed_once_def elim!: worker_receive_Some)
next
  case (admit lane n sv sv')
  then show ?case by (cases rule: worker_admit_Some) (auto simp: placed_once_def placed_end)
next
  case (respond lane n sv sv')
  then show ?case by (cases rule: worker_respond_Some) (auto simp: placed_once_def placed_end)
qed (auto simp: placed_once_def elim!: worker_dispatch_Some)

lemma lanes_chosen_step: "service_step sv sv' \<Longrightarrow> lanes_chosen sv \<Longrightarrow> lanes_chosen sv'"
proof (induction rule: service_step.induct)
  case (accept sv n sk)
  then have "n \<notin> held lane sv" for lane
    unfolding lanes_chosen_def by (metis option.distinct(1))
  then have "n \<notin> set (lane_of lane (sv_lanes sv))" "n \<notin> set (lane_of lane (sv_busy sv))" for lane
    unfolding held_def by blast+
  with accept show ?case
    by (cases rule: serve_accept_cases [of sk sv n]) (auto simp: lanes_chosen_def held_def split: if_splits)
next
  case (receive lane sv sv')
  then show ?case by (cases rule: worker_receive_Some) (auto simp: lanes_chosen_def held_def split: if_splits)
next
  case (admit lane n sv sv')
  then show ?case
    by (cases rule: worker_admit_Some)
       (auto simp: lanes_chosen_def held_def dest: set_remove1_subset [THEN subsetD] split: if_splits)
next
  case (respond lane n sv sv')
  then show ?case
    by (cases rule: worker_respond_Some)
       (auto simp: lanes_chosen_def held_def dest: set_remove1_subset [THEN subsetD] split: if_splits)
qed (auto simp: lanes_chosen_def held_def elim!: worker_dispatch_Some)

lemma start_done: "request_lane request \<noteq> MainLane \<Longrightarrow> \<exists>st' d. dispatch_start w caller request st = (st', PcDone d)"
  by (cases request) (auto simp: dispatch_start_def Let_def split: prod.split)

lemma admitted_same:
  "admitted sv \<Longrightarrow> sv_sockets sv' = sv_sockets sv \<Longrightarrow> sv_euid sv' = sv_euid sv \<Longrightarrow>
     br_connections (sv_broker sv') = br_connections (sv_broker sv) \<Longrightarrow> admitted sv'"
  by (simp add: admitted_def)

lemma admitted_step: "service_step sv sv' \<Longrightarrow> admitted sv \<Longrightarrow> admitted sv'"
proof (induction rule: service_step.induct)
  case (accept sv n sk)
  then have "br_connections (sv_broker sv) n = None" unfolding admitted_def by (metis not_None_eq)
  with accept show ?case by (cases rule: serve_accept_cases [of sk sv n]) (auto simp: admitted_def)
next
  case (admit lane n sv sv')
  then show ?case by (cases rule: worker_admit_Some) (auto simp: admitted_def)
next
  case (dispatch lane n w sv sv')
  then obtain c st' pc' where d: "br_connections (sv_broker sv) n = Some c"
      "handler_step w (cn_caller c) (cn_pc c) (br_state (sv_broker sv)) = (st', pc')"
      "sv' = sv\<lparr>sv_broker := (sv_broker sv)\<lparr>br_state := st', br_connections := (br_connections (sv_broker sv))(n \<mapsto> c\<lparr>cn_pc := pc'\<rparr>)\<rparr>\<rparr>"
    by (elim worker_dispatch_Some)
  have "\<exists>d. pc' = PcDone d" if "request_lane (cn_request c) \<noteq> MainLane"
  proof -
    from dispatch(2) d(1) that have "cn_pc c = PcStart (cn_request c) \<or> (\<exists>d. cn_pc c = PcDone d)" unfolding admitted_def by blast
    with d(2) start_done [OF that, of w "cn_caller c" "br_state (sv_broker sv)"] show ?thesis
      by (elim disjE exE) (simp_all add: handler_step_def, blast+)
  qed
  with dispatch(2) d(1,3) show ?case by (auto simp: admitted_def)
next
  case (work w run sv b)
  then have "br_connections b = br_connections (sv_broker sv)" by (auto split: prod.splits)
  with work show ?case by (auto intro: admitted_same)
qed (auto intro: admitted_same elim!: worker_receive_Some worker_respond_Some)

lemma lane_of_no_lanes [simp]: "lane_of lane no_lanes = []"
  by (cases lane) (simp_all add: no_lanes_def)

lemma service_initial_ok: "service_initial sv \<Longrightarrow> service_ok sv"
proof -
  assume "service_initial sv"
  then have "sv_lanes sv = no_lanes" "sv_busy sv = no_lanes" "sv_sockets sv = (\<lambda>_. None)" "sv_ended sv = []"
    "br_connections (sv_broker sv) = (\<lambda>_. None)"
    by (auto simp: service_initial_def serve_listener_start_def and_then_Inr)
  then show ?thesis
    by (simp add: service_ok_def lanes_bounded_def placed_once_def placed_def lanes_chosen_def held_def admitted_def, simp add: no_lanes_def)
qed

interpretation service: kept_invariant service_initial service_step service_ok
proof
  show "service_step sv sv' \<Longrightarrow> service_ok sv \<Longrightarrow> service_ok sv'" for sv sv'
    using lanes_bounded_step placed_once_step lanes_chosen_step admitted_step by (simp add: service_ok_def)
qed (rule service_initial_ok)

lemma service_reachable_ok: "service_reachable sv \<Longrightarrow> service_ok sv"
  unfolding service_reachable_def using service.reachable_inv by blast

section \<open>What stays\<close>

text \<open>Sockets, ended connections and decided handlers stay as they are.\<close>

definition extends :: "service \<Rightarrow> service \<Rightarrow> bool" where
  "extends sv sv' \<longleftrightarrow> sv_euid sv' = sv_euid sv \<and> sv_sockets sv \<subseteq>\<^sub>m sv_sockets sv' \<and> prefix (sv_ended sv) (sv_ended sv')
     \<and> (\<forall>n c d. br_connections (sv_broker sv) n = Some c \<longrightarrow> cn_pc c = PcDone d \<longrightarrow> br_connections (sv_broker sv') n = Some c)"

lemma extends_refl [simp]: "extends sv sv"
  by (simp add: extends_def)

lemma extends_trans: "extends sv sv' \<Longrightarrow> extends sv' sv'' \<Longrightarrow> extends sv sv''"
  unfolding extends_def by (metis map_le_trans prefix_order.trans)

lemma step_extends: "service_step sv sv' \<Longrightarrow> extends sv sv'"
proof (induction rule: service_step.induct)
  case (accept sv n sk)
  then show ?case by (cases rule: serve_accept_cases [of sk sv n]) (auto simp: extends_def map_le_def)
next
  case (admit lane n sv sv')
  then show ?case by (cases rule: worker_admit_Some) (auto simp: extends_def)
next
  case (dispatch lane n w sv sv')
  then show ?case
    by (cases rule: worker_dispatch_Some) (auto simp: extends_def handler_step_def)
next
  case (work w run sv b)
  then have "br_connections b = br_connections (sv_broker sv)" by (auto split: prod.splits)
  then show ?case by (simp add: extends_def)
qed (auto simp: extends_def elim!: worker_receive_Some worker_respond_Some)

section \<open>The other lanes drain\<close>

text \<open>A connection that is over, as it should be: closed without an answer if it was not admitted, refused if its
  frame held no request, and otherwise answered with the decision of its request's own handler. An answer is
  the whole answer, if the other end takes all of it, and otherwise the part that it took before it hung up.\<close>

definition delivered :: "socket \<Rightarrow> outcome \<Rightarrow> string \<Rightarrow> bool" where
  "delivered sk out written \<longleftrightarrow> prefix written (response_bytes out) \<and> (sk_takes sk = TakesAll \<longrightarrow> written = response_bytes out)"

definition answered :: "nat \<Rightarrow> service \<Rightarrow> bool" where
  "answered n sv \<longleftrightarrow>
     (\<exists>sk. sv_sockets sv n = Some sk \<and>
        (case handle_admit (sv_euid sv) (sk_incoming sk) of
           Some (Inr (caller, PcStart request)) \<Rightarrow>
             (\<exists>d. br_connections (sv_broker sv) n = Some \<lparr>cn_caller = caller, cn_request = request, cn_pc = PcDone d\<rparr>
                \<and> (\<exists>written. (n, Some written) \<in> set (sv_ended sv) \<and> delivered sk (de_outcome d) written))
         | Some (Inr (caller, PcDone d)) \<Rightarrow> (\<exists>written. (n, Some written) \<in> set (sv_ended sv) \<and> delivered sk (de_outcome d) written)
         | Some (Inl err) \<Rightarrow> (n, None) \<in> set (sv_ended sv)
         | _ \<Rightarrow> False))"

lemma answered_extends: "answered n sv \<Longrightarrow> extends sv sv' \<Longrightarrow> answered n sv'"
proof -
  assume "answered n sv" and e: "extends sv sv'"
  then obtain sk where sk: "sv_sockets sv n = Some sk" and "answered n sv" by (auto simp: answered_def)
  moreover have "sv_sockets sv' n = Some sk" using e sk by (metis domI extends_def map_le_def)
  moreover have "sv_euid sv' = sv_euid sv" "set (sv_ended sv) \<subseteq> set (sv_ended sv')"
    using e by (auto simp: extends_def dest: set_mono_prefix)
  moreover have "br_connections (sv_broker sv') n = Some \<lparr>cn_caller = a, cn_request = r, cn_pc = PcDone d\<rparr>"
    if "br_connections (sv_broker sv) n = Some \<lparr>cn_caller = a, cn_request = r, cn_pc = PcDone d\<rparr>" for a r d
    using e that by (simp add: extends_def)
  ultimately show ?thesis
    by (simp add: answered_def split: option.splits sum.splits prod.splits handler_pc.splits) blast+
qed

text \<open>The other end does not keep a writer waiting: it takes the whole answer, or hangs up.\<close>

definition never_blocks :: "socket \<Rightarrow> bool" where
  "never_blocks sk \<longleftrightarrow> (\<forall>k. sk_takes sk \<noteq> TakesThenBlocks k)"

definition taken :: "nat \<Rightarrow> service \<Rightarrow> bool" where
  "taken n sv \<longleftrightarrow> (\<forall>sk. sv_sockets sv n = Some sk \<longrightarrow> never_blocks sk)"

lemma never_blocks_delivers:
  assumes "never_blocks sk"
  obtains written all where "write_response (sk_takes sk) out = Some (written, all)" "delivered sk out written"
  using assms by (cases "sk_takes sk") (auto simp: never_blocks_def delivered_def take_is_prefix)

lemma run_events_append: "run_events (es @ fs) sv = Option.bind (run_events es sv) (run_events fs)"
proof (induction es arbitrary: sv)
  case (Cons e es)
  then show ?case by (cases "run_event e sv") simp_all
qed simp

text \<open>A run of one pool's threads, in a world that shows them all the same.\<close>

fun event_world :: "service_event \<Rightarrow> world option" where
  "event_world (SvDispatch _ _ w) = Some w"
| "event_world _ = None"

definition lane_run :: "connection_lane \<Rightarrow> world \<Rightarrow> service_event list \<Rightarrow> service \<Rightarrow> service \<Rightarrow> bool" where
  "lane_run lane w es sv sv' \<longleftrightarrow> (\<forall>e \<in> set es. event_lane e = Some lane \<and> event_world e \<in> {None, Some w}) \<and> run_events es sv = Some sv'"

lemma lane_event_step: "event_lane e = Some lane \<Longrightarrow> run_event e sv = Some sv' \<Longrightarrow> service_step sv sv'"
  by (cases e) (auto intro: service_step.intros)

lemma lane_run_steps: "lane_run lane w es sv sv' \<Longrightarrow> service_step\<^sup>*\<^sup>* sv sv'"
proof (induction es arbitrary: sv)
  case (Cons e es)
  then obtain sv1 where "service_step sv sv1" "lane_run lane w es sv1 sv'"
    by (auto simp: lane_run_def bind_eq_Some_conv intro: lane_event_step)
  with Cons.IH show ?case by (meson converse_rtranclp_into_rtranclp)
qed (simp add: lane_run_def)

lemma lane_event_sockets: "event_lane e = Some lane \<Longrightarrow> run_event e sv = Some sv' \<Longrightarrow> sv_sockets sv' = sv_sockets sv"
  by (cases e) (auto elim!: worker_receive_Some worker_admit_Some worker_dispatch_Some worker_respond_Some)

lemma lane_run_sockets: "lane_run lane w es sv sv' \<Longrightarrow> sv_sockets sv' = sv_sockets sv"
proof (induction es arbitrary: sv)
  case (Cons e es)
  then obtain sv1 where "run_event e sv = Some sv1" "event_lane e = Some lane" "lane_run lane w es sv1 sv'"
    by (auto simp: lane_run_def bind_eq_Some_conv)
  with Cons.IH lane_event_sockets show ?case by metis
qed (simp add: lane_run_def)

lemma lane_run_taken: "lane_run lane w es sv sv' \<Longrightarrow> taken n sv' = taken n sv"
  by (simp add: taken_def lane_run_sockets)

lemma lane_run_trans: "lane_run lane w es sv sv' \<Longrightarrow> lane_run lane w fs sv' sv'' \<Longrightarrow> lane_run lane w (es @ fs) sv sv''"
  by (auto simp: lane_run_def run_events_append)

lemma steps_extends: "service_step\<^sup>*\<^sup>* sv sv' \<Longrightarrow> extends sv sv'"
  by (induction rule: rtranclp_induct) (auto intro: extends_trans step_extends)

text \<open>A request outside the main lane takes no identifier.\<close>

lemma start_next_id:
  "request_lane request \<noteq> MainLane \<Longrightarrow> dispatch_start w caller request st = (st', pc) \<Longrightarrow>
     q_next_id (ss_queue st') = q_next_id (ss_queue st)"
  by (cases request)
     (auto simp: dispatch_start_def Let_def dispatch_hello_def dispatch_register_def dispatch_unregister_def
      dispatch_grants_def dispatch_deny_def dispatch_lock_def dispatch_redeem_def Queue_deny_def
      split: sum.splits prod.splits option.splits bool.splits if_splits)

text \<open>One thread, with a connection in hand, is done with it after at most three stretches.\<close>

lemma respond_one:
  assumes "service_ok sv" and "lane_of lane (sv_busy sv) = [n]" and "br_connections (sv_broker sv) n = Some c" and "cn_pc c = PcDone d"
    and "taken n sv"
  shows "\<exists>sv'. lane_run lane w [SvRespond lane n] sv sv' \<and> lane_of lane (sv_busy sv') = [] \<and> answered n sv'
    \<and> sv_lanes sv' = sv_lanes sv \<and> sv_broker sv' = sv_broker sv"
proof -
  from assms(1,3) obtain sk where sk: "sv_sockets sv n = Some sk"
    "handle_admit (sv_euid sv) (sk_incoming sk) = Some (Inr (cn_caller c, PcStart (cn_request c)))"
    unfolding service_ok_def admitted_def by blast
  then have "never_blocks sk" using assms(5) by (simp add: taken_def)
  then obtain written all where w: "write_response (sk_takes sk) (de_outcome d) = Some (written, all)"
      "delivered sk (de_outcome d) written" by (rule never_blocks_delivers)
  let ?sv = "end_connection lane n (Some written) sv"
  have "worker_respond lane n sv = Some ?sv" using assms(2-4) sk(1) w(1) by (simp add: worker_respond_def write_answer_def)
  then have "lane_run lane w [SvRespond lane n] sv ?sv" by (simp add: lane_run_def)
  moreover have "answered n ?sv" using assms(3,4) sk w(2) by (cases c) (auto simp: answered_def)
  ultimately show ?thesis using assms(2) by auto
qed

lemma dispatch_one:
  assumes "service_ok sv" and "lane_of lane (sv_busy sv) = [n]" and "br_connections (sv_broker sv) n = Some c"
    and "request_lane (cn_request c) \<noteq> MainLane" and "q_next_id (ss_queue (br_state (sv_broker sv))) < U64_MAX"
    and "taken n sv"
  shows "\<exists>es sv'. length es \<le> 2 \<and> lane_run lane w es sv sv' \<and> lane_of lane (sv_busy sv') = [] \<and> answered n sv'
    \<and> sv_lanes sv' = sv_lanes sv \<and> q_next_id (ss_queue (br_state (sv_broker sv'))) < U64_MAX"
proof -
  from assms(1,3,4) consider "cn_pc c = PcStart (cn_request c)" | d where "cn_pc c = PcDone d"
    unfolding service_ok_def admitted_def by blast
  then show ?thesis
  proof cases
    case 1
    let ?b = "sv_broker sv"
    obtain st' d where d: "dispatch_start w (cn_caller c) (cn_request c) (br_state ?b) = (st', PcDone d)"
      using start_done [OF assms(4)] by blast
    define sv1 where "sv1 = sv\<lparr>sv_broker := ?b\<lparr>br_state := st', br_connections := (br_connections ?b)(n \<mapsto> c\<lparr>cn_pc := PcDone d\<rparr>)\<rparr>\<rparr>"
    have "worker_dispatch lane n w sv = Some sv1"
      using assms(2,3,5) 1 d by (simp add: worker_dispatch_def handler_step_def sv1_def)
    then have r: "lane_run lane w [SvDispatch lane n w] sv sv1" and "service_step sv sv1"
      by (auto simp: lane_run_def intro: service_step.dispatch)
    then have "service_ok sv1" using assms(1) service.step_inv by blast
    moreover have "lane_of lane (sv_busy sv1) = [n]" "br_connections (sv_broker sv1) n = Some (c\<lparr>cn_pc := PcDone d\<rparr>)"
      "cn_pc (c\<lparr>cn_pc := PcDone d\<rparr>) = PcDone d" "taken n sv1" using assms(2,6) by (simp_all add: sv1_def taken_def)
    ultimately obtain sv' where "lane_run lane w [SvRespond lane n] sv1 sv'" "lane_of lane (sv_busy sv') = []" "answered n sv'"
      "sv_lanes sv' = sv_lanes sv1" "sv_broker sv' = sv_broker sv1" using respond_one [of sv1 lane n _ d] by blast
    moreover have "q_next_id (ss_queue (br_state (sv_broker sv1))) < U64_MAX"
      using start_next_id [OF assms(4) d] assms(5) by (simp add: sv1_def)
    ultimately show ?thesis
      using lane_run_trans [OF r] by (intro exI [of _ "[SvDispatch lane n w, SvRespond lane n]"] exI [of _ sv']) (simp add: sv1_def)
  next
    case (2 d)
    from respond_one [OF assms(1-3) 2 assms(6)] assms(5) show ?thesis by (metis length_Cons list.size(3) one_le_numeral One_nat_def)
  qed
qed

lemma serve_one:
  assumes "service_ok sv" and "lane_of lane (sv_busy sv) = [n]" and "lane \<noteq> MainLane"
    and "q_next_id (ss_queue (br_state (sv_broker sv))) < U64_MAX" and "taken n sv"
  shows "\<exists>es sv'. length es \<le> 3 \<and> lane_run lane w es sv sv' \<and> lane_of lane (sv_busy sv') = [] \<and> answered n sv'
    \<and> sv_lanes sv' = sv_lanes sv \<and> q_next_id (ss_queue (br_state (sv_broker sv'))) < U64_MAX"
proof -
  from assms(1,2) obtain sk where sk: "sv_sockets sv n = Some sk" "socket_ok sk" "chosen_lane (sk_peek sk) = lane"
    by (fastforce simp: service_ok_def lanes_chosen_def held_def)
  show ?thesis
  proof (cases "br_connections (sv_broker sv) n")
    case (Some c)
    with assms(1) sk(1) have "handle_admit (sv_euid sv) (sk_incoming sk) = Some (Inr (cn_caller c, PcStart (cn_request c)))"
      unfolding service_ok_def admitted_def by (metis option.inject)
    with chosen_lane_request [OF sk(2,3) assms(3)] assms(3) have "request_lane (cn_request c) \<noteq> MainLane" by blast
    from dispatch_one [OF assms(1,2) Some this assms(4,5), of w] show ?thesis by (metis le_trans numeral_le_iff semiring_norm(68) semiring_norm(72))
  next
    case None
    from chosen_lane_admits [OF sk(2)] sk(3) assms(3) obtain r where r: "handle_admit (sv_euid sv) (sk_incoming sk) = Some r"
      "\<And>caller pc. r = Inr (caller, pc) \<Longrightarrow> \<exists>request. pc = PcStart request" by blast
    show ?thesis
    proof (cases r)
      case (Inl err)
      let ?sv = "end_connection lane n None sv"
      have "worker_admit lane n sv = Some ?sv" using assms(2) None sk(1) r(1) Inl by (simp add: worker_admit_def)
      moreover have "answered n ?sv" using sk(1) r(1) Inl by (simp add: answered_def)
      ultimately show ?thesis using assms(2,4)
        by (intro exI [of _ "[SvAdmit lane n]"] exI [of _ ?sv]) (simp add: lane_run_def)
    next
      case (Inr p)
      then obtain caller request where p: "r = Inr (caller, PcStart request)" using r(2) by (metis prod.collapse)
      let ?c = "\<lparr>cn_caller = caller, cn_request = request, cn_pc = PcStart request\<rparr>"
      define sv1 where "sv1 = sv\<lparr>sv_broker := (sv_broker sv)\<lparr>br_connections := (br_connections (sv_broker sv))(n \<mapsto> ?c)\<rparr>\<rparr>"
      have "worker_admit lane n sv = Some sv1" using assms(2) None sk(1) r(1) p by (simp add: worker_admit_def sv1_def)
      then have a: "lane_run lane w [SvAdmit lane n] sv sv1" and "service_step sv sv1"
        by (auto simp: lane_run_def intro: service_step.admit)
      then have "service_ok sv1" using assms(1) service.step_inv by blast
      moreover have "request_lane (cn_request ?c) \<noteq> MainLane" using chosen_lane_request [OF sk(2,3) assms(3)] r(1) p assms(3) by auto
      moreover have "lane_of lane (sv_busy sv1) = [n]" "br_connections (sv_broker sv1) n = Some ?c"
        "q_next_id (ss_queue (br_state (sv_broker sv1))) < U64_MAX" "taken n sv1"
        using assms(2,4,5) by (simp_all add: sv1_def taken_def)
      ultimately obtain es sv' where "length es \<le> 2" "lane_run lane w es sv1 sv'" "lane_of lane (sv_busy sv') = []" "answered n sv'"
        "sv_lanes sv' = sv_lanes sv1" "q_next_id (ss_queue (br_state (sv_broker sv'))) < U64_MAX"
        using dispatch_one [of sv1 lane n ?c w] by blast
      then show ?thesis using lane_run_trans [OF a, of es sv']
        by (intro exI [of _ "SvAdmit lane n # es"] exI [of _ sv']) (simp add: sv1_def)
    qed
  qed
qed

lemma lane_run_receive:
  assumes "lane_of lane (sv_lanes sv) = n # q" and "lane_of lane (sv_busy sv) = []"
  shows "\<exists>sv1. lane_run lane w [SvReceive lane] sv sv1 \<and> lane_of lane (sv_busy sv1) = [n] \<and> lane_of lane (sv_lanes sv1) = q
    \<and> sv_broker sv1 = sv_broker sv"
proof -
  have "0 < lane_workers lane"
    by (cases lane) (simp_all add: CONNECTION_WORKERS_def FAST_CONNECTION_WORKERS_def CONTROL_CONNECTION_WORKERS_def)
  with assms show ?thesis by (auto simp: lane_run_def worker_receive_def)
qed

lemma lane_run_ok: "lane_run lane w es sv sv' \<Longrightarrow> service_ok sv \<Longrightarrow> service_ok sv' \<and> extends sv sv'"
  using lane_run_steps service.steps_inv steps_extends by blast

lemma drain_idle:
  assumes "service_ok sv" and "lane \<noteq> MainLane" and "lane_of lane (sv_busy sv) = []" and "lane_of lane (sv_lanes sv) = q"
    and "q_next_id (ss_queue (br_state (sv_broker sv))) < U64_MAX" and "\<forall>n \<in> set q. taken n sv"
  shows "\<exists>es sv'. length es \<le> 4 * length q \<and> lane_run lane w es sv sv' \<and> lane_of lane (sv_busy sv') = []
    \<and> lane_of lane (sv_lanes sv') = [] \<and> (\<forall>n \<in> set q. answered n sv')"
  using assms
proof (induction q arbitrary: sv)
  case Nil
  then show ?case by (intro exI [of _ "[]"] exI [of _ sv]) (simp add: lane_run_def)
next
  case (Cons n q)
  obtain sv1 where 1: "lane_run lane w [SvReceive lane] sv sv1" "lane_of lane (sv_busy sv1) = [n]" "lane_of lane (sv_lanes sv1) = q"
    "sv_broker sv1 = sv_broker sv" using lane_run_receive [OF Cons.prems(4,3)] by blast
  have ok1: "service_ok sv1" using lane_run_ok [OF 1(1)] Cons.prems(1) by blast
  obtain es sv2 where 2: "length es \<le> 3" "lane_run lane w es sv1 sv2" "lane_of lane (sv_busy sv2) = []" "answered n sv2"
    "sv_lanes sv2 = sv_lanes sv1" "q_next_id (ss_queue (br_state (sv_broker sv2))) < U64_MAX"
    using serve_one [OF ok1 1(2) Cons.prems(2)] Cons.prems(5,6) 1(4) lane_run_taken [OF 1(1), of n] by (metis list.set_intros(1))
  have ok2: "service_ok sv2" using lane_run_ok [OF 2(2) ok1] by blast
  obtain fs sv' where 3: "length fs \<le> 4 * length q" "lane_run lane w fs sv2 sv'" "lane_of lane (sv_busy sv') = []"
    "lane_of lane (sv_lanes sv') = []" "\<forall>n \<in> set q. answered n sv'"
    using Cons.IH [OF ok2 Cons.prems(2) 2(3) _ 2(6)] 1(3) 2(5) Cons.prems(6) lane_run_taken [OF 1(1)] lane_run_taken [OF 2(2)] by auto
  have "answered n sv'" using answered_extends [OF 2(4)] lane_run_ok [OF 3(2) ok2] by blast
  moreover have "lane_run lane w ([SvReceive lane] @ es @ fs) sv sv'" using lane_run_trans 1(1) 2(2) 3(2) by blast
  ultimately show ?case using 2(1) 3(1,3-5) by (intro exI [of _ "[SvReceive lane] @ es @ fs"] exI [of _ sv']) simp
qed

lemma single_worker: "lane \<noteq> MainLane \<Longrightarrow> lane_workers lane = 1"
  by (cases lane) (simp_all add: FAST_CONNECTION_WORKERS_def CONTROL_CONNECTION_WORKERS_def)

lemma lane_drains:
  assumes "service_ok sv" and "lane \<noteq> MainLane" and "q_next_id (ss_queue (br_state (sv_broker sv))) < U64_MAX"
    and "\<forall>n \<in> held lane sv. taken n sv"
  shows "\<exists>es sv'. length es \<le> 4 * (length (lane_of lane (sv_lanes sv)) + length (lane_of lane (sv_busy sv)))
    \<and> lane_run lane w es sv sv' \<and> held lane sv' = {} \<and> (\<forall>n \<in> held lane sv. answered n sv')"
proof -
  have "length (lane_of lane (sv_busy sv)) \<le> 1"
    using assms(1) single_worker [OF assms(2)] by (auto simp: service_ok_def lanes_bounded_def dest: spec [of _ lane])
  then consider "lane_of lane (sv_busy sv) = []" | n where "lane_of lane (sv_busy sv) = [n]"
    by (cases "lane_of lane (sv_busy sv)") auto
  then show ?thesis
  proof cases
    case 1
    with drain_idle [OF assms(1,2) 1 refl assms(3), of w] assms(4) show ?thesis by (auto simp: held_def)
  next
    case (2 n)
    have t: "taken n sv" using assms(4) 2 by (simp add: held_def)
    obtain es sv1 where s: "length es \<le> 3" "lane_run lane w es sv sv1" "lane_of lane (sv_busy sv1) = []" "answered n sv1"
      "sv_lanes sv1 = sv_lanes sv" "q_next_id (ss_queue (br_state (sv_broker sv1))) < U64_MAX"
      using serve_one [OF assms(1) 2 assms(2,3) t] by blast
    have ok1: "service_ok sv1" using lane_run_ok [OF s(2) assms(1)] by blast
    obtain fs sv' where d: "length fs \<le> 4 * length (lane_of lane (sv_lanes sv))" "lane_run lane w fs sv1 sv'"
      "lane_of lane (sv_busy sv') = []" "lane_of lane (sv_lanes sv') = []" "\<forall>n \<in> set (lane_of lane (sv_lanes sv)). answered n sv'"
      using drain_idle [OF ok1 assms(2) s(3) refl s(6), of w] s(5) assms(4) lane_run_taken [OF s(2)] by (auto simp: held_def)
    have "answered n sv'" using answered_extends [OF s(4)] lane_run_ok [OF d(2) ok1] by blast
    moreover have "lane_run lane w (es @ fs) sv sv'" using lane_run_trans s(2) d(2) by blast
    ultimately show ?thesis using 2 s(1) d(1,3-5)
      by (intro exI [of _ "es @ fs"] exI [of _ sv']) (auto simp: held_def)
  qed
qed

lemma lane_event_others:
  "event_lane e = Some lane \<Longrightarrow> run_event e sv = Some sv' \<Longrightarrow> other \<noteq> lane \<Longrightarrow>
     lane_of other (sv_lanes sv') = lane_of other (sv_lanes sv) \<and> lane_of other (sv_busy sv') = lane_of other (sv_busy sv)"
  by (cases e) (auto elim!: worker_receive_Some worker_admit_Some worker_dispatch_Some worker_respond_Some)

lemma lane_run_others:
  assumes "lane_run lane w es sv sv'" and "other \<noteq> lane"
  shows "lane_of other (sv_lanes sv') = lane_of other (sv_lanes sv) \<and> lane_of other (sv_busy sv') = lane_of other (sv_busy sv)"
  using assms(1)
proof (induction es arbitrary: sv)
  case (Cons e es)
  then obtain sv1 where "run_event e sv = Some sv1" "event_lane e = Some lane" "lane_run lane w es sv1 sv'"
    by (auto simp: lane_run_def bind_eq_Some_conv)
  with Cons.IH [of sv1] lane_event_others [of e lane sv sv1 other] assms(2) show ?case by simp
qed (simp add: lane_run_def)

section \<open>A peer that neither reads nor hangs up\<close>

text \<open>A lane with one thread, which has to write an answer that is longer than what the other end takes.\<close>

definition stalled :: "connection_lane \<Rightarrow> nat \<Rightarrow> decision \<Rightarrow> service \<Rightarrow> bool" where
  "stalled lane n d sv \<longleftrightarrow> lane \<noteq> MainLane \<and> lane_of lane (sv_busy sv) = [n]
     \<and> (\<exists>c sk k. br_connections (sv_broker sv) n = Some c \<and> cn_pc c = PcDone d \<and> sv_sockets sv n = Some sk
          \<and> sk_takes sk = TakesThenBlocks k \<and> k < length (response_bytes (de_outcome d)))"

lemma stalled_write: "stalled lane n d sv \<Longrightarrow> write_answer lane' n d sv = None"
  by (auto simp: stalled_def write_answer_def)

lemma stalled_step:
  assumes "service_step sv sv'" and "stalled lane n d sv"
  shows "stalled lane n d sv' \<and> prefix (lane_of lane (sv_lanes sv)) (lane_of lane (sv_lanes sv'))"
proof -
  have keeps: "br_connections (sv_broker sv') n = br_connections (sv_broker sv) n \<and> sv_sockets sv' n = sv_sockets sv n"
    using step_extends [OF assms(1)] assms(2) unfolding stalled_def extends_def map_le_def by (metis domI)
  have lanes: "lane_of lane (sv_busy sv') = [n] \<and> prefix (lane_of lane (sv_lanes sv)) (lane_of lane (sv_lanes sv'))"
    using assms(1)
  proof cases
    case (accept m sk)
    show ?thesis using assms(2) unfolding accept(1)
      by (cases rule: serve_accept_cases [of sk sv m]) (auto simp: stalled_def)
  next
    case (receive other)
    then show ?thesis using assms(2) single_worker [of lane]
      by (cases rule: worker_receive_Some) (auto simp: stalled_def)
  next
    case (admit other m)
    then show ?thesis using assms(2)
      by (cases rule: worker_admit_Some) (auto simp: stalled_def)
  next
    case (respond other m)
    then show ?thesis using assms(2)
      by (cases rule: worker_respond_Some) (auto simp: stalled_def)
  qed (use assms(2) in \<open>auto simp: stalled_def elim!: worker_dispatch_Some\<close>)
  with keeps assms(2) show ?thesis unfolding stalled_def by simp
qed

text \<open>Such a lane never moves again, whatever happens: its thread keeps the connection, and the connections that
  wait behind it wait for ever.\<close>

lemma unread_answer_stalls_lane:
  assumes "service_step\<^sup>*\<^sup>* sv sv'" and "stalled lane n d sv"
  shows "lane_of lane (sv_busy sv') = [n] \<and> prefix (lane_of lane (sv_lanes sv)) (lane_of lane (sv_lanes sv'))"
proof -
  have "stalled lane n d sv' \<and> prefix (lane_of lane (sv_lanes sv)) (lane_of lane (sv_lanes sv'))"
    using assms(1)
  proof (induction rule: rtranclp_induct)
    case base
    then show ?case using assms(2) by simp
  next
    case (step x y)
    then show ?case using stalled_step [OF step.hyps(2)] prefix_order.trans by blast
  qed
  then show ?thesis by (simp add: stalled_def)
qed

section \<open>The properties of the service\<close>

text \<open>A service with two connections: a terminal asks for a key and waits for its approval in the main lane; then the
  request to lock arrives and is put in the control lane.\<close>

definition demo_socket :: "string \<Rightarrow> socket" where
  "demo_socket line =
     \<lparr>sk_peek = PeekBytes (line @ [newline]),
      sk_incoming = \<lparr>in_set_timeout = None, in_peer_uid = Inr 7, in_sockopt = (0, 5), in_reads = [Inr (line @ [newline])]\<rparr>,
      sk_takes = TakesAll\<rparr>"

lemma demo_socket_ok: "socket_ok (demo_socket line)"
proof -
  have "in_reads (sk_incoming (demo_socket line)) = map Inr [line @ [newline]] @ []" "prefix (line @ [newline]) (concat [line @ [newline]])"
    by (simp_all add: demo_socket_def)
  moreover have "[] \<notin> set [line @ [newline]]" by simp
  moreover have "arrived = line @ [newline]" if "sk_peek (demo_socket line) = PeekBytes arrived" for arrived
    using that by (simp add: demo_socket_def)
  ultimately show ?thesis unfolding socket_ok_def by metis
qed

definition demo_service_start :: service where
  "demo_service_start =
     \<lparr>sv_euid = 7, sv_broker = demo_start, sv_lanes = no_lanes, sv_busy = no_lanes, sv_sockets = (\<lambda>_. None), sv_ended = []\<rparr>"

definition demo_service_script :: "service_event list" where
  "demo_service_script =
     [SvAccept 0 (demo_socket (''GET'' @ [tab] @ ''key=DB'' @ [tab] @ ''tty=/dev/pts/3'')), SvReceive MainLane, SvAdmit MainLane 0]
     @ replicate 3 (SvDispatch MainLane 0 (demo_world 2)) @ [SvAccept 1 (demo_socket ''LOCK'')]"

definition demo_service :: service where
  "demo_service = (case run_events demo_service_script demo_service_start of Some sv \<Rightarrow> sv | None \<Rightarrow> demo_service_start)"

lemma demo_service_initial: "service_initial demo_service_start"
  by (auto simp: service_initial_def serve_listener_start_def demo_service_start_def demo_start_def State_new_def random_instance_id_def
      intro!: exI [of _ "Inr ''boot''"] exI [of _ "Inr (replicate 16 1)"] exI [of _ "7"] exI [of _ demo_config])

lemma run_event_step: "run_event e sv = Some sv' \<Longrightarrow> (\<And>n sk. e = SvAccept n sk \<Longrightarrow> socket_ok sk) \<Longrightarrow> service_step sv sv'"
  by (cases e) (auto intro: service_step.intros split: if_splits simp del: broker_event.simps)

lemma run_events_steps:
  "run_events es sv = Some sv' \<Longrightarrow> (\<And>n sk. SvAccept n sk \<in> set es \<Longrightarrow> socket_ok sk) \<Longrightarrow> service_step\<^sup>*\<^sup>* sv sv'"
proof (induction es arbitrary: sv)
  case (Cons e es)
  then obtain sv1 where s: "run_event e sv = Some sv1" "run_events es sv1 = Some sv'" by (auto simp: bind_eq_Some_conv)
  then have "service_step sv sv1" using Cons.prems(2) by (intro run_event_step) auto
  moreover have "service_step\<^sup>*\<^sup>* sv1 sv'" using Cons.IH [OF s(2)] Cons.prems(2) by auto
  ultimately show ?case by (rule converse_rtranclp_into_rtranclp)
qed simp

lemma demo_service_reachable: "service_reachable demo_service"
proof -
  have "socket_ok sk" if "SvAccept n sk \<in> set demo_service_script" for n sk
    using that demo_socket_ok by (auto simp: demo_service_script_def)
  then have "service_step\<^sup>*\<^sup>* demo_service_start demo_service"
    using run_events_steps [of demo_service_script demo_service_start] by (auto simp: demo_service_def split: option.split)
  then show ?thesis unfolding service_reachable_def using demo_service_initial by blast
qed

lemma demo_service_lanes:
  "ln_control (sv_lanes demo_service) = [1]" "ln_main (sv_busy demo_service) = [0]" "ln_control (sv_busy demo_service) = []"
  "q_next_id (ss_queue (br_state (sv_broker demo_service))) = 2"
  by code_simp+

text \<open>C9: The threads refine the daemon, and serve only its own user. Every reachable service is a reachable daemon, so
  all that is proved of the daemon holds of it; and each of its handlers works for a connection that was accepted, whose
  peer has the daemon's own user id and was identified by the kernel, on exactly the request of the frame that was
  read from it.\<close>

theorem service_refines_daemon:
  assumes "service_reachable sv"
  shows "broker_reachable (sv_broker sv) \<and>
    (\<forall>n c. br_connections (sv_broker sv) n = Some c \<longrightarrow>
       (\<exists>sk frame. sv_sockets sv n = Some sk \<and> in_peer_uid (sk_incoming sk) = Inr (sv_euid sv)
          \<and> PeerIdentity_from_stream (in_sockopt (sk_incoming sk)) = Inr (cn_caller c)
          \<and> read_frame (in_reads (sk_incoming sk)) = Some (Inr frame) \<and> frame_request frame = Some (cn_request c)))"
proof (intro conjI allI impI)
  fix n c
  assume "br_connections (sv_broker sv) n = Some c"
  with service_reachable_ok [OF assms] obtain sk where "sv_sockets sv n = Some sk"
    "handle_admit (sv_euid sv) (sk_incoming sk) = Some (Inr (cn_caller c, PcStart (cn_request c)))"
    unfolding service_ok_def admitted_def by blast
  with handle_admit_start [OF this(2)] show "\<exists>sk frame. sv_sockets sv n = Some sk \<and> in_peer_uid (sk_incoming sk) = Inr (sv_euid sv)
      \<and> PeerIdentity_from_stream (in_sockopt (sk_incoming sk)) = Inr (cn_caller c)
      \<and> read_frame (in_reads (sk_incoming sk)) = Some (Inr frame) \<and> frame_request frame = Some (cn_request c)" by blast
qed (rule service_broker_reachable [OF assms])

theorem service_refines_daemon_witness:
  "broker_reachable (sv_broker demo_service) \<and>
   (\<exists>c sk. br_connections (sv_broker demo_service) 0 = Some c \<and> sv_sockets demo_service 0 = Some sk
      \<and> PeerIdentity_from_stream (in_sockopt (sk_incoming sk)) = Inr (cn_caller c))"
proof -
  have "\<not> Option.is_none (br_connections (sv_broker demo_service) 0)" by code_simp
  then obtain c where "br_connections (sv_broker demo_service) 0 = Some c" by (auto simp: Option.is_none_def)
  with service_refines_daemon [OF demo_service_reachable] show ?thesis by blast
qed

text \<open>C14: No connection is lost, and there are at most so many. Every connection that was accepted is in exactly one place,
  a channel, the hands of one thread or the list of those that are over, and nothing else is in those; the main lane
  holds at most 16 connections and the others at most 9 each.\<close>

theorem connections_conserved_and_bounded:
  assumes "service_reachable sv"
  shows "(\<forall>n. count (placed sv) n = (if sv_sockets sv n = None then 0 else 1))
    \<and> length (ln_main (sv_lanes sv) @ ln_main (sv_busy sv)) \<le> 16
    \<and> length (ln_fast (sv_lanes sv) @ ln_fast (sv_busy sv)) \<le> 9
    \<and> length (ln_control (sv_lanes sv) @ ln_control (sv_busy sv)) \<le> 9"
proof -
  have ok: "service_ok sv" using assms by (rule service_reachable_ok)
  then have b: "length (lane_of lane (sv_lanes sv)) + length (lane_of lane (sv_busy sv)) \<le> lane_depth lane + lane_workers lane" for lane
    by (simp add: service_ok_def lanes_bounded_def add_mono)
  from ok show ?thesis using b [of MainLane] b [of FastLane] b [of ControlLane]
    by (simp add: service_ok_def placed_once_def CONNECTION_QUEUE_DEPTH_def FAST_CONNECTION_QUEUE_DEPTH_def CONTROL_CONNECTION_QUEUE_DEPTH_def
        CONNECTION_WORKERS_def FAST_CONNECTION_WORKERS_def CONTROL_CONNECTION_WORKERS_def)
qed

theorem connections_conserved_and_bounded_witness:
  "count (placed demo_service) 1 = 1 \<and> length (ln_control (sv_lanes demo_service) @ ln_control (sv_busy demo_service)) \<le> 9"
proof -
  have "\<not> Option.is_none (sv_sockets demo_service 1)" by code_simp
  then have "sv_sockets demo_service 1 \<noteq> None" by (auto simp: Option.is_none_def)
  with connections_conserved_and_bounded [OF demo_service_reachable] show ?thesis by simp
qed

text \<open>C10: The lanes that never wait for a human drain, as long as their peers take their answers. Let no peer of a
  connection that the fast lane (or the control lane) has in hand keep a writer waiting: it takes the whole answer,
  or hangs up. Then the threads of that lane can by themselves finish with every connection they have, in at most
  four stretches each and whatever the world shows them: each is closed or gets the answer of its own
  request's handler, all of it or the part that it took before it hung up; and nothing of the other lanes is
  touched or waited for. So a denial or a lock is carried out while every thread of the main lane waits for a
  human. (The premise is needed: the daemon sets no write timeout, and \<open>unread_answer_stalls_lane\<close> shows what a
  peer does that neither reads nor hangs up.)\<close>

theorem fast_and_control_lanes_drain:
  assumes "service_reachable sv" and "lane \<noteq> MainLane" and "q_next_id (ss_queue (br_state (sv_broker sv))) < U64_MAX"
    and "\<forall>n \<in> held lane sv. \<forall>sk. sv_sockets sv n = Some sk \<longrightarrow> never_blocks sk"
  shows "\<exists>es sv'. lane_run lane w es sv sv'
    \<and> length es \<le> 4 * (length (lane_of lane (sv_lanes sv)) + length (lane_of lane (sv_busy sv)))
    \<and> held lane sv' = {} \<and> (\<forall>n \<in> held lane sv. answered n sv')
    \<and> (\<forall>other. other \<noteq> lane \<longrightarrow> lane_of other (sv_lanes sv') = lane_of other (sv_lanes sv)
         \<and> lane_of other (sv_busy sv') = lane_of other (sv_busy sv))"
proof -
  from lane_drains [OF service_reachable_ok [OF assms(1)] assms(2,3), of w] assms(4) [folded taken_def] obtain es sv' where
    "lane_run lane w es sv sv'" "length es \<le> 4 * (length (lane_of lane (sv_lanes sv)) + length (lane_of lane (sv_busy sv)))"
    "held lane sv' = {}" "\<forall>n \<in> held lane sv. answered n sv'" by blast
  with lane_run_others [OF this(1)] show ?thesis by (intro exI [of _ es] exI [of _ sv']) blast
qed

theorem fast_and_control_lanes_drain_witness:
  "\<exists>es sv'. lane_run ControlLane (demo_world 3) es demo_service sv' \<and> length es \<le> 4 \<and> answered 1 sv'
     \<and> ln_main (sv_busy sv') = [0]"
proof -
  have n: "q_next_id (ss_queue (br_state (sv_broker demo_service))) < U64_MAX" by (simp add: demo_service_lanes U64_MAX_def)
  have h: "1 \<in> held ControlLane demo_service" by (simp add: held_def demo_service_lanes)
  have m: "lane_of MainLane (sv_busy demo_service) = [0]" by (simp add: demo_service_lanes)
  have c: "ControlLane \<noteq> MainLane" by simp
  have "map_option sk_takes (sv_sockets demo_service 1) = Some TakesAll" by code_simp
  then have t: "\<forall>n \<in> held ControlLane demo_service. \<forall>sk. sv_sockets demo_service n = Some sk \<longrightarrow> never_blocks sk"
    by (auto simp: held_def demo_service_lanes never_blocks_def)
  from fast_and_control_lanes_drain [OF demo_service_reachable c n t, of "demo_world 3"] obtain es sv' where
    "lane_run ControlLane (demo_world 3) es demo_service sv'" "length es \<le> 4" "\<forall>n \<in> held ControlLane demo_service. answered n sv'"
    "lane_of MainLane (sv_busy sv') = [0]"
    by (auto simp: demo_service_lanes)
  with h show ?thesis by auto
qed

text \<open>C13: A lane is the lane of its request. A thread of the fast or of the control lane only ever works on a request that
  belongs to that lane, and it is the very one that was seen when the connection was accepted: the bytes that
  peeking showed then begin with a line that parses to it. Its handler has not started or is done: a handler
  that waits for an approval is always in the hands of a thread of the main lane.\<close>

theorem only_main_lane_waits:
  assumes "service_reachable sv" and "n \<in> set (lane_of lane (sv_busy sv))" and "br_connections (sv_broker sv) n = Some c"
  shows "(lane \<noteq> MainLane \<longrightarrow> request_lane (cn_request c) = lane
       \<and> (\<exists>sk line tail. sv_sockets sv n = Some sk \<and> sk_peek sk = PeekBytes (line @ newline # tail)
            \<and> newline \<notin> set line \<and> parse_request line = Inr (cn_request c))
       \<and> (cn_pc c = PcStart (cn_request c) \<or> (\<exists>d. cn_pc c = PcDone d)))
    \<and> (\<forall>p s key wa. cn_pc c = PcWait p s key wa \<longrightarrow> lane = MainLane)"
proof -
  have ok: "service_ok sv" using assms(1) by (rule service_reachable_ok)
  from ok assms(3) obtain sk where sk: "sv_sockets sv n = Some sk"
    "handle_admit (sv_euid sv) (sk_incoming sk) = Some (Inr (cn_caller c, PcStart (cn_request c)))"
    unfolding service_ok_def admitted_def by blast
  from ok assms(2) have "\<exists>sk. sv_sockets sv n = Some sk \<and> socket_ok sk \<and> chosen_lane (sk_peek sk) = lane"
    unfolding service_ok_def lanes_chosen_def held_def by blast
  with sk(1) have "socket_ok sk" "chosen_lane (sk_peek sk) = lane" by auto
  with chosen_lane_request sk(2) have r: "lane \<noteq> MainLane \<Longrightarrow> request_lane (cn_request c) = lane \<and> peeked_at sk (cn_request c)" by blast
  moreover from r sk(1) have "lane \<noteq> MainLane \<Longrightarrow> \<exists>sk line tail. sv_sockets sv n = Some sk \<and> sk_peek sk = PeekBytes (line @ newline # tail)
      \<and> newline \<notin> set line \<and> parse_request line = Inr (cn_request c)" unfolding peeked_at_def by blast
  moreover from ok assms(3) have "request_lane (cn_request c) \<noteq> MainLane \<Longrightarrow> cn_pc c = PcStart (cn_request c) \<or> (\<exists>d. cn_pc c = PcDone d)"
    unfolding service_ok_def admitted_def by blast
  ultimately show ?thesis by fastforce
qed

theorem only_main_lane_waits_witness:
  "\<exists>c p s key wa. br_connections (sv_broker demo_service) 0 = Some c \<and> cn_pc c = PcWait p s key wa
     \<and> (\<forall>lane. 0 \<in> set (lane_of lane (sv_busy demo_service)) \<longrightarrow> lane = MainLane)"
proof -
  have "(case br_connections (sv_broker demo_service) 0 of None \<Rightarrow> False
      | Some c \<Rightarrow> (case cn_pc c of PcWait p s key wa \<Rightarrow> True | _ \<Rightarrow> False))" by code_simp
  then obtain c p s key wa where c: "br_connections (sv_broker demo_service) 0 = Some c" "cn_pc c = PcWait p s key wa"
    by (auto split: option.splits handler_pc.splits)
  with only_main_lane_waits [OF demo_service_reachable _ c(1)] show ?thesis by blast
qed

end
