(* ===== verification/Progress.thy ===== *)
theory Progress
  imports Service
begin

text \<open>
  That requests come to an end (\<open>src/server/dispatch.rs\<close>, \<open>src/server/approval.rs\<close>, \<open>src/server/worker.rs\<close>). The
  handler of a connection moves through its stretches without ever going back, whatever the others do to the
  shared state between two of them; it stays where it is only while its request is undecided before the
  deadline, or while the source of random bytes is empty. And an approval that is not interfered with reaches
  the one who asked.
\<close>

section \<open>A handler never goes back\<close>

fun pc_rank :: "handler_pc \<Rightarrow> nat" where
  "pc_rank (PcStart _) = 6"
| "pc_rank (PcAuthorize _ _) = 5"
| "pc_rank (PcResolve _ _) = 4"
| "pc_rank (PcEnter _ _ _) = 3"
| "pc_rank (PcWait _ _ _ _) = 2"
| "pc_rank (PcRelease _ _ _ _) = 1"
| "pc_rank (PcMint _ _ _) = 1"
| "pc_rank (PcDone _) = 0"

text \<open>A turn that cannot move on: the request is undecided and the deadline is not over, or minting a receipt
  waits for random bytes.\<close>

fun stalls :: "world \<Rightarrow> server_state \<Rightarrow> handler_pc \<Rightarrow> bool" where
  "stalls w st (PcWait _ _ _ wa) \<longleftrightarrow>
     Queue_state_of (ss_queue st) (wa_id wa) \<in> {Some StPending, Some StDecrypting} \<and> wo_now w \<le> wa_deadline wa"
| "stalls w st (PcMint cap epoch d) \<longleftrightarrow> finish_authorization w cap epoch d st = None"
| "stalls w st _ \<longleftrightarrow> False"

lemma access_done_rank [simp]: "1 \<le> k \<Longrightarrow> pc_rank (access_done p d) \<le> k"
  by (cases p) simp_all

lemma approved_rank [simp]: "1 \<le> k \<Longrightarrow> pc_rank (approved p s key app) \<le> k"
  by (auto simp: approved_def split: approval.split)

lemma start_rank: "dispatch_start w caller request st = (st', pc') \<Longrightarrow> pc_rank pc' < 6"
  by (cases request)
     (auto simp: dispatch_start_def Let_def split: prod.splits sum.splits if_splits)

lemma poll_stalls:
  "poll_approval w wa st = (st', None) \<Longrightarrow>
     Queue_state_of (ss_queue st) (wa_id wa) \<in> {Some StPending, Some StDecrypting} \<and> wo_now w \<le> wa_deadline wa"
  by (auto simp: poll_approval_def Let_def checked_duration_since_def split: option.splits request_state.splits if_splits)

lemma handler_step_rank:
  assumes "handler_step w caller pc st = (st', pc')" and "\<not> stalls w st pc"
  shows "pc_rank pc' \<le> pc_rank pc - 1"
proof (cases pc)
  case (PcStart request)
  with assms(1) start_rank [of w caller request st st' pc'] show ?thesis by (simp add: handler_step_def)
next
  case (PcResolve p access)
  with assms(1) show ?thesis by (auto simp: handler_step_def split: prod.splits sum.splits)
next
  case (PcEnter p s key)
  with assms(1) show ?thesis by (auto simp: handler_step_def split: prod.splits sum.splits)
next
  case (PcWait p s key wa)
  with assms poll_stalls [of w wa st] show ?thesis
    by (auto simp: handler_step_def split: prod.splits option.splits)
qed (use assms in \<open>auto simp: handler_step_def split: option.splits\<close>)

lemma handler_step_stays:
  "handler_step w caller pc st = (st', pc') \<Longrightarrow> stalls w st pc \<Longrightarrow> pc_rank pc' \<le> pc_rank pc"
  by (cases pc) (auto simp: handler_step_def split: prod.splits option.splits)

section \<open>The turns of a handler in a run\<close>

text \<open>The world and the state of each turn a run gives to one connection, and where the turns lead.\<close>

fun turns_of :: "nat \<Rightarrow> event list \<Rightarrow> broker \<Rightarrow> (world \<times> server_state) list" where
  "turns_of n [] b = []"
| "turns_of n (e # es) b =
     (case broker_event e b of
        None \<Rightarrow> []
      | Some b' \<Rightarrow>
          (case e of EvHandle m w \<Rightarrow> if m = n then [(w, br_state b)] else [] | _ \<Rightarrow> []) @ turns_of n es b')"

fun handler_turns :: "peer_identity \<Rightarrow> (world \<times> server_state) list \<Rightarrow> handler_pc \<Rightarrow> handler_pc" where
  "handler_turns caller [] pc = pc"
| "handler_turns caller ((w, st) # turns) pc = handler_turns caller turns (snd (handler_step w caller pc st))"

fun stalled_turns :: "peer_identity \<Rightarrow> (world \<times> server_state) list \<Rightarrow> handler_pc \<Rightarrow> nat" where
  "stalled_turns caller [] pc = 0"
| "stalled_turns caller ((w, st) # turns) pc =
     (if stalls w st pc then 1 else 0) + stalled_turns caller turns (snd (handler_step w caller pc st))"

lemma turns_rank:
  "stalled_turns caller turns pc + pc_rank pc \<le> length turns \<Longrightarrow> pc_rank (handler_turns caller turns pc) = 0"
proof (induction caller turns pc rule: handler_turns.induct)
  case (2 caller w st turns pc)
  obtain st' pc' where h: "handler_step w caller pc st = (st', pc')" by fastforce
  have "stalled_turns caller turns pc' + pc_rank pc' \<le> length turns"
  proof (cases "stalls w st pc")
    case True
    with 2(2) h handler_step_stays [OF h] show ?thesis by simp
  next
    case False
    show ?thesis
    proof (cases "pc_rank pc = 0")
      case True
      then obtain d where "pc = PcDone d" by (cases pc) auto
      then have "pc' = PcDone d" using h by (simp add: handler_step_def)
      moreover have "stalled_turns caller xs (PcDone d) = 0" for xs by (induction xs) (auto simp: handler_step_def)
      ultimately show ?thesis by simp
    next
      case f: False
      with 2(2) h False handler_step_rank [OF h False] show ?thesis by simp
    qed
  qed
  with 2(1) h show ?case by simp
qed simp

lemma rank_done: "pc_rank pc = 0 \<longleftrightarrow> (\<exists>d. pc = PcDone d)"
  by (cases pc) simp_all

lemma run_turns:
  "broker_run es b = Some b' \<Longrightarrow> br_connections b n = Some c \<Longrightarrow>
     br_connections b' n = Some (c\<lparr>cn_pc := handler_turns (cn_caller c) (turns_of n es b) (cn_pc c)\<rparr>)"
proof (induction es arbitrary: b c)
  case (Cons e es)
  then obtain b1 where 1: "broker_event e b = Some b1" "broker_run es b1 = Some b'" by (auto simp: bind_eq_Some_conv)
  show ?case
  proof (cases "\<exists>w. e = EvHandle n w")
    case True
    then obtain w where w: "e = EvHandle n w" ..
    with 1(1) Cons.prems(2) have "br_connections b1 n = Some (c\<lparr>cn_pc := snd (handler_step w (cn_caller c) (cn_pc c) (br_state b))\<rparr>)"
      by (auto split: prod.splits if_splits)
    from Cons.IH [OF 1(2) this] 1(1) w show ?thesis by simp
  next
    case False
    with 1(1) Cons.prems(2) have "br_connections b1 n = Some c" by (cases e) (auto split: prod.splits option.splits if_splits)
    from Cons.IH [OF 1(2) this] 1(1) False show ?thesis by (cases e) auto
  qed
qed simp

text \<open>C12: Every request comes to an end. In any run of the daemon, however the other threads change the shared state between
  its turns, a handler that has had six turns more than it stalled in is done; and it stalls only while its request
  is neither decided nor past the deadline it was given when it entered the queue, or while minting a receipt
  waits for random bytes.\<close>

theorem handler_finishes:
  assumes "broker_run es b = Some b'" and "br_connections b n = Some c"
    and "stalled_turns (cn_caller c) (turns_of n es b) (cn_pc c) + 6 \<le> length (turns_of n es b)"
  shows "\<exists>d. br_connections b' n = Some (c\<lparr>cn_pc := PcDone d\<rparr>)"
proof -
  have "pc_rank (cn_pc c) \<le> 6" by (cases "cn_pc c") simp_all
  with assms(3) have "pc_rank (handler_turns (cn_caller c) (turns_of n es b) (cn_pc c)) = 0" by (intro turns_rank) simp
  then show ?thesis using run_turns [OF assms(1,2)] by (auto simp: rank_done)
qed

text \<open>A terminal asks for a key and nobody approves: past the deadline its handler is done.\<close>

definition demo_unanswered :: "event list" where
  "demo_unanswered = replicate 3 (EvHandle 0 (demo_world 2)) @ replicate 2 (EvHandle 0 (demo_world 9)) @ replicate 3 (EvHandle 0 (demo_world 500))"

definition demo_asked :: broker where
  "demo_asked = demo_final [EvAccept 0 \<lparr>pidfd = 5\<rparr> (Get ''DB'' None (Some ''/dev/pts/3''))]"

theorem handler_finishes_witness:
  "\<exists>b' c d. broker_run demo_unanswered demo_asked = Some b' \<and> br_connections b' 0 = Some c \<and> cn_pc c = PcDone d"
proof -
  let ?c = "\<lparr>cn_caller = \<lparr>pidfd = 5\<rparr>, cn_request = Get ''DB'' None (Some ''/dev/pts/3''), cn_pc = PcStart (Get ''DB'' None (Some ''/dev/pts/3''))\<rparr>"
  have "\<not> Option.is_none (broker_run demo_unanswered demo_asked)" by code_simp
  then obtain b' where r: "broker_run demo_unanswered demo_asked = Some b'" by (auto simp: Option.is_none_def)
  have c: "br_connections demo_asked 0 = Some ?c"
    by (simp add: demo_asked_def demo_final_def demo_start_def State_new_def random_instance_id_def)
  have "stalled_turns \<lparr>pidfd = 5\<rparr> (turns_of 0 demo_unanswered demo_asked) (PcStart (Get ''DB'' None (Some ''/dev/pts/3''))) = 2"
    "length (turns_of 0 demo_unanswered demo_asked) = 8" by code_simp+
  then have "stalled_turns (cn_caller ?c) (turns_of 0 demo_unanswered demo_asked) (cn_pc ?c) + 6 \<le> length (turns_of 0 demo_unanswered demo_asked)"
    by simp
  from handler_finishes [OF r c this] r show ?thesis by auto
qed

section \<open>An approval reaches the one who asked\<close>

lemma complete_succeeds:
  assumes "wf_queue (q, Some (i, g))" and "Queue_state_of q i = Some StDecrypting"
  shows "snd (Queue_complete i g now q)"
proof -
  from assms obtain r where "r \<in> set (q_requests q)" "pr_id r = i" "pr_state r = StDecrypting"
    by (auto simp: wf_queue_def Queue_state_of_def find_request_Some)
  with assms(1) show ?thesis by (auto simp: wf_queue_def flight_ok_def Queue_complete_def Let_def)
qed

lemma finish_succeeds:
  assumes "wf_queue (ss_queue st, Some (jb_id job, jb_generation job))" and "Queue_state_of (ss_queue st) (jb_id job) = Some StDecrypting"
    and "ss_lock_epoch st = jb_lock_epoch job" and "session_is_active w (jb_scope job) st"
  shows "Queue_state_of (ss_queue (worker_finish w job (Inr dec) st)) (jb_id job) = Some StGranted
    \<and> q_next_id (ss_queue (worker_finish w job (Inr dec) st)) = q_next_id (ss_queue st)
    \<and> ss_grants (worker_finish w job (Inr dec) st) = GrantTable_insert (jb_scope job) (jb_key job) (dh_value dec) (wo_now3 w)
          \<lparr>go_source = dh_source dec, go_identity = dh_identity dec\<rparr> (ss_grants st)"
proof -
  let ?r = "Queue_complete (jb_id job) (jb_generation job) (wo_now2 w) (ss_queue st)"
  have c: "snd ?r" by (rule complete_succeeds [OF assms(1,2)])
  have ids: "ids_ok (ss_queue st)" using assms(1) by (simp add: wf_queue_def)
  have "Queue_state_of (fst ?r) (jb_id job) = Some StGranted" using complete_grants [OF ids c] by blast
  moreover have "q_next_id (fst ?r) = q_next_id (ss_queue st)" by (simp add: Queue_complete_def Let_def)
  ultimately show ?thesis using c assms(3,4)
    by (cases ?r) (simp add: worker_finish_def Let_def)
qed

lemma lookup_inserted:
  "wf_grants t \<Longrightarrow> GrantTable_lookup (GrantTable_insert s k v created origin t) s k = Some (v, go_source origin, go_identity origin)"
  by (simp add: GrantTable_lookup_map GrantTable_insert_replace grants.look_replace grant_index_def)

lemma request_is_same:
  "Queue_state_of q i = Some x \<Longrightarrow> ids_ok q \<Longrightarrow> is_or_pruned q i s k \<Longrightarrow> is_or_pruned q i s' k' \<Longrightarrow> s' = s \<and> k' = k"
  by (auto simp: Queue_state_of_def is_or_pruned_def find_request_Some)

text \<open>C11: An approval reaches the one who asked. In a reachable daemon, let the worker hold the decrypted value of a request
  that is still being decrypted, with no lock since it was picked and its session still active. Then the worker's next
  stretch grants it, and every connection that waits for this request with a GET is done two turns of its
  handler later, whatever the clock then shows, and answers with exactly the decrypted value.\<close>

theorem approval_reaches_caller:
  assumes "broker_reachable b" and "br_worker b = WkDecrypted job (Inr dec)"
    and "br_connections b n = Some c" and "cn_pc c = PcWait ForValue s key wa" and "wa_id wa = jb_id job"
    and "Queue_state_of (ss_queue (br_state b)) (jb_id job) = Some StDecrypting"
    and "ss_lock_epoch (br_state b) = jb_lock_epoch job" and "session_is_active w (jb_scope job) (br_state b)"
    and "q_next_id (ss_queue (br_state b)) < U64_MAX"
  shows "\<exists>b' d. broker_run [EvWork w run, EvHandle n w1, EvHandle n w2] b = Some b'
    \<and> br_connections b' n = Some (c\<lparr>cn_pc := PcDone d\<rparr>) \<and> de_outcome d = OutBytes (dh_value dec)
    \<and> de_request_id d = Some (jb_id job) \<and> de_source d = Some (wa_source wa)"
proof -
  let ?st = "br_state b" and ?st' = "worker_finish w job (Inr dec) (br_state b)"
  have ok: "broker_ok b" using assms(1) by (rule reachable_ok)
  then have wf: "wf_queue (ss_queue ?st, Some (jb_id job, jb_generation job))" and t: "tables_ok ?st"
    and j: "is_or_pruned (ss_queue ?st) (jb_id job) (jb_scope job) (jb_key job)"
    using assms(2) by (auto simp: broker_ok_def Let_def queue_job_def)
  have "is_or_pruned (ss_queue ?st) (wa_id wa) s key" using ok assms(3,4) by (fastforce simp: broker_ok_def Let_def)
  then have same: "jb_scope job = s" "jb_key job = key"
    using request_is_same [OF assms(6) _ _ j] wf assms(5) by (auto simp: wf_queue_def)
  note f = finish_succeeds [OF wf assms(6-8), of dec]
  have look: "GrantTable_lookup (ss_grants ?st') s key = Some (dh_value dec, dh_source dec, dh_identity dec)"
    using f lookup_inserted t same by (simp add: tables_ok_def)
  have poll: "poll_approval w1 wa ?st' = (?st', Some (ApprovalGranted (Some (wa_source wa)) (Some (wa_id wa))))"
    using f assms(5) by (simp add: poll_approval_def)
  have h1: "handler_step w1 (cn_caller c) (cn_pc c) ?st' = (?st', PcRelease s key (Some (wa_source wa)) (Some (wa_id wa)))"
    using poll assms(4) by (simp add: handler_step_def approved_def wants_value_def)
  have h2: "handler_step w2 caller (PcRelease s key src i) ?st' = (?st', PcDone (release_value s key src i ?st'))" for caller src i
    by (simp add: handler_step_def)
  have v: "de_outcome (release_value s key src i ?st') = OutBytes (dh_value dec)" "de_request_id (release_value s key src i ?st') = i"
    "de_source (release_value s key src i ?st') = src" for src i
    using look by (simp_all add: release_value_def)
  have "worker_step w run (br_worker b) ?st = (?st', WkIdle)" using assms(2) by (simp add: worker_step_def)
  moreover have "q_next_id (ss_queue ?st') < U64_MAX" using f assms(9) by simp
  ultimately have "broker_run [EvWork w run, EvHandle n w1, EvHandle n w2] b = Some (b\<lparr>br_state := ?st', br_worker := WkIdle,
      br_connections := (br_connections b)(n \<mapsto> c\<lparr>cn_pc := PcDone (release_value s key (Some (wa_source wa)) (Some (wa_id wa)) ?st')\<rparr>)\<rparr>)"
    using assms(3) h1 h2 by simp
  with v assms(5) show ?thesis
    by (intro exI [of _ "release_value s key (Some (wa_source wa)) (Some (wa_id wa)) ?st'"] exI conjI) auto
qed

definition demo_ready :: "broker \<Rightarrow> bool" where
  "demo_ready b \<longleftrightarrow>
     q_next_id (ss_queue (br_state b)) < U64_MAX \<and>
     (case (br_worker b, map_option cn_pc (br_connections b 1)) of
        (WkDecrypted job (Inr dec), Some (PcWait ForValue s key wa)) \<Rightarrow>
          wa_id wa = jb_id job \<and> dh_value dec = ''hunter2'' \<and> Queue_state_of (ss_queue (br_state b)) (jb_id job) = Some StDecrypting
          \<and> ss_lock_epoch (br_state b) = jb_lock_epoch job \<and> session_is_active (demo_world 20) (jb_scope job) (br_state b)
      | _ \<Rightarrow> False)"

lemma demo_readyE:
  assumes "demo_ready b"
  obtains job dec c s key wa where "q_next_id (ss_queue (br_state b)) < U64_MAX"
    "br_worker b = WkDecrypted job (Inr dec)" "br_connections b 1 = Some c" "cn_pc c = PcWait ForValue s key wa"
    "wa_id wa = jb_id job" "Queue_state_of (ss_queue (br_state b)) (jb_id job) = Some StDecrypting"
    "ss_lock_epoch (br_state b) = jb_lock_epoch job" "session_is_active (demo_world 20) (jb_scope job) (br_state b)"
    "dh_value dec = ''hunter2''"
proof -
  obtain job r where j: "br_worker b = WkDecrypted job r" using assms by (cases "br_worker b") (simp_all add: demo_ready_def)
  obtain dec where r: "r = Inr dec" using assms j by (cases r) (simp_all add: demo_ready_def)
  obtain c where c: "br_connections b 1 = Some c" using assms j r by (cases "br_connections b 1") (simp_all add: demo_ready_def)
  obtain p s key wa where w: "cn_pc c = PcWait p s key wa" using assms j r c by (cases "cn_pc c") (simp_all add: demo_ready_def)
  have "p = ForValue" using assms j r c w by (cases p) (simp_all add: demo_ready_def)
  with assms j r c w that show thesis by (simp add: demo_ready_def)
qed

theorem approval_reaches_caller_witness:
  "\<exists>b' c. broker_run [demo_work 20 ''DB=hunter2'', EvHandle 1 (demo_world 21), EvHandle 1 (demo_world 22)] (demo_final demo_decrypted) = Some b'
     \<and> br_connections b' 1 = Some c \<and> (\<exists>d. cn_pc c = PcDone d \<and> de_outcome d = OutBytes ''hunter2'')"
proof -
  let ?b = "demo_final demo_decrypted"
  have "(case broker_run demo_decrypted demo_start of None \<Rightarrow> False | Some b \<Rightarrow> demo_ready b)" by code_simp
  then have "demo_ready ?b" by (simp add: demo_final_def split: option.splits)
  then obtain job dec c s key wa where n: "q_next_id (ss_queue (br_state ?b)) < U64_MAX" and
    d: "br_worker ?b = WkDecrypted job (Inr dec)" "br_connections ?b 1 = Some c"
      "cn_pc c = PcWait ForValue s key wa" "wa_id wa = jb_id job" "Queue_state_of (ss_queue (br_state ?b)) (jb_id job) = Some StDecrypting"
      "ss_lock_epoch (br_state ?b) = jb_lock_epoch job" "session_is_active (demo_world 20) (jb_scope job) (br_state ?b)"
      "dh_value dec = ''hunter2''"
    by (rule demo_readyE)
  from approval_reaches_caller [OF demo_reachable d(1-7) n, of "demo_sops ''DB=hunter2''" "demo_world 21" "demo_world 22"] d(8)
  show ?thesis unfolding demo_work_def by (auto simp del: broker_run.simps)
qed

end
