(* ===== verification/Hardening.thy ===== *)
theory Hardening
  imports Config
begin

text \<open>
  Process hardening (\<open>src/hardening.rs\<close>) and the start of the daemon (\<open>src/lib.rs\<close>). What the system calls
  answer is an argument, and each definition also returns the calls it made, in order, so that what had
  happened before the daemon served can be stated.
\<close>

section \<open>Hardening steps\<close>

definition RLIM_INFINITY :: nat where "RLIM_INFINITY = 2 ^ 64 - 1"
definition MIN_MEMLOCK_BYTES :: nat where "MIN_MEMLOCK_BYTES = 512 * 1024 * 1024"

datatype memlock_policy_kind = Require | Optional

datatype hardening_error =
    MemlockLimit string
  | InsufficientMemlock nat nat
  | Memlock string
  | Dumpable string
  | CoreLimit string

fun HardeningError_fmt :: "hardening_error \<Rightarrow> string" where
  "HardeningError_fmt (MemlockLimit error) = ''getrlimit(RLIMIT_MEMLOCK) failed: '' @ error"
| "HardeningError_fmt (InsufficientMemlock soft hard) =
     ''RLIMIT_MEMLOCK is insufficient for mlockall(MCL_CURRENT|MCL_FUTURE) (soft='' @ nat_to_string soft
     @ '' bytes, hard='' @ nat_to_string hard @ '' bytes); configure LimitMEMLOCK=infinity or at least ''
     @ nat_to_string MIN_MEMLOCK_BYTES
     @ '' bytes, or use SECRETSD_MEMLOCK=optional only for local development''"
| "HardeningError_fmt (Memlock error) = ''mlockall failed: '' @ error"
| "HardeningError_fmt (Dumpable error) = ''set_dumpable failed: '' @ error"
| "HardeningError_fmt (CoreLimit error) = ''RLIMIT_CORE could not be zeroed: '' @ error"

definition validate_memlock_limits :: "nat \<Rightarrow> nat \<Rightarrow> hardening_error + unit" where
  "validate_memlock_limits soft hard =
     (if (soft = RLIM_INFINITY \<or> soft \<ge> MIN_MEMLOCK_BYTES) \<and> (hard = RLIM_INFINITY \<or> hard \<ge> MIN_MEMLOCK_BYTES)
      then Inr () else Inl (InsufficientMemlock soft hard))"

datatype syscall = SetDumpable | SetCoreLimit | GetMemlockLimit | Mlockall

record system =
  sy_set_dumpable :: "string + unit"
  sy_setrlimit_core :: "string + unit"
  sy_getrlimit_memlock :: "string + nat \<times> nat"
  sy_mlockall :: "string + unit"

definition validate_memlock_limit :: "system \<Rightarrow> hardening_error + unit" where
  "validate_memlock_limit sys =
     and_then (map_err MemlockLimit (sy_getrlimit_memlock sys)) (\<lambda>(soft, hard). validate_memlock_limits soft hard)"

definition apply_no_core_dumps :: "system \<Rightarrow> syscall list \<times> (hardening_error + unit)" where
  "apply_no_core_dumps sys =
     (case sy_set_dumpable sys of
        Inl error \<Rightarrow> ([SetDumpable], Inl (Dumpable error))
      | Inr () \<Rightarrow>
          (case sy_setrlimit_core sys of
             Inl error \<Rightarrow> ([SetDumpable, SetCoreLimit], Inl (CoreLimit error))
           | Inr () \<Rightarrow> ([SetDumpable, SetCoreLimit], Inr ())))"

definition hardening_apply :: "memlock_policy_kind \<Rightarrow> system \<Rightarrow> syscall list \<times> (hardening_error + unit)" where
  "hardening_apply policy sys =
     (case apply_no_core_dumps sys of
        (calls, Inl error) \<Rightarrow> (calls, Inl error)
      | (calls, Inr ()) \<Rightarrow>
          (case validate_memlock_limit sys of
             Inl error \<Rightarrow>
               (calls @ [GetMemlockLimit], (case policy of Require \<Rightarrow> Inl error | Optional \<Rightarrow> Inr ()))
           | Inr () \<Rightarrow>
               (calls @ [GetMemlockLimit, Mlockall],
                (case sy_mlockall sys of
                   Inr () \<Rightarrow> Inr ()
                 | Inl error \<Rightarrow> (case policy of Require \<Rightarrow> Inl (Memlock error) | Optional \<Rightarrow> Inr ())))))"

section \<open>Starting the daemon\<close>

definition memlock_policy :: "environment \<Rightarrow> string + memlock_policy_kind" where
  "memlock_policy env =
     (case env ''SECRETSD_MEMLOCK'' of
        None \<Rightarrow> Inr Require
      | Some raw \<Rightarrow>
          (case from_utf8 raw of
             None \<Rightarrow> Inl ''SECRETSD_MEMLOCK must be require (default) or optional''
           | Some v \<Rightarrow>
               if v = ''require'' then Inr Require
               else if v = ''optional'' then Inr Optional
               else Inl ''SECRETSD_MEMLOCK must be require (default) or optional''))"

text \<open>\<open>run\<close>: the configuration that \<open>server::serve\<close> is called with, if it is called.\<close>

definition secretsd_run :: "config \<Rightarrow> string + config" where
  "secretsd_run c = and_then (Config_validate c) (\<lambda>_. Inr c)"

text \<open>\<open>serve_main\<close> up to that call: the system calls made, and the configuration served or the reason for
  the failure exit.\<close>

definition serve_main ::
  "environment \<Rightarrow> config_files \<Rightarrow> toml_reader \<Rightarrow> nat \<Rightarrow> system \<Rightarrow> syscall list \<times> (string + config)" where
  "serve_main env files toml uid sys =
     (case memlock_policy env of
        Inl error \<Rightarrow> ([], Inl error)
      | Inr policy \<Rightarrow>
          (case hardening_apply policy sys of
             (calls, Inl error) \<Rightarrow> (calls, Inl (HardeningError_fmt error))
           | (calls, Inr ()) \<Rightarrow> (calls, and_then (Config_from_env env files toml uid) secretsd_run)))"

section \<open>What holds before the daemon serves\<close>

lemma hardening_apply_ok:
  assumes "hardening_apply policy sys = (calls, Inr ())"
  shows "sy_set_dumpable sys = Inr () \<and> sy_setrlimit_core sys = Inr () \<and> take 2 calls = [SetDumpable, SetCoreLimit]
     \<and> (policy = Require \<longrightarrow> sy_mlockall sys = Inr () \<and> Mlockall \<in> set calls
          \<and> (\<exists>soft hard. sy_getrlimit_memlock sys = Inr (soft, hard)
               \<and> min soft hard \<ge> MIN_MEMLOCK_BYTES))"
  using assms
  by (auto simp: hardening_apply_def apply_no_core_dumps_def validate_memlock_limit_def validate_memlock_limits_def
      and_then_Inr MIN_MEMLOCK_BYTES_def RLIM_INFINITY_def map_err_def
      split: sum.splits memlock_policy_kind.splits if_splits prod.splits unit.splits)

text \<open>C37: The daemon serves hardened or not at all. If \<open>serve_main\<close> reaches the server, core dumps were
  disabled first, in both ways and before anything else; unless the environment asks for optional memory
  locking, all memory was locked, under limits of at least 512 MiB; the roots were loaded; and the
  configuration passed validation, so with the default touch policy the cooldown exceeds 15 seconds.\<close>

theorem serves_only_hardened:
  assumes "serve_main env files toml uid sys = (calls, Inr c)"
  shows "sy_set_dumpable sys = Inr () \<and> sy_setrlimit_core sys = Inr () \<and> take 2 calls = [SetDumpable, SetCoreLimit]
     \<and> (env ''SECRETSD_MEMLOCK'' = Some ''optional'' \<or>
          sy_mlockall sys = Inr () \<and> Mlockall \<in> set calls
          \<and> (\<exists>soft hard. sy_getrlimit_memlock sys = Inr (soft, hard) \<and> min soft hard \<ge> MIN_MEMLOCK_BYTES))
     \<and> Config_from_env env files toml uid = Inr c
     \<and> (cfg_touch_policy c = Always \<or> from_secs 15 < cfg_cooldown c)"
proof -
  obtain policy where p: "memlock_policy env = Inr policy" "hardening_apply policy sys = (calls, Inr ())"
      "Config_from_env env files toml uid = Inr c" "Config_validate c = Inr ()"
    using assms
    by (auto simp: serve_main_def secretsd_run_def and_then_Inr split: sum.splits prod.splits unit.splits)
  have "policy = Require \<or> env ''SECRETSD_MEMLOCK'' = Some ''optional''"
    using p(1) by (cases policy) (auto simp: memlock_policy_def dest: from_utf8_Some split: option.splits if_splits)
  then show ?thesis
    using hardening_apply_ok [OF p(2)] p(3) validate_Inr [of c] p(4) by blast
qed

theorem serves_only_hardened_witness:
  "\<exists>c. take 2 (fst (serve_main example_env example_files example_toml 7
         \<lparr>sy_set_dumpable = Inr (), sy_setrlimit_core = Inr (), sy_getrlimit_memlock = Inr (2 ^ 64 - 1, 2 ^ 64 - 1),
          sy_mlockall = Inr ()\<rparr>)) = [SetDumpable, SetCoreLimit]
     \<and> Config_from_env example_env example_files example_toml 7 = Inr c"
proof -
  let ?sys = "\<lparr>sy_set_dumpable = Inr (), sy_setrlimit_core = Inr (),
      sy_getrlimit_memlock = Inr (2 ^ 64 - 1, 2 ^ 64 - 1), sy_mlockall = Inr ()\<rparr>"
  have "\<not> isl (snd (serve_main example_env example_files example_toml 7 ?sys))" by code_simp
  then obtain c where "serve_main example_env example_files example_toml 7 ?sys =
      (fst (serve_main example_env example_files example_toml 7 ?sys), Inr c)"
    by (metis isl_def prod.collapse sum.exhaust)
  from serves_only_hardened [OF this] show ?thesis by blast
qed

end
