(* ===== verification/ClientWire.thy ===== *)
theory ClientWire
  imports Dispatch
begin

text \<open>
  The client's side of the socket (\<open>src/client.rs\<close>, \<open>src/client/response.rs\<close> and the scoped requests of
  \<open>src/client/human.rs\<close>): what is sent, how the answer is read from the stream and decoded, the version
  handshake. The connection's behaviour (failures, the pieces in which bytes arrive) is an argument. The
  lemmas show that reading a stream agrees with decoding the whole answer, and that the client and the
  daemon understand each other: each reads what the other writes.
\<close>

section \<open>Failures\<close>

text \<open>An \<open>io::Error\<close>: its kind, with those that matter by name, and its text.\<close>

datatype fail_kind = KindWouldBlock | KindTimedOut | KindInterrupted | KindUnexpectedEof | KindOther string

datatype io_failure = IoFailure (fail_kind_of: fail_kind) (fail_text: string)

datatype client_error =
    CeIo io_failure
  | CeApprovalTimeout
  | CeInvalidRequest
  | CeInvalidResponse
  | CeVersionHandshake
  | CeBroker err_code
  | CeTokenFile

text \<open>\<open>PartialEq\<close> of \<open>ClientError\<close> compares input/output errors by their kind only.\<close>

fun ClientError_eq :: "client_error \<Rightarrow> client_error \<Rightarrow> bool" where
  "ClientError_eq (CeIo a) (CeIo b) = (fail_kind_of a = fail_kind_of b)"
| "ClientError_eq (CeBroker a) (CeBroker b) = (a = b)"
| "ClientError_eq CeApprovalTimeout CeApprovalTimeout = True"
| "ClientError_eq CeInvalidRequest CeInvalidRequest = True"
| "ClientError_eq CeInvalidResponse CeInvalidResponse = True"
| "ClientError_eq CeVersionHandshake CeVersionHandshake = True"
| "ClientError_eq CeTokenFile CeTokenFile = True"
| "ClientError_eq _ _ = False"

section \<open>Decoding an answer\<close>

datatype broker_response = BrOk | BrFields string | BrBytes string

fun BrokerResponse_fmt :: "broker_response \<Rightarrow> string \<times> debug_value list" where
  "BrokerResponse_fmt BrOk = (''Ok'', [])"
| "BrokerResponse_fmt (BrFields _) = (''Fields(<redacted>)'', [])"
| "BrokerResponse_fmt (BrBytes bytes) = (''Bytes'', [DebugNat (length bytes)])"

datatype header = HeaderOk | HeaderFields string | HeaderBytes nat | HeaderError err_code

definition header_byte :: "char \<Rightarrow> bool" where
  "header_byte c \<longleftrightarrow> is_ascii_graphic c \<or> c = CHR '' '' \<or> c = tab"

text \<open>\<open>usize\<close> is 64 bits wide.\<close>

definition parse_header :: "string \<Rightarrow> client_error + header" where
  "parse_header header =
     (if header = [] \<or> \<not> list_all header_byte header then Inl CeInvalidResponse
      else and_then (ok_or CeInvalidResponse (from_utf8 header)) (\<lambda>text.
        if text = ''OK'' then Inr HeaderOk
        else case strip_prefix (''OK'' @ [tab] @ ''len='') text of
            Some len \<Rightarrow>
              if len = [] \<or> \<not> list_all is_ascii_digit len then Inl CeInvalidResponse
              else and_then (ok_or CeInvalidResponse (parse_unsigned 10 U64_MAX len)) (\<lambda>n. Inr (HeaderBytes n))
          | None \<Rightarrow>
              (case strip_prefix (''OK'' @ [tab]) text of
                 Some fs \<Rightarrow> Inr (HeaderFields fs)
               | None \<Rightarrow>
                   (case strip_prefix (''ERR'' @ [tab]) text of
                      Some err \<Rightarrow>
                        (case split_once tab err of
                           None \<Rightarrow> Inl CeInvalidResponse
                         | Some (code, _) \<Rightarrow>
                             and_then (ok_or CeInvalidResponse (ErrCode_parse_wire code)) (\<lambda>c. Inr (HeaderError c)))
                    | None \<Rightarrow> Inl CeInvalidResponse))))"

fun finish_header :: "header \<Rightarrow> client_error + broker_response" where
  "finish_header HeaderOk = Inr BrOk"
| "finish_header (HeaderFields fs) = Inr (BrFields fs)"
| "finish_header (HeaderBytes _) = Inl CeInvalidResponse"
| "finish_header (HeaderError code) = Inl (CeBroker code)"

text \<open>\<open>try_reserve_exact\<close> may refuse a length: \<open>reserves\<close>.\<close>

definition payload_from_slice :: "(nat \<Rightarrow> bool) \<Rightarrow> string \<Rightarrow> nat \<Rightarrow> client_error + broker_response" where
  "payload_from_slice reserves payload len =
     (if \<not> (length payload = len \<and> nul \<notin> set payload) then Inl CeInvalidResponse
      else if \<not> reserves len then Inl CeInvalidResponse
      else Inr (BrBytes payload))"

definition parse_response :: "(nat \<Rightarrow> bool) \<Rightarrow> string \<Rightarrow> client_error + broker_response" where
  "parse_response reserves response =
     (case split_once newline response of
        None \<Rightarrow> Inl CeInvalidResponse
      | Some (header, payload) \<Rightarrow>
          and_then (parse_header header) (\<lambda>h.
            case h of
              HeaderBytes len \<Rightarrow> payload_from_slice reserves payload len
            | _ \<Rightarrow> if payload = [] then finish_header h else Inl CeInvalidResponse))"

section \<open>Reading it from a stream\<close>

text \<open>A buffered reader: the bytes in its buffer and the reads to come. A read yields a piece, an empty one
  at the end of the stream, or fails. \<open>None\<close> is a reader that waits for a read that is not in the list.\<close>

type_synonym client_reads = "(io_failure + string) list"
type_synonym buf_reader = "string \<times> client_reads"

text \<open>\<open>take(limit).read_until\<close>, which tries an interrupted read again.\<close>

fun read_until :: "nat \<Rightarrow> string \<Rightarrow> string \<Rightarrow> client_reads \<Rightarrow> ((io_failure + string) \<times> buf_reader) option" where
  "read_until limit acc buf reads =
     (let available = take limit buf in
      case split_once newline available of
        Some (line, _) \<Rightarrow> Some (Inr (acc @ line @ [newline]), drop (length line + 1) buf, reads)
      | None \<Rightarrow>
          if limit \<le> length buf then Some (Inr (acc @ available), drop limit buf, reads)
          else case reads of
              [] \<Rightarrow> None
            | Inl err # rest \<Rightarrow>
                if fail_kind_of err = KindInterrupted then read_until (limit - length buf) (acc @ available) [] rest
                else Some (Inl err, [], rest)
            | Inr chunk # rest \<Rightarrow>
                if chunk = [] then Some (Inr (acc @ available), [], rest)
                else read_until (limit - length buf) (acc @ available) chunk rest)"

declare read_until.simps [simp del]

text \<open>\<open>read_exact\<close>, which tries an interrupted read again: \<open>None\<close> as the error is the end of the stream.\<close>

fun read_exact :: "nat \<Rightarrow> string \<Rightarrow> string \<Rightarrow> client_reads \<Rightarrow> ((io_failure option + string) \<times> buf_reader) option" where
  "read_exact n acc buf reads =
     (if n \<le> length buf then Some (Inr (acc @ take n buf), drop n buf, reads)
      else case reads of
          [] \<Rightarrow> None
        | Inl err # rest \<Rightarrow>
            if fail_kind_of err = KindInterrupted then read_exact (n - length buf) (acc @ buf) [] rest
            else Some (Inl (Some err), [], rest)
        | Inr chunk # rest \<Rightarrow>
            if chunk = [] then Some (Inl None, [], rest)
            else read_exact (n - length buf) (acc @ buf) chunk rest)"

declare read_exact.simps [simp del]

definition read_payload :: "(nat \<Rightarrow> bool) \<Rightarrow> nat \<Rightarrow> buf_reader \<Rightarrow> ((client_error + string) \<times> buf_reader) option" where
  "read_payload reserves len r =
     (if \<not> reserves len then Some (Inl CeInvalidResponse, r)
      else case read_exact len [] (fst r) (snd r) of
          None \<Rightarrow> None
        | Some (Inr payload, r') \<Rightarrow> Some (Inr payload, r')
        | Some (Inl None, r') \<Rightarrow> Some (Inl CeInvalidResponse, r')
        | Some (Inl (Some err), r') \<Rightarrow>
            Some (Inl (if fail_kind_of err = KindUnexpectedEof then CeInvalidResponse else CeIo err), r'))"

fun reject_trailing_bytes :: "buf_reader \<Rightarrow> (client_error + unit) option" where
  "reject_trailing_bytes (b # buf, reads) = Some (Inl CeInvalidResponse)"
| "reject_trailing_bytes ([], []) = None"
| "reject_trailing_bytes ([], Inl err # _) = Some (Inl (CeIo err))"
| "reject_trailing_bytes ([], Inr chunk # _) = Some (if chunk = [] then Inr () else Inl CeInvalidResponse)"

definition bytes_response :: "string \<Rightarrow> client_error + broker_response" where
  "bytes_response payload = (if nul \<in> set payload then Inl CeInvalidResponse else Inr (BrBytes payload))"

definition read_response :: "(nat \<Rightarrow> bool) \<Rightarrow> client_reads \<Rightarrow> (client_error + broker_response) option" where
  "read_response reserves reads =
     (case read_until (MAX_FRAME_BYTES + 1) [] [] reads of
        None \<Rightarrow> None
      | Some (Inl err, _) \<Rightarrow> Some (Inl (CeIo err))
      | Some (Inr raw_header, r) \<Rightarrow>
          (case strip_suffix [newline] raw_header of
             None \<Rightarrow> Some (Inl CeInvalidResponse)
           | Some header \<Rightarrow>
               if raw_header = [] then Some (Inl CeInvalidResponse)
               else case parse_header header of
                   Inl err \<Rightarrow> Some (Inl err)
                 | Inr (HeaderBytes len) \<Rightarrow>
                     (case read_payload reserves len r of
                        None \<Rightarrow> None
                      | Some (Inl err, _) \<Rightarrow> Some (Inl err)
                      | Some (Inr payload, r') \<Rightarrow>
                          map_option (\<lambda>t. and_then t (\<lambda>_. bytes_response payload)) (reject_trailing_bytes r'))
                 | Inr h \<Rightarrow> map_option (\<lambda>t. and_then t (\<lambda>_. finish_header h)) (reject_trailing_bytes r)))"

section \<open>Sending a request\<close>

definition GET_TIMEOUT :: duration where "GET_TIMEOUT = from_secs 100"
definition CONTROL_TIMEOUT :: duration where "CONTROL_TIMEOUT = from_secs 5"

definition request_is_valid :: "string \<Rightarrow> bool" where
  "request_is_valid request \<longleftrightarrow>
     request \<noteq> [] \<and> length request \<le> MAX_FRAME_BYTES \<and> list_all is_ascii request
     \<and> newline \<notin> set request \<and> carriage_return \<notin> set request \<and> nul \<notin> set request"

text \<open>A connection as one request sees it: connecting to a path, setting the timeouts and writing may fail; the
  reads depend on the bytes that were written.\<close>

record transport =
  tr_connect :: "string \<Rightarrow> io_failure option"
  tr_set_read_timeout :: "duration \<Rightarrow> io_failure option"
  tr_set_write_timeout :: "duration \<Rightarrow> io_failure option"
  tr_write :: "string \<Rightarrow> io_failure option"
  tr_reads :: "string \<Rightarrow> client_reads"

definition io_step :: "io_failure option \<Rightarrow> client_error + unit" where
  "io_step r = (case r of None \<Rightarrow> Inr () | Some err \<Rightarrow> Inl (CeIo err))"

text \<open>The bytes that reach the daemon.\<close>

definition write_request :: "transport \<Rightarrow> string \<Rightarrow> client_error + string" where
  "write_request tr request =
     (if \<not> request_is_valid request then Inl CeInvalidRequest
      else and_then (io_step (tr_write tr request)) (\<lambda>_.
           and_then (io_step (tr_write tr [newline])) (\<lambda>_. Inr (request @ [newline]))))"

definition waits_for_approval :: "string \<Rightarrow> bool" where
  "waits_for_approval request \<longleftrightarrow> prefix (''GET'' @ [tab]) request \<or> prefix (''REQUEST'' @ [tab]) request"

record broker_client =
  bc_socket_path :: string
  bc_get_timeout :: duration
  bc_control_timeout :: duration

definition BrokerClient_with_timeouts :: "string \<Rightarrow> duration \<Rightarrow> duration \<Rightarrow> broker_client" where
  "BrokerClient_with_timeouts socket_path get_timeout control_timeout =
     \<lparr>bc_socket_path = socket_path, bc_get_timeout = get_timeout, bc_control_timeout = control_timeout\<rparr>"

definition BrokerClient_new :: "string \<Rightarrow> broker_client" where
  "BrokerClient_new socket_path = BrokerClient_with_timeouts socket_path GET_TIMEOUT CONTROL_TIMEOUT"

definition BrokerClient_from_environment :: "environment \<Rightarrow> nat \<Rightarrow> broker_client" where
  "BrokerClient_from_environment env uid = BrokerClient_new (BrokerClient_socket env uid)"

definition approval_error :: "bool \<Rightarrow> client_error + broker_response \<Rightarrow> client_error + broker_response" where
  "approval_error waits r =
     (case r of
        Inl (CeIo err) \<Rightarrow>
          if waits \<and> fail_kind_of err \<in> {KindWouldBlock, KindTimedOut} then Inl CeApprovalTimeout else r
      | _ \<Rightarrow> r)"

definition BrokerClient_request ::
  "broker_client \<Rightarrow> (nat \<Rightarrow> bool) \<Rightarrow> transport \<Rightarrow> string \<Rightarrow> (client_error + broker_response) option" where
  "BrokerClient_request client reserves tr request =
     (let waits = waits_for_approval request;
          timeout = (if waits then bc_get_timeout client else bc_control_timeout client);
          sent = and_then (io_step (tr_connect tr (bc_socket_path client))) (\<lambda>_.
                 and_then (io_step (tr_set_read_timeout tr timeout)) (\<lambda>_.
                 and_then (io_step (tr_set_write_timeout tr timeout)) (\<lambda>_. write_request tr request)))
      in case sent of
           Inl err \<Rightarrow> Some (Inl err)
         | Inr bytes \<Rightarrow> map_option (approval_error waits) (read_response reserves (tr_reads tr bytes)))"

section \<open>The handshake\<close>

definition hello_request :: string where
  "hello_request = ''HELLO'' @ [tab] @ ''version='' @ nat_to_string PROTOCOL_VERSION"

definition hello_accepts :: "string \<Rightarrow> bool" where
  "hello_accepts fs \<longleftrightarrow>
     list_ex (\<lambda>f. strip_prefix ''version='' f = Some (nat_to_string PROTOCOL_VERSION)) (split_on CHR '' '' fs)"

definition hello_result :: "client_error + broker_response \<Rightarrow> client_error + unit" where
  "hello_result r =
     and_then r (\<lambda>response.
       case response of
         BrFields fs \<Rightarrow> if hello_accepts fs then Inr () else Inl CeVersionHandshake
       | _ \<Rightarrow> Inl CeVersionHandshake)"

definition BrokerClient_hello ::
  "broker_client \<Rightarrow> (nat \<Rightarrow> bool) \<Rightarrow> transport \<Rightarrow> (client_error + unit) option" where
  "BrokerClient_hello client reserves tr =
     map_option hello_result (BrokerClient_request client reserves tr hello_request)"

text \<open>Two connections: one for the handshake, one for the request.\<close>

definition BrokerClient_call ::
  "broker_client \<Rightarrow> (nat \<Rightarrow> bool) \<Rightarrow> transport \<Rightarrow> transport \<Rightarrow> string \<Rightarrow> (client_error + broker_response) option" where
  "BrokerClient_call client reserves tr_hello tr request =
     (case BrokerClient_hello client reserves tr_hello of
        None \<Rightarrow> None
      | Some (Inl err) \<Rightarrow> Some (Inl err)
      | Some (Inr _) \<Rightarrow> BrokerClient_request client reserves tr request)"

section \<open>A caller's scope\<close>

definition read_token_file :: "string option \<Rightarrow> client_error + string" where
  "read_token_file contents =
     (case contents of
        None \<Rightarrow> Inl CeTokenFile
      | Some bytes \<Rightarrow>
          (case from_utf8 bytes of
             None \<Rightarrow> Inl CeTokenFile
           | Some v \<Rightarrow> if v \<noteq> [] \<and> trim v = v then Inr v else Inl CeTokenFile))"

text \<open>Whether standard input is a terminal, and where \<open>/proc/self/fd/0\<close> points.\<close>

definition caller_tty :: "bool \<Rightarrow> string option \<Rightarrow> string option" where
  "caller_tty is_terminal link =
     (if \<not> is_terminal then None
      else Option.bind (Option.bind link from_utf8) (\<lambda>text. if prefix ''/dev/'' text then Some text else None))"

record human_client =
  hc_broker :: broker_client
  hc_token :: "string option"
  hc_tty :: "string option"

definition HumanClient_fmt :: "human_client \<Rightarrow> debug_value" where
  "HumanClient_fmt client =
     DebugStruct ''HumanClient''
       [(''broker'', DebugStruct ''BrokerClient''
           [(''socket_path'', DebugStr (bc_socket_path (hc_broker client))),
            (''get_timeout'', DebugNat (bc_get_timeout (hc_broker client))),
            (''control_timeout'', DebugNat (bc_control_timeout (hc_broker client)))]),
        (''has_token'', DebugBool (hc_token client \<noteq> None)),
        (''tty'', DebugOpt (hc_tty client))]"

definition HumanClient_new :: "broker_client \<Rightarrow> string option \<Rightarrow> string option \<Rightarrow> human_client" where
  "HumanClient_new broker token tty = \<lparr>hc_broker = broker, hc_token = token, hc_tty = tty\<rparr>"

definition HumanClient_from_environment ::
  "environment \<Rightarrow> nat \<Rightarrow> (string \<Rightarrow> string option) \<Rightarrow> bool \<Rightarrow> string option \<Rightarrow> client_error + human_client" where
  "HumanClient_from_environment env uid contents is_terminal link =
     and_then (case env ''SECRETSD_SESSION_TOKEN_FILE'' of
                 None \<Rightarrow> Inr None
               | Some path \<Rightarrow> and_then (read_token_file (contents path)) (\<lambda>t. Inr (Some t))) (\<lambda>token.
       Inr (HumanClient_new (BrokerClient_from_environment env uid) token (caller_tty is_terminal link)))"

definition scoped_frame :: "human_client \<Rightarrow> string \<Rightarrow> secret_name \<Rightarrow> string" where
  "scoped_frame client operation key =
     operation @ [tab] @ ''key='' @ as_str key
     @ (case hc_token client of None \<Rightarrow> [] | Some token \<Rightarrow> [tab] @ ''token='' @ token)
     @ (case hc_tty client of None \<Rightarrow> [] | Some tty \<Rightarrow> [tab] @ ''tty='' @ tty)"

text \<open>The results of the two operations, from what the call answered.\<close>

definition granted_result :: "client_error + broker_response \<Rightarrow> client_error + unit" where
  "granted_result r =
     and_then r (\<lambda>response. case response of BrBytes _ \<Rightarrow> Inl CeInvalidResponse | _ \<Rightarrow> Inr ())"

definition value_result :: "client_error + broker_response \<Rightarrow> client_error + secret_bytes" where
  "value_result r =
     and_then r (\<lambda>response. case response of BrBytes bytes \<Rightarrow> Inr bytes | _ \<Rightarrow> Inl CeInvalidResponse)"

definition HumanClient_request_grant ::
  "(nat \<Rightarrow> bool) \<Rightarrow> transport \<Rightarrow> transport \<Rightarrow> human_client \<Rightarrow> secret_name \<Rightarrow> (client_error + unit) option" where
  "HumanClient_request_grant reserves tr_hello tr client key =
     map_option granted_result (BrokerClient_call (hc_broker client) reserves tr_hello tr (scoped_frame client ''REQUEST'' key))"

definition HumanClient_get ::
  "(nat \<Rightarrow> bool) \<Rightarrow> transport \<Rightarrow> transport \<Rightarrow> human_client \<Rightarrow> secret_name \<Rightarrow> (client_error + secret_bytes) option" where
  "HumanClient_get reserves tr_hello tr client key =
     map_option value_result (BrokerClient_call (hc_broker client) reserves tr_hello tr (scoped_frame client ''GET'' key))"

section \<open>Reading in pieces\<close>

text \<open>A stream that holds exactly the given bytes, in the buffer and in nonempty pieces, and then ends.\<close>

definition stream_holds :: "buf_reader \<Rightarrow> string \<Rightarrow> bool" where
  "stream_holds r bytes \<longleftrightarrow>
     (\<exists>chunks rest. snd r = map Inr chunks @ Inr [] # rest \<and> [] \<notin> set chunks \<and> bytes = fst r @ concat chunks)"

lemma stream_holdsI:
  "[] \<notin> set chunks \<Longrightarrow> stream_holds (buf, map Inr chunks @ Inr [] # rest) (buf @ concat chunks)"
  by (auto simp: stream_holds_def)

lemma stream_holds_last: "stream_holds (buf, Inr [] # rest) buf"
  using stream_holdsI [of "[]" buf rest] by simp

lemma stream_holds_piece: "chunk \<noteq> [] \<Longrightarrow> stream_holds (chunk, reads) bytes \<Longrightarrow> stream_holds (buf, Inr chunk # reads) (buf @ bytes)"
proof -
  assume c: "chunk \<noteq> []" and h: "stream_holds (chunk, reads) bytes"
  then obtain chunks rest where "reads = map Inr chunks @ Inr [] # rest" "[] \<notin> set chunks" "bytes = chunk @ concat chunks"
    by (auto simp: stream_holds_def)
  with c stream_holdsI [of "chunk # chunks" buf rest] show ?thesis by simp
qed

text \<open>An induction over the pieces: the buffer is all there is, or it is followed by a next piece.\<close>

lemma stream_holds_induct [consumes 1, case_names last piece]:
  assumes "stream_holds (buf, reads) bytes"
    and last: "\<And>buf rest. P buf (Inr [] # rest) buf"
    and piece: "\<And>buf chunk reads bytes. chunk \<noteq> [] \<Longrightarrow> stream_holds (chunk, reads) bytes \<Longrightarrow> P chunk reads bytes \<Longrightarrow>
        P buf (Inr chunk # reads) (buf @ bytes)"
  shows "P buf reads bytes"
proof -
  have "P buf (map Inr chunks @ Inr [] # rest) (buf @ concat chunks)" if "[] \<notin> set chunks" for buf chunks rest
    using that
  proof (induction chunks arbitrary: buf)
    case (Cons c chunks)
    then show ?case
      using piece [of c "map Inr chunks @ Inr [] # rest" "c @ concat chunks" buf] stream_holdsI [of chunks c rest] by auto
  qed (simp add: last)
  with assms(1) show ?thesis by (auto simp: stream_holds_def)
qed

lemma split_once_take:
  "newline \<notin> set line \<Longrightarrow> length line < limit \<Longrightarrow> split_once newline (take limit (line @ newline # extra)) =
     Some (line, take (limit - Suc (length line)) extra)"
  by (auto simp: split_once_Some take_Cons' take_append)

lemma read_until_here:
  "newline \<notin> set line \<Longrightarrow> length line < limit \<Longrightarrow>
   read_until limit acc (line @ newline # extra) reads = Some (Inr (acc @ line @ [newline]), extra, reads)"
  using split_once_take [of line limit extra] by (subst read_until.simps) (simp add: Let_def del: take_append)

lemma read_until_line:
  assumes "stream_holds (buf, reads) (line @ newline # tail)" and "newline \<notin> set line" and "length line < limit"
  shows "\<exists>r. read_until limit acc buf reads = Some (Inr (acc @ line @ [newline]), r) \<and> stream_holds r tail"
proof -
  have "\<forall>limit acc line. bytes = line @ newline # tail \<longrightarrow> newline \<notin> set line \<longrightarrow> length line < limit \<longrightarrow>
      (\<exists>r. read_until limit acc buf reads = Some (Inr (acc @ line @ [newline]), r) \<and> stream_holds r tail)"
    if "stream_holds (buf, reads) bytes" for bytes
    using that
  proof (induction rule: stream_holds_induct)
    case (last buf rest)
    show ?case
      by (auto simp: read_until_here stream_holds_last)
  next
    case (piece buf chunk reads bytes)
    show ?case
    proof (intro allI impI)
      fix limit acc line
      assume h: "buf @ bytes = line @ newline # tail" "newline \<notin> set line" "length line < limit"
      show "\<exists>r. read_until limit acc buf (Inr chunk # reads) = Some (Inr (acc @ line @ [newline]), r) \<and> stream_holds r tail"
      proof (cases "length line < length buf")
        case True
        then obtain extra where b: "buf = line @ newline # extra" "tail = extra @ bytes"
          using h(1) by (auto simp: append_eq_append_conv2 append_eq_Cons_conv)
        moreover have "stream_holds (extra, Inr chunk # reads) tail"
          using stream_holds_piece [OF piece.hyps] b(2) by simp
        ultimately show ?thesis using h(2,3) by (auto simp: read_until_here)
      next
        case False
        then obtain extra where b: "line = buf @ extra" "bytes = extra @ newline # tail"
          using h(1) by (auto simp: append_eq_append_conv2 append_eq_Cons_conv)
        then have "split_once newline (take limit buf) = None" using h(2) by (auto simp: split_once_None dest: in_set_takeD)
        moreover have "newline \<notin> set extra" "length extra < limit - length buf" using b(1) h(2,3) by auto
        ultimately show ?thesis
          using piece.IH [rule_format, OF b(2), of "limit - length buf" "acc @ buf"] b(1) h piece.hyps(1)
          by (subst read_until.simps) (auto simp: Let_def)
      qed
    qed
  qed
  with assms show ?thesis by blast
qed

lemma read_until_no_line:
  assumes "stream_holds (buf, reads) bytes" and "newline \<notin> set (take limit bytes)"
  shows "\<exists>r. read_until limit acc buf reads = Some (Inr (acc @ take limit bytes), r)"
  using assms
proof (induction arbitrary: limit acc rule: stream_holds_induct)
  case (last buf rest)
  then show ?case by (auto simp: read_until.simps Let_def split_once_None [THEN iffD2])
next
  case (piece buf chunk reads bytes)
  then have "split_once newline (take limit buf) = None" by (simp add: split_once_None)
  with piece.prems piece.hyps(1) piece.IH [of "limit - length buf" "acc @ buf"] show ?case
    by (subst read_until.simps) (auto simp: Let_def)
qed

lemma read_exact_whole:
  assumes "stream_holds (buf, reads) bytes" and "n \<le> length bytes"
  shows "\<exists>r. read_exact n acc buf reads = Some (Inr (acc @ take n bytes), r) \<and> stream_holds r (drop n bytes)"
  using assms
proof (induction arbitrary: n acc rule: stream_holds_induct)
  case (last buf rest)
  then show ?case by (simp add: read_exact.simps stream_holds_last)
next
  case (piece buf chunk reads bytes)
  with stream_holds_piece [OF piece.hyps, of "drop n buf"] piece.IH [of "n - length buf" "acc @ buf"] show ?case
    by (subst read_exact.simps) auto
qed

lemma read_exact_short:
  assumes "stream_holds (buf, reads) bytes" and "length bytes < n"
  shows "\<exists>r. read_exact n acc buf reads = Some (Inl None, r)"
  using assms
proof (induction arbitrary: n acc rule: stream_holds_induct)
  case (piece buf chunk reads bytes)
  then show ?case by (subst read_exact.simps) auto
qed (simp add: read_exact.simps)

lemma reject_trailing_holds:
  "stream_holds r bytes \<Longrightarrow> reject_trailing_bytes r = Some (if bytes = [] then Inr () else Inl CeInvalidResponse)"
proof (cases r)
  case (Pair buf reads)
  assume "stream_holds r bytes"
  then show ?thesis unfolding Pair
  proof (induction rule: stream_holds_induct)
    case (last buf rest)
    show ?case by (cases buf) auto
  next
    case (piece buf chunk reads bytes)
    then have "bytes \<noteq> []" by (auto simp: stream_holds_def)
    with piece.hyps(1) show ?case by (cases buf) auto
  qed
qed

lemma read_payload_holds:
  assumes "stream_holds r bytes"
  shows "\<exists>res r'. read_payload reserves len r = Some (res, r') \<and>
     (if reserves len \<and> len \<le> length bytes then res = Inr (take len bytes) \<and> stream_holds r' (drop len bytes)
      else res = Inl CeInvalidResponse)"
  using assms read_exact_whole [of "fst r" "snd r" bytes len "[]"] read_exact_short [of "fst r" "snd r" bytes len "[]"]
  by (cases "len \<le> length bytes") (auto simp: read_payload_def)

lemma read_response_whole:
  assumes "[] \<notin> set chunks"
    and "case split_once newline (concat chunks) of None \<Rightarrow> True | Some (header, _) \<Rightarrow> length header \<le> MAX_FRAME_BYTES"
  shows "read_response reserves (map Inr chunks @ Inr [] # rest) = Some (parse_response reserves (concat chunks))"
proof -
  let ?s = "concat chunks" and ?reads = "map Inr chunks @ Inr [] # rest"
  have holds: "stream_holds ([], ?reads) ?s" using stream_holdsI [OF assms(1), of "[]"] by simp
  show ?thesis
  proof (cases "split_once newline ?s")
    case None
    then have "newline \<notin> set (take (MAX_FRAME_BYTES + 1) ?s)" by (auto simp: split_once_None dest: in_set_takeD)
    from read_until_no_line [OF holds this, of "[]"] this None show ?thesis
      by (auto simp: read_response_def parse_response_def strip_suffix_Some split: option.split)
  next
    case (Some lt)
    obtain header tail where lt: "lt = (header, tail)" by (cases lt)
    with Some have s: "?s = header @ newline # tail" "newline \<notin> set header" by (auto simp: split_once_Some)
    have len: "length header < MAX_FRAME_BYTES + 1" using assms(2) Some lt by simp
    from read_until_line [OF holds [unfolded s(1)] s(2) len, of "[]"] obtain r where
      r: "read_until (MAX_FRAME_BYTES + 1) [] [] ?reads = Some (Inr (header @ [newline]), r)" "stream_holds r tail"
      by auto
    show ?thesis
    proof (cases "parse_header header")
      case (Inl err)
      with r Some lt show ?thesis by (simp add: read_response_def parse_response_def)
    next
      case (Inr h)
      show ?thesis
      proof (cases "\<exists>len. h = HeaderBytes len")
        case True
        then obtain len where h: "h = HeaderBytes len" by blast
        from read_payload_holds [OF r(2), of reserves len] obtain res r' where
          p: "read_payload reserves len r = Some (res, r')"
            "if reserves len \<and> len \<le> length tail then res = Inr (take len tail) \<and> stream_holds r' (drop len tail)
             else res = Inl CeInvalidResponse" by blast
        with r(1) Some lt Inr h reject_trailing_holds [of r' "drop len tail"] show ?thesis
          by (cases "reserves len \<and> len \<le> length tail")
             (auto simp: read_response_def parse_response_def payload_from_slice_def bytes_response_def split: if_splits)
      next
        case False
        with r(1) Some lt Inr reject_trailing_holds [OF r(2)] show ?thesis
          by (cases h) (auto simp: read_response_def parse_response_def)
      qed
    qed
  qed
qed

text \<open>Reading an answer piece by piece is decoding it whole. If the bytes of an answer arrive in any
  nonempty pieces and then the stream ends, and its first line is no longer than a frame may be, the client's
  streaming reader returns exactly what the decoder of complete answers returns, for malformed, truncated and
  oversized answers as for good ones.\<close>

theorem read_response_decodes:
  assumes "[] \<notin> set chunks"
    and "case split_once newline (concat chunks) of None \<Rightarrow> True | Some (header, _) \<Rightarrow> length header \<le> MAX_FRAME_BYTES"
  shows "read_response reserves (map Inr chunks @ Inr [] # rest) = Some (parse_response reserves (concat chunks))"
  using assms by (rule read_response_whole)

theorem read_response_decodes_witness:
  "read_response (\<lambda>n. n \<le> 100) (map Inr [''OK'' @ [tab] @ ''le'', ''n=7'' @ [newline] @ ''hun'', ''ter2''] @ Inr [] # []) =
     Some (parse_response (\<lambda>n. n \<le> 100) (concat [''OK'' @ [tab] @ ''le'', ''n=7'' @ [newline] @ ''hun'', ''ter2'']))"
proof (rule read_response_decodes)
  show "[] \<notin> set [''OK'' @ [tab] @ ''le'', ''n=7'' @ [newline] @ ''hun'', ''ter2'']" by simp
  show "case split_once newline (concat [''OK'' @ [tab] @ ''le'', ''n=7'' @ [newline] @ ''hun'', ''ter2'']) of
      None \<Rightarrow> True | Some (header, _) \<Rightarrow> length header \<le> MAX_FRAME_BYTES" by code_simp
qed

section \<open>The client understands the daemon\<close>

text \<open>What the client should make of an outcome, and the outcomes whose text a header can carry: printable
  fields that do not look like a length, payloads without a NUL byte that fit into memory.\<close>

fun expected_reply :: "outcome \<Rightarrow> client_error + broker_response" where
  "expected_reply OutOk = Inr BrOk"
| "expected_reply (OutFields fs) = Inr (BrFields fs)"
| "expected_reply (OutPayload payload) = Inr (BrBytes payload)"
| "expected_reply (OutBytes v) = Inr (BrBytes v)"
| "expected_reply (OutReceipt receipt) = Inr (BrFields (''status=authorized receipt='' @ receipt))"
| "expected_reply (OutFailed code _) = Inl (CeBroker code)"

definition printable :: "string \<Rightarrow> bool" where
  "printable s \<longleftrightarrow> list_all (\<lambda>c. is_ascii_graphic c \<or> c = CHR '' '') s"

fun sendable :: "(nat \<Rightarrow> bool) \<Rightarrow> outcome \<Rightarrow> bool" where
  "sendable reserves OutOk = True"
| "sendable reserves (OutFields fs) = (printable fs \<and> \<not> prefix ''len='' fs)"
| "sendable reserves (OutPayload p) = (nul \<notin> set p \<and> length p \<le> U64_MAX \<and> reserves (length p))"
| "sendable reserves (OutBytes v) = (nul \<notin> set v \<and> length v \<le> U64_MAX \<and> reserves (length v))"
| "sendable reserves (OutReceipt receipt) = printable receipt"
| "sendable reserves (OutFailed _ message) = printable message"

lemma printable_simps [simp]:
  "printable []" "printable (c # s) \<longleftrightarrow> (is_ascii_graphic c \<or> c = CHR '' '') \<and> printable s"
  "printable (s @ t) \<longleftrightarrow> printable s \<and> printable t"
  by (simp_all add: printable_def)

lemma graphic_not_break: "is_ascii_graphic c \<Longrightarrow> c \<noteq> newline \<and> c \<noteq> carriage_return \<and> c \<noteq> tab"
  by (auto simp: is_ascii_graphic_def newline_def carriage_return_def tab_def byte_val_def)

lemma sanitize_printable: "printable s \<Longrightarrow> sanitize s = s"
  by (induction s) (auto simp: sanitize_def dest: graphic_not_break)

lemma printable_header: "printable s \<Longrightarrow> list_all header_byte s"
  by (auto simp: printable_def header_byte_def list_all_iff)

lemma printable_no_newline: "printable s \<Longrightarrow> newline \<notin> set s"
  by (induction s) (auto dest: graphic_not_break simp: newline_def)

lemma header_ascii: "list_all header_byte s \<Longrightarrow> from_utf8 s = Some s"
  by (rule from_utf8_ascii)
     (auto simp: list_all_iff header_byte_def is_ascii_graphic_def is_ascii_def byte_val_def tab_def)

lemma digits_header: "list_all is_ascii_digit s \<Longrightarrow> list_all header_byte s"
  by (auto simp: list_all_iff header_byte_def is_ascii_graphic_def is_ascii_digit_def)

lemma wire_header: "list_all header_byte (ErrCode_wire c) \<and> tab \<notin> set (ErrCode_wire c)"
  by (cases c) (simp_all add: header_byte_def is_ascii_graphic_def byte_val_def tab_def)

lemma header_byte_simps [simp]:
  "header_byte tab" "header_byte CHR ''O''" "header_byte CHR ''K''" "header_byte CHR ''E''" "header_byte CHR ''R''"
  "header_byte CHR ''l''" "header_byte CHR ''e''" "header_byte CHR ''n''" "header_byte CHR ''=''"
  by code_simp+

lemma parse_header_fields:
  "printable fs \<Longrightarrow> \<not> prefix ''len='' fs \<Longrightarrow> parse_header (''OK'' @ tab # fs) = Inr (HeaderFields fs)"
proof -
  assume p: "printable fs" and n: "\<not> prefix ''len='' fs"
  have "list_all header_byte (''OK'' @ tab # fs)" using printable_header [OF p] by simp
  moreover have "strip_prefix (''OK'' @ [tab] @ ''len='') (''OK'' @ tab # fs) = None"
    using n by (cases "strip_prefix (''OK'' @ [tab] @ ''len='') (''OK'' @ tab # fs)") (auto simp: strip_prefix_Some prefix_def)
  ultimately show ?thesis using header_ascii by (simp add: parse_header_def)
qed

lemma parse_header_len:
  "n \<le> U64_MAX \<Longrightarrow> parse_header (''OK'' @ tab # ''len='' @ nat_to_string n) = Inr (HeaderBytes n)"
proof -
  assume n: "n \<le> U64_MAX"
  have d: "list_all is_ascii_digit (nat_to_string n)" using nat_to_string_digits by (simp add: list_all_iff)
  then have "list_all header_byte (''OK'' @ tab # ''len='' @ nat_to_string n)" using digits_header by simp
  with n d show ?thesis using header_ascii by (simp add: parse_header_def parse_nat_to_string)
qed

lemma parse_header_err:
  "printable m \<Longrightarrow> parse_header (''ERR'' @ tab # ErrCode_wire c @ tab # m) = Inr (HeaderError c)"
proof -
  assume "printable m"
  then have "list_all header_byte (''ERR'' @ tab # ErrCode_wire c @ tab # m)"
    using printable_header wire_header by simp
  then show ?thesis using header_ascii wire_header by (simp add: parse_header_def ErrCode_parse_wire_wire)
qed

lemma decodes_outcome:
  assumes "sendable reserves out"
  shows "parse_response reserves (response_bytes out) = expected_reply out"
proof (cases out)
  case OutOk
  have "split_once newline (format_response RespOk) = Some (''OK'', [])" "parse_header ''OK'' = Inr HeaderOk" by code_simp+
  with OutOk show ?thesis by (simp add: response_bytes_def parse_response_def)
next
  case (OutFields fs)
  with assms show ?thesis
    using parse_header_fields [of fs] printable_no_newline [of fs] split_once_append [of newline "''OK'' @ tab # fs" "[]"]
    by (simp add: response_bytes_def sanitize_printable parse_response_def newline_def tab_def)
next
  case (OutReceipt receipt)
  let ?fs = "''status=authorized receipt='' @ receipt"
  have "printable ''status=authorized receipt=''" by code_simp
  then have "printable ?fs" "\<not> prefix ''len='' ?fs" using assms OutReceipt by simp_all
  then show ?thesis using OutReceipt
    parse_header_fields [of ?fs] printable_no_newline [of ?fs] split_once_append [of newline "''OK'' @ tab # ?fs" "[]"]
    by (simp add: response_bytes_def parse_response_def newline_def tab_def)
next
  case (OutFailed c m)
  with assms show ?thesis
    using parse_header_err [of m c] printable_no_newline [of m] wire_no_newline [of c]
      split_once_append [of newline "''ERR'' @ tab # ErrCode_wire c @ tab # m" "[]"]
    by (simp add: response_bytes_def sanitize_printable parse_response_def newline_def tab_def)
next
  case (OutPayload p)
  with assms show ?thesis
    using parse_header_len [of "length p"] nat_to_string_no_newline [of "length p"]
      split_once_append [of newline "''OK'' @ tab # ''len='' @ nat_to_string (length p)" p]
    by (simp add: response_bytes_def parse_response_def payload_from_slice_def newline_def tab_def)
next
  case (OutBytes v)
  with assms show ?thesis
    using parse_header_len [of "length v"] nat_to_string_no_newline [of "length v"]
      split_once_append [of newline "''OK'' @ tab # ''len='' @ nat_to_string (length v)" v]
    by (simp add: response_bytes_def parse_response_def payload_from_slice_def newline_def tab_def)
qed

text \<open>C27: Each side reads what the other writes, towards the client: the bytes the daemon writes for an
  outcome are decoded by the client to exactly that outcome, an error to its code, a value to the same bytes.
  The premise excludes only what no header can carry.\<close>

theorem client_decodes_outcome:
  assumes "sendable reserves out"
  shows "parse_response reserves (response_bytes out) = expected_reply out"
  using assms by (rule decodes_outcome)

theorem client_decodes_outcome_witness:
  "parse_response (\<lambda>n. n \<le> 4096) (response_bytes (OutBytes ''hunter2'')) = expected_reply (OutBytes ''hunter2'')
   \<and> parse_response (\<lambda>n. n \<le> 4096) (response_bytes (OutFailed Denied ''request refused'')) =
       expected_reply (OutFailed Denied ''request refused'')"
proof -
  have "sendable (\<lambda>n. n \<le> 4096) (OutBytes ''hunter2'')"
    "sendable (\<lambda>n. n \<le> 4096) (OutFailed Denied ''request refused'')" by code_simp+
  then show ?thesis using client_decodes_outcome by blast
qed

section \<open>A whole call\<close>

text \<open>A connection that works: nothing fails, the given bytes are answered by the given reply, in any nonempty
  pieces, and then the stream ends.\<close>

definition answers :: "transport \<Rightarrow> string \<Rightarrow> string \<Rightarrow> bool" where
  "answers tr bytes reply \<longleftrightarrow>
     (\<forall>p. tr_connect tr p = None) \<and> (\<forall>d. tr_set_read_timeout tr d = None) \<and> (\<forall>d. tr_set_write_timeout tr d = None) \<and> (\<forall>s. tr_write tr s = None)
     \<and> (\<exists>chunks rest. [] \<notin> set chunks \<and> concat chunks = reply \<and> tr_reads tr bytes = map Inr chunks @ Inr [] # rest)"

definition header_fits :: "outcome \<Rightarrow> bool" where
  "header_fits out \<longleftrightarrow>
     (case split_once newline (response_bytes out) of None \<Rightarrow> True | Some (h, _) \<Rightarrow> length h \<le> MAX_FRAME_BYTES)"

lemma header_fits_bytes: "length v \<le> U64_MAX \<Longrightarrow> header_fits (OutBytes v)"
proof -
  assume "length v \<le> U64_MAX"
  then have "length (nat_to_string (length v)) \<le> 20" by (intro length_nat_to_string_le) (simp_all add: U64_MAX_def)
  then show ?thesis
    using nat_to_string_no_newline [of "length v"]
      split_once_append [of newline "''OK'' @ tab # ''len='' @ nat_to_string (length v)" v]
    by (simp add: header_fits_def response_bytes_def newline_def tab_def MAX_FRAME_BYTES_def)
qed

lemma request_answered:
  assumes "request_is_valid request" and "answers tr (request @ [newline]) (response_bytes out)"
    and "sendable reserves out" and "header_fits out"
  shows "BrokerClient_request client reserves tr request = Some (expected_reply out)"
proof -
  from assms(2) obtain chunks rest where t: "\<And>p. tr_connect tr p = None" "\<And>d. tr_set_read_timeout tr d = None"
      "\<And>d. tr_set_write_timeout tr d = None" "\<And>s. tr_write tr s = None"
    and c: "[] \<notin> set chunks" "concat chunks = response_bytes out" "tr_reads tr (request @ [newline]) = map Inr chunks @ Inr [] # rest"
    by (auto simp: answers_def)
  have "read_response reserves (map Inr chunks @ Inr [] # rest) = Some (parse_response reserves (concat chunks))"
    using assms(4) c(1,2) read_response_whole [of chunks reserves rest] by (simp add: header_fits_def)
  then have "read_response reserves (tr_reads tr (request @ [newline])) = Some (expected_reply out)"
    using decodes_outcome [OF assms(3)] c by simp
  moreover have "approval_error w (expected_reply out) = expected_reply out" for w
    by (cases out) (simp_all add: approval_error_def)
  ultimately show ?thesis
    using assms(1) t by (simp add: BrokerClient_request_def io_step_def write_request_def Let_def)
qed

text \<open>The handshake, from the daemon's side and from the client's.\<close>

lemma hello_frame: "request_is_valid hello_request" "frame_request (hello_request @ [newline]) = Some (Hello PROTOCOL_VERSION)"
  by code_simp+

definition hello_outcome :: "server_state \<Rightarrow> outcome" where
  "hello_outcome st = de_outcome (snd (dispatch_hello PROTOCOL_VERSION st))"

lemma hello_outcome_fields:
  "hello_outcome st = OutFields (''version='' @ nat_to_string PROTOCOL_VERSION @ '' instance='' @ ss_instance st)"
  by (simp add: hello_outcome_def dispatch_hello_def plain_decision_def)

lemma hello_prefix: "''version='' @ nat_to_string PROTOCOL_VERSION @ '' instance='' = ''version=3 instance=''"
  by code_simp

lemma hex_printable: "printable (hex bytes)"
proof -
  have "is_ascii_graphic c" if "is_ascii_hexdigit c" for c
    using that by (auto simp: is_ascii_hexdigit_def to_digit_def Let_def is_ascii_graphic_def is_ascii_digit_def
        is_ascii_lowercase_def is_ascii_uppercase_def split: if_splits)
  with hex_hexdigits [of bytes] show ?thesis by (auto simp: printable_def list_all_iff)
qed

lemma split_on_hello: "\<exists>ps. split_on CHR '' '' (''version=3 instance='' @ i) = ''version=3'' # ps"
  using split_on_append_sep [of "CHR '' ''" "''version=3''" "''instance='' @ i"] by simp

lemma hello_accepted: "hello_accepts (''version=3 instance='' @ i)"
proof -
  have "strip_prefix ''version='' ''version=3'' = Some (nat_to_string PROTOCOL_VERSION)" by code_simp
  with split_on_hello [of i] show ?thesis by (auto simp: hello_accepts_def)
qed

lemma hello_answered:
  assumes "answers tr (hello_request @ [newline]) (response_bytes (hello_outcome st))"
    and "ss_instance st = hex bytes" and "length bytes \<le> 16"
  shows "BrokerClient_hello client reserves tr = Some (Inr ())"
proof -
  let ?fs = "''version=3 instance='' @ ss_instance st"
  have o: "hello_outcome st = OutFields ?fs" using hello_outcome_fields [of st] hello_prefix by (metis append_assoc)
  have "printable ''version=3 instance=''" by code_simp
  then have p: "printable ?fs" using hex_printable assms(2) by simp
  then have s: "sendable reserves (hello_outcome st)" using o by simp
  have "split_once newline (response_bytes (hello_outcome st)) = Some (''OK'' @ tab # ?fs, [])"
    using split_once_append [of newline "''OK'' @ tab # ?fs" "[]"] printable_no_newline [OF p] sanitize_printable [OF p] o
    by (simp add: response_bytes_def newline_def tab_def)
  then have "header_fits (hello_outcome st)"
    using assms(2,3) length_hex [of bytes] by (simp add: header_fits_def MAX_FRAME_BYTES_def)
  from request_answered [OF hello_frame(1) assms(1) s this] o hello_accepted show ?thesis
    by (simp add: BrokerClient_hello_def hello_result_def)
qed

text \<open>The frame of a scoped request, part by part. Nothing in the client keeps a tab out of a token or of the path of a
  terminal; one in them would end the field there.\<close>

definition scope_parts :: "human_client \<Rightarrow> string list" where
  "scope_parts client =
     (case hc_token client of None \<Rightarrow> [] | Some token \<Rightarrow> [''token='' @ token])
     @ (case hc_tty client of None \<Rightarrow> [] | Some tty \<Rightarrow> [''tty='' @ tty])"

definition scope_has_no_tab :: "human_client \<Rightarrow> bool" where
  "scope_has_no_tab client \<longleftrightarrow>
     (case hc_token client of None \<Rightarrow> True | Some token \<Rightarrow> tab \<notin> set token)
     \<and> (case hc_tty client of None \<Rightarrow> True | Some tty \<Rightarrow> tab \<notin> set tty)"

lemma scoped_frame_join:
  "scoped_frame client operation key = join_with tab (operation # (''key='' @ as_str key) # scope_parts client)"
  by (simp add: scoped_frame_def scope_parts_def split: option.split)

lemma part_pair_append: "CHR ''='' \<notin> set k \<Longrightarrow> part_pair (k @ CHR ''='' # v) = (k, v)"
  by (simp add: part_pair_def)

lemma part_pair_scope: "part_pair (''key='' @ v) = (''key'', v)" "part_pair (''token='' @ v) = (''token'', v)"
  "part_pair (''tty='' @ v) = (''tty'', v)"
  using part_pair_append [of "''key''" v] part_pair_append [of "''token''" v] part_pair_append [of "''tty''" v] by simp_all

lemma tab_not_in: "tab \<notin> set ''key=''" "tab \<notin> set ''token=''" "tab \<notin> set ''tty=''" "tab \<notin> set ''GET''" "tab \<notin> set ''REQUEST''"
  by code_simp+

lemma scoped_fields:
  "\<exists>fs. parse_fields [] ((''key='' @ k) # scope_parts client) = Inr fs \<and> field fs ''key'' = Some k
     \<and> field fs ''token'' = hc_token client \<and> field fs ''tty'' = hc_tty client"
proof -
  let ?parts = "(''key='' @ k) # scope_parts client"
  have "\<forall>p \<in> set ?parts. CHR ''='' \<in> set p" "distinct (map fst (map part_pair ?parts))"
    by (auto simp: scope_parts_def part_pair_scope [simplified] split: option.splits)
  then have "parse_fields [] ?parts = Inr (map part_pair ?parts)"
    using parse_fields_Inr [of "[]" ?parts "map part_pair ?parts"] by (simp del: parse_fields.simps)
  then show ?thesis
    by (auto simp: scope_parts_def part_pair_scope [simplified] field_def split: option.splits)
qed

lemma scoped_frame_parses:
  assumes "request_is_valid (scoped_frame client operation key)" and "tab \<notin> set operation"
    and "valid_name (as_str key)" and "scope_has_no_tab client"
  shows "\<exists>fs. parse_request (scoped_frame client operation key) = build_request operation fs \<and> field fs ''key'' = Some (as_str key)
     \<and> field fs ''token'' = hc_token client \<and> field fs ''tty'' = hc_tty client"
proof -
  let ?line = "scoped_frame client operation key" and ?parts = "(''key='' @ as_str key) # scope_parts client"
  have "tab \<notin> set (as_str key)" using assms(3) not_name_char(6) valid_name_chars by blast
  then have "\<forall>p \<in> set ?parts. tab \<notin> set p"
    using assms(4) tab_not_in by (auto simp: scope_parts_def scope_has_no_tab_def split: option.splits)
  moreover have "from_utf8 ?line = Some ?line" "?line \<noteq> []" "length ?line \<le> MAX_FRAME_BYTES"
    using assms(1) by (auto simp: request_is_valid_def intro: from_utf8_ascii)
  moreover obtain fs where "parse_fields [] ?parts = Inr fs" "field fs ''key'' = Some (as_str key)"
    "field fs ''token'' = hc_token client" "field fs ''tty'' = hc_tty client" using scoped_fields by blast
  ultimately show ?thesis
    using split_on_join [of "operation # ?parts" tab] assms(2) scoped_frame_join [of client operation key]
    by (auto simp: parse_request_def)
qed

lemma split_on_head:
  assumes "sep \<notin> set xs" and "r = [] \<or> (\<exists>r'. r = sep # r')"
  shows "\<exists>ps. split_on sep (xs @ r) = xs # ps"
  using assms split_on_append_sep [of sep xs] split_on_no_sep [of sep xs] by auto

lemma takeWhile_rest:
  obtains r where "xs = takeWhile (\<lambda>c. c \<noteq> sep) xs @ r" "r = [] \<or> (\<exists>r'. r = sep # r')"
proof -
  have "dropWhile (\<lambda>c. c \<noteq> sep) xs = [] \<or> (\<exists>r'. dropWhile (\<lambda>c. c \<noteq> sep) xs = sep # r')"
    by (induction xs) auto
  then show thesis by (intro that [of "dropWhile (\<lambda>c. c \<noteq> sep) xs"]) simp_all
qed

text \<open>Whatever is in the token and the terminal, the operation and the key are the first two parts of a frame, and the
  token up to its first tab is the third.\<close>

lemma scoped_frame_split:
  assumes "tab \<notin> set operation" and "tab \<notin> set (as_str key)"
  shows "\<exists>ps. split_on tab (scoped_frame client operation key) = operation # (''key='' @ as_str key) # ps
     \<and> (\<forall>token. hc_token client = Some token \<longrightarrow> (\<exists>ps'. ps = (''token='' @ takeWhile (\<lambda>c. c \<noteq> tab) token) # ps'))"
proof -
  define t where "t = (case hc_tty client of None \<Rightarrow> [] | Some tty \<Rightarrow> tab # ''tty='' @ tty)"
  have t: "t = [] \<or> (\<exists>r'. t = tab # r')" by (simp add: t_def split: option.split)
  have k: "tab \<notin> set (''key='' @ as_str key)" using assms(2) tab_not_in(1) by simp
  show ?thesis
  proof (cases "hc_token client")
    case None
    then have "scoped_frame client operation key = operation @ tab # ((''key='' @ as_str key) @ t)"
      by (simp add: scoped_frame_def t_def split: option.split)
    then show ?thesis using split_on_append_sep [OF assms(1)] split_on_head [OF k t] None by auto
  next
    case (Some token)
    define tw where tw: "tw = takeWhile (\<lambda>c. c \<noteq> tab) token"
    obtain r where r: "token = tw @ r" "r = [] \<or> (\<exists>r'. r = tab # r')" unfolding tw by (rule takeWhile_rest)
    have f: "scoped_frame client operation key =
        operation @ tab # ((''key='' @ as_str key) @ tab # ((''token='' @ tw) @ (r @ t)))"
      using Some by (simp add: scoped_frame_def t_def r(1) split: option.split)
    have "tab \<notin> set tw" unfolding tw by (auto dest: set_takeWhileD)
    then have n: "tab \<notin> set (''token='' @ tw)" using tab_not_in(2) by simp
    have rt: "r @ t = [] \<or> (\<exists>r'. r @ t = tab # r')" using r(2) t by auto
    obtain ps where "split_on tab ((''token='' @ tw) @ (r @ t)) = (''token='' @ tw) # ps" using split_on_head [OF n rt] ..
    then have "split_on tab (scoped_frame client operation key) = operation # (''key='' @ as_str key) # (''token='' @ tw) # ps"
      unfolding f split_on_append_sep [OF assms(1)] split_on_append_sep [OF k] by simp
    with Some tw show ?thesis by simp
  qed
qed

lemma scoped_frame_fields:
  assumes "request_is_valid (scoped_frame client operation key)" and "tab \<notin> set operation" and "valid_name (as_str key)"
  shows "(\<exists>err. parse_request (scoped_frame client operation key) = Inl err)
    \<or> (\<exists>fs. parse_request (scoped_frame client operation key) = build_request operation fs \<and> field fs ''key'' = Some (as_str key)
         \<and> (\<forall>token. hc_token client = Some token \<longrightarrow> field fs ''token'' = Some (takeWhile (\<lambda>c. c \<noteq> tab) token)))"
proof -
  let ?line = "scoped_frame client operation key"
  have "tab \<notin> set (as_str key)" using assms(3) not_name_char(6) valid_name_chars by blast
  from scoped_frame_split [OF assms(2) this] obtain ps where
    ps: "split_on tab ?line = operation # (''key='' @ as_str key) # ps"
      "\<And>token. hc_token client = Some token \<Longrightarrow> \<exists>ps'. ps = (''token='' @ takeWhile (\<lambda>c. c \<noteq> tab) token) # ps'" by blast
  have "from_utf8 ?line = Some ?line" "?line \<noteq> []" "length ?line \<le> MAX_FRAME_BYTES"
    using assms(1) by (auto simp: request_is_valid_def intro: from_utf8_ascii)
  then have p: "parse_request ?line = and_then (parse_fields [] ((''key='' @ as_str key) # ps)) (\<lambda>fs. build_request operation fs)"
    using ps(1) by (simp add: parse_request_def)
  from parse_fields_cases [of "(''key='' @ as_str key) # ps"] show ?thesis
  proof
    assume "parse_fields [] ((''key='' @ as_str key) # ps) = Inr (map part_pair ((''key='' @ as_str key) # ps))"
    moreover have "field (map part_pair ((''key='' @ as_str key) # ps)) ''token'' = Some (takeWhile (\<lambda>c. c \<noteq> tab) token)"
      if "hc_token client = Some token" for token
      using ps(2) [OF that] by (auto simp: part_pair_scope [simplified] field_def)
    moreover have "field (map part_pair ((''key='' @ as_str key) # ps)) ''key'' = Some (as_str key)"
      by (simp add: part_pair_scope [simplified] field_def)
    ultimately show ?thesis using p by auto
  qed (use p in simp)
qed

text \<open>C26: Each side reads what the other writes, towards the daemon. Let the client send the frame of a \<open>GET\<close> (or of a
  \<open>REQUEST\<close>) for a key, in whatever pieces it travels. If neither its token nor its terminal holds a tab, the daemon
  admits exactly that request, with the client's key, token and terminal. A tab in them is not refused by the
  client, and ends the field there, so that what follows counts as further fields; but even then the daemon
  refuses the frame or admits the same operation on the same key, and with the client's token up to the tab
  where it has one: a token cannot change which secret is asked for.\<close>

theorem scoped_request_understood:
  assumes "write_request tr (scoped_frame client ''GET'' key) = Inr get_bytes" and "concat get_chunks = get_bytes"
    and "write_request tr (scoped_frame client ''REQUEST'' key) = Inr grant_bytes" and "concat grant_chunks = grant_bytes"
    and "[] \<notin> set get_chunks" and "[] \<notin> set grant_chunks"
    and "valid_name (as_str key)"
    and "PeerIdentity_from_stream sockopt = Inr caller"
  shows "(scope_has_no_tab client \<longrightarrow>
      handle_admit euid \<lparr>in_set_timeout = None, in_peer_uid = Inr euid, in_sockopt = sockopt, in_reads = map Inr get_chunks\<rparr> =
        Some (Inr (caller, PcStart (Get (as_str key) (hc_token client) (hc_tty client))))
      \<and> handle_admit euid \<lparr>in_set_timeout = None, in_peer_uid = Inr euid, in_sockopt = sockopt, in_reads = map Inr grant_chunks\<rparr> =
        Some (Inr (caller, PcStart (RequestGrant (as_str key) (hc_token client) (hc_tty client)))))
    \<and> (\<exists>pc. handle_admit euid \<lparr>in_set_timeout = None, in_peer_uid = Inr euid, in_sockopt = sockopt, in_reads = map Inr get_chunks\<rparr> =
        Some (Inr (caller, pc))
        \<and> (pc = PcDone (plain_decision (OutFailed BadRequest ''invalid request frame''))
           \<or> (\<exists>t d. pc = PcStart (Get (as_str key) t d)
                \<and> (\<forall>token. hc_token client = Some token \<longrightarrow> t = Some (takeWhile (\<lambda>c. c \<noteq> tab) token)))))
    \<and> (\<exists>pc. handle_admit euid \<lparr>in_set_timeout = None, in_peer_uid = Inr euid, in_sockopt = sockopt, in_reads = map Inr grant_chunks\<rparr> =
        Some (Inr (caller, pc))
        \<and> (pc = PcDone (plain_decision (OutFailed BadRequest ''invalid request frame''))
           \<or> (\<exists>t d. pc = PcStart (RequestGrant (as_str key) t d)
                \<and> (\<forall>token. hc_token client = Some token \<longrightarrow> t = Some (takeWhile (\<lambda>c. c \<noteq> tab) token)))))"
proof -
  let ?in = "\<lambda>chunks. \<lparr>in_set_timeout = None, in_peer_uid = Inr euid, in_sockopt = sockopt, in_reads = map Inr chunks\<rparr>"
  let ?refused = "PcDone (plain_decision (OutFailed BadRequest ''invalid request frame''))"
  have admitted: "handle_admit euid (?in chunks) =
      Some (Inr (caller, case parse_request (scoped_frame client operation key) of Inr request \<Rightarrow> PcStart request | Inl _ \<Rightarrow> ?refused))"
    if w: "write_request tr (scoped_frame client operation key) = Inr bytes" and c: "concat chunks = bytes" "[] \<notin> set chunks"
    for operation bytes chunks
  proof -
    let ?line = "scoped_frame client operation key"
    from w have v: "request_is_valid ?line" "bytes = ?line @ [newline]"
      by (auto simp: write_request_def and_then_Inr split: if_splits)
    then have "read_frame (map Inr chunks) = Some (Inr (?line @ [newline]))"
      using read_frame_loop_line [of "[]" chunks ?line "[]" "[]"] c by (simp add: read_frame_def request_is_valid_def)
    with v assms(8) show ?thesis
      by (simp add: handle_admit_def peer_uid_is_authorized_def frame_request_def request_is_valid_def ok_def split: sum.split)
  qed
  have valid: "request_is_valid (scoped_frame client ''GET'' key)" "request_is_valid (scoped_frame client ''REQUEST'' key)"
    using assms(1,3) by (auto simp: write_request_def split: if_splits)
  have exact: "parse_request (scoped_frame client ''GET'' key) = Inr (Get (as_str key) (hc_token client) (hc_tty client))"
    "parse_request (scoped_frame client ''REQUEST'' key) = Inr (RequestGrant (as_str key) (hc_token client) (hc_tty client))"
    if "scope_has_no_tab client"
    using scoped_frame_parses [OF valid(1) tab_not_in(4) assms(7) that] scoped_frame_parses [OF valid(2) tab_not_in(5) assms(7) that]
    by (auto simp: build_request_def required_def)
  have get: "(\<exists>err. parse_request (scoped_frame client ''GET'' key) = Inl err)
      \<or> (\<exists>t d. parse_request (scoped_frame client ''GET'' key) = Inr (Get (as_str key) t d)
           \<and> (\<forall>token. hc_token client = Some token \<longrightarrow> t = Some (takeWhile (\<lambda>c. c \<noteq> tab) token)))"
    using scoped_frame_fields [OF valid(1) tab_not_in(4) assms(7)] by (auto simp: build_request_def required_def)
  have grant: "(\<exists>err. parse_request (scoped_frame client ''REQUEST'' key) = Inl err)
      \<or> (\<exists>t d. parse_request (scoped_frame client ''REQUEST'' key) = Inr (RequestGrant (as_str key) t d)
           \<and> (\<forall>token. hc_token client = Some token \<longrightarrow> t = Some (takeWhile (\<lambda>c. c \<noteq> tab) token)))"
    using scoped_frame_fields [OF valid(2) tab_not_in(5) assms(7)] by (auto simp: build_request_def required_def)
  show ?thesis
    unfolding admitted [OF assms(1,2,5)] admitted [OF assms(3,4,6)] using exact get grant by auto
qed

text \<open>With a tab in the token, the rest of it is a field of its own.\<close>

lemma tab_in_token_adds_field:
  "let client = HumanClient_new (BrokerClient_new ''/run/secretsd.sock'') (Some (''00'' @ [tab] @ ''tty=/dev/pts/9'')) None in
   parse_request (scoped_frame client ''GET'' (SecretName ''DB'')) = Inr (Get ''DB'' (Some ''00'') (Some ''/dev/pts/9''))"
  by code_simp

theorem scoped_request_understood_witness:
  "let client = HumanClient_new (BrokerClient_new ''/run/secretsd.sock'') None (Some ''/dev/pts/3''); key = SecretName ''DB_URL'';
       get = scoped_frame client ''GET'' key @ [newline]; grant = scoped_frame client ''REQUEST'' key @ [newline] in
   handle_admit 1000 \<lparr>in_set_timeout = None, in_peer_uid = Inr 1000, in_sockopt = (0, 7), in_reads = map Inr [take 9 get, drop 9 get]\<rparr> =
      Some (Inr (\<lparr>pidfd = 7\<rparr>, PcStart (Get ''DB_URL'' None (Some ''/dev/pts/3''))))
   \<and> handle_admit 1000 \<lparr>in_set_timeout = None, in_peer_uid = Inr 1000, in_sockopt = (0, 7), in_reads = map Inr [grant]\<rparr> =
      Some (Inr (\<lparr>pidfd = 7\<rparr>, PcStart (RequestGrant ''DB_URL'' None (Some ''/dev/pts/3''))))"
proof -
  let ?client = "HumanClient_new (BrokerClient_new ''/run/secretsd.sock'') None (Some ''/dev/pts/3'')" and ?key = "SecretName ''DB_URL''"
  let ?get = "scoped_frame ?client ''GET'' ?key @ [newline]" and ?grant = "scoped_frame ?client ''REQUEST'' ?key @ [newline]"
  let ?tr = "\<lparr>tr_connect = \<lambda>_. None, tr_set_read_timeout = \<lambda>_. None, tr_set_write_timeout = \<lambda>_. None, tr_write = \<lambda>_. None, tr_reads = \<lambda>_. []\<rparr>"
  have h: "write_request ?tr (scoped_frame ?client ''GET'' ?key) = Inr ?get" "concat [take 9 ?get, drop 9 ?get] = ?get"
    "write_request ?tr (scoped_frame ?client ''REQUEST'' ?key) = Inr ?grant" "concat [?grant] = ?grant"
    "[] \<notin> set [take 9 ?get, drop 9 ?get]" "[] \<notin> set [?grant]"
    "valid_name (as_str ?key)" "PeerIdentity_from_stream (0, 7) = Inr \<lparr>pidfd = 7\<rparr>" "scope_has_no_tab ?client"
    by code_simp+
  from scoped_request_understood [OF h(1-8), of 1000] h(9) show ?thesis by (simp add: Let_def HumanClient_new_def)
qed

text \<open>A whole call: over connections that work, if the daemon answers the handshake as its handler does and the
  \<open>GET\<close> of a key with some outcome, the client's call returns what that outcome says.\<close>

lemma get_returns_outcome:
  assumes "answers tr_hello (hello_request @ [newline]) (response_bytes (de_outcome (snd (dispatch_hello PROTOCOL_VERSION st))))"
    and "random_instance_id (Inr random) = Inr (ss_instance st)" and "length random = 16"
    and "request_is_valid (scoped_frame client ''GET'' key)"
    and "answers tr (scoped_frame client ''GET'' key @ [newline]) (response_bytes out)"
    and "sendable reserves out" and "header_fits out"
  shows "HumanClient_get reserves tr_hello tr client key =
    Some (case out of OutBytes v \<Rightarrow> Inr v | OutPayload p \<Rightarrow> Inr p | OutFailed code _ \<Rightarrow> Inl (CeBroker code) | _ \<Rightarrow> Inl CeInvalidResponse)"
proof -
  have "ss_instance st = hex random"
    using assms(2) by (simp add: random_instance_id_def)
  with assms(1,3) have "BrokerClient_hello (hc_broker client) reserves tr_hello = Some (Inr ())"
    using hello_answered [of tr_hello st random] by (simp add: hello_outcome_def)
  with request_answered [OF assms(4-7), of "hc_broker client"] show ?thesis
    by (cases out) (simp_all add: HumanClient_get_def BrokerClient_call_def value_result_def)
qed

end
