(* ===== verification/ClientErrors.thy ===== *)
theory ClientErrors
  imports ClientWire Config Hardening
begin

text \<open>
  What the command line reports when something fails (\<open>src/client/error.rs\<close>, and the texts of
  \<open>src/client/response.rs\<close>): the errors of the client, the guidance for each of the daemon's codes and the text
  of each. A text is made of fixed words, of key, source and path names and of what the operating system said;
  no error carries a value or a token.
\<close>

section \<open>Connection errors\<close>

fun ClientError_fmt :: "client_error \<Rightarrow> string" where
  "ClientError_fmt (CeIo e) = ''could not communicate with secretsd: '' @ fail_text e"
| "ClientError_fmt CeApprovalTimeout =
    ''timed out waiting for approval; the human may still need to touch the key, and the daemon '' @
     ''waits out the hardware cooldown between decrypts''"
| "ClientError_fmt CeInvalidRequest = ''refusing to send an invalid broker request''"
| "ClientError_fmt CeInvalidResponse = ''secretsd returned an invalid response''"
| "ClientError_fmt CeVersionHandshake = ''secretsd protocol version does not match this client''"
| "ClientError_fmt (CeBroker VersionMismatch) = ''secretsd protocol version does not match this client''"
| "ClientError_fmt (CeBroker BadRequest) = ''secretsd rejected the request as malformed''"
| "ClientError_fmt (CeBroker UnknownOp) = ''this client requested an unsupported secretsd operation''"
| "ClientError_fmt (CeBroker UnknownToken) =
    ''this session's registration was lost, usually to a broker restart; the OpenCode plugin '' @
     ''re-registers it on the next command''"
| "ClientError_fmt (CeBroker NoScope) = ''no session token or interactive terminal scope is available''"
| "ClientError_fmt (CeBroker AgentTty) = ''tokenless access from an agent terminal is not permitted''"
| "ClientError_fmt (CeBroker ForeignCaller) =
    ''the session token was presented from outside that session's process tree''"
| "ClientError_fmt (CeBroker NotHumanKey) = ''the requested key is not managed by secretsd''"
| "ClientError_fmt (CeBroker AmbiguousKey) = ''the requested key is managed by more than one human-tier file''"
| "ClientError_fmt (CeBroker Denied) = ''the secret request was denied''"
| "ClientError_fmt (CeBroker Timeout) = ''the secret request timed out before approval''"
| "ClientError_fmt (CeBroker YubikeyUnreachable) = ''the YubiKey is unreachable; connect through the devbox wrapper''"
| "ClientError_fmt (CeBroker TooManyPending) = ''this session already has too many pending secret requests''"
| "ClientError_fmt (CeBroker Internal) = ''secretsd could not complete the request''"
| "ClientError_fmt CeTokenFile = ''could not safely read the session token file''"

text \<open>\<open>Error::source\<close>: the error below, where there is one.\<close>

fun ClientError_source :: "client_error \<Rightarrow> io_failure option" where
  "ClientError_source (CeIo e) = Some e"
| "ClientError_source _ = None"

section \<open>Command line errors\<close>

definition AGENT_NOTICE :: string where
  "AGENT_NOTICE = ''AGENT NOTICE: ask the human; do not retry-loop.''"

datatype cli_error =
    CliUsage
  | CliConfig config_error
  | CliInvalidSecretName
  | CliMissingSecret secret_name
  | CliAmbiguousKey secret_name
  | CliSopsStart io_failure
  | CliSopsFailed
  | CliInvalidDotenv
  | CliAgentKeySet io_failure
  | CliHumanDirectory io_failure
  | CliInvalidHumanFile
  | CliDuplicateHumanKey secret_name string string
  | CliEditSourceRequired string
  | CliUnknownEditSource string string
  | CliEditConflict secret_name string
  | CliEditTemp
  | CliEditorStart io_failure
  | CliEditorExited
  | CliInvalidEditedHumanSecret secret_name
  | CliEmptyEditedHumanSecret secret_name
  | CliEncryptEditedSecret string
  | CliSopsCiphertextTooLarge nat
  | CliInstallEditedSecret
  | CliPipedHumanRead io_failure
  | CliEmptyPipedHumanSecret secret_name
  | CliInvalidPipedHumanSecret secret_name
  | CliHardening hardening_error
  | CliBroker err_code
  | CliBrokerTransport client_error
  | CliExec io_failure
  | CliStdout io_failure

definition CliError_from_broker :: "err_code \<Rightarrow> cli_error" where
  "CliError_from_broker code = CliBroker code"

definition CliError_from_client :: "client_error \<Rightarrow> cli_error" where
  "CliError_from_client err =
     (case err of CeBroker code \<Rightarrow> CliError_from_broker code | _ \<Rightarrow> CliBrokerTransport err)"

fun broker_guidance :: "err_code \<Rightarrow> string" where
  "broker_guidance BadRequest =
    ''secretsd rejected a malformed request; the human should update or restart the client and daemon.''"
| "broker_guidance UnknownOp =
    ''this client requested an unsupported operation; the human should update the client and daemon '' @
     ''together.''"
| "broker_guidance VersionMismatch =
    ''the client and daemon speak different protocol versions; ask the human to move both halves to '' @
     ''the same release -- the `secrets` binary and the tag OpenCode pins for its plugin -- then '' @
     ''restart the daemon with `systemctl --user restart secretsd.service` and restart OpenCode. '' @
     ''Restarting OpenCode while its plugin pin still names the old tag re-fetches the same '' @
     ''mismatched plugin, so updating only one half leaves this error in place.''"
| "broker_guidance UnknownToken =
    ''the broker restarted, losing this session's registration and every grant. The OpenCode plugin '' @
     ''re-registers on the next command, so run this command once more -- once, not in a loop -- and '' @
     ''expect the human's key to blink, because the first request after a restart needs a fresh touch.''"
| "broker_guidance NoScope =
    ''there is neither a terminal tty nor a session token. This is what non-interactive ssh host 'secrets '' @
     ''get KEY' produces; run from a human terminal with a tty or use the OpenCode token path.''"
| "broker_guidance AgentTty =
    ''a tokenless request came from a known agent terminal; use the OpenCode token path instead.''"
| "broker_guidance ForeignCaller =
    ''this session's token was presented from outside that session's process tree, so it was '' @
     ''refused; run the request from the session that owns the token.''"
| "broker_guidance NotHumanKey =
    ''the requested human-tier key is missing or was moved; ask the human to check its encrypted '' @
     ''file. If config.toml just gained a new source root, restart secretsd (systemctl --user restart '' @
     ''secretsd.service).''"
| "broker_guidance AmbiguousKey =
    ''the requested key exists in more than one human-tier location; ask the human to remove or '' @
     ''rename one of the duplicate files -- run `secrets list` to see every source.''"
| "broker_guidance Denied = ''the human declined the secret request.''"
| "broker_guidance Timeout =
    ''the human did not approve the request before it expired; wait for the human instead of retrying.''"
| "broker_guidance YubikeyUnreachable =
    ''the configured YubiKey path is unavailable; ask the human to connect the required hardware path.''"
| "broker_guidance TooManyPending =
    ''this scope already has too many pending requests; stop retrying and wait for the human.''"
| "broker_guidance Internal =
    ''the broker could not complete the request, including a failure to spawn sops; the human should '' @
     ''inspect journalctl --user -u secretsd for the daemon's logged sops stderr.''"

fun CliError_fmt :: "cli_error \<Rightarrow> string" where
  "CliError_fmt CliUsage =
    ''usage: secrets get KEY [--value|--no-request] | secrets list | secrets sources | secrets edit '' @
     ''[--source NAME] | secrets edit-local [--source NAME] | secrets edit-human KEY [--source NAME] '' @
     ''[--local] | secrets grants | secrets deny ID | secrets lock | secrets KEY1 [KEY2 ...] -- '' @
     ''command [args...]''"
| "CliError_fmt (CliConfig e) = ConfigError_fmt e"
| "CliError_fmt CliInvalidSecretName = ''invalid secret key''"
| "CliError_fmt (CliMissingSecret name) = ''secret '' @ [CHR 0x27] @ as_str name @ [CHR 0x27] @ '' not found''"
| "CliError_fmt (CliAmbiguousKey name) =
    ''key '' @ [CHR 0x27] @ as_str name @ [CHR 0x27] @
     '' exists in both agent and human tiers; refusing ambiguous access''"
| "CliError_fmt (CliSopsStart e) = ''could not start sops: '' @ fail_text e"
| "CliError_fmt CliSopsFailed = ''sops could not decrypt the agent-tier secrets''"
| "CliError_fmt CliInvalidDotenv = ''sops returned invalid dotenv data''"
| "CliError_fmt (CliAgentKeySet e) = ''could not read agent-tier key set: '' @ fail_text e"
| "CliError_fmt (CliHumanDirectory e) = ''could not list human-tier keys: '' @ fail_text e"
| "CliError_fmt CliInvalidHumanFile = ''human-tier directory contains an invalid key filename''"
| "CliError_fmt (CliDuplicateHumanKey name first second) =
    ''key '' @ [CHR 0x27] @ as_str name @ [CHR 0x27] @ '' exists in more than one human-tier location ('' @ first @
     '', '' @ second @ ''); remove or rename one file''"
| "CliError_fmt (CliEditSourceRequired available) =
    ''multiple secrets sources are configured; pass --source NAME (available: '' @ available @ '')''"
| "CliError_fmt (CliUnknownEditSource source available) =
    ''secrets source '' @ [CHR 0x27] @ source @ [CHR 0x27] @ '' is not configured (available: '' @ available @
     '')''"
| "CliError_fmt (CliEditConflict name actual) =
    ''edit flags conflict with key '' @ [CHR 0x27] @ as_str name @ [CHR 0x27] @ '' stored in source '' @ actual"
| "CliError_fmt CliEditTemp = ''could not prepare a private edit file''"
| "CliError_fmt (CliEditorStart e) = ''could not start editor: '' @ fail_text e"
| "CliError_fmt CliEditorExited = ''editor exited without creating a secret''"
| "CliError_fmt (CliInvalidEditedHumanSecret name) =
    ''edited secret must contain exactly one assignment named '' @ [CHR 0x27] @ as_str name @ [CHR 0x27]"
| "CliError_fmt (CliEmptyEditedHumanSecret name) =
    ''edited secret '' @ [CHR 0x27] @ as_str name @ [CHR 0x27] @ '' value must not be empty''"
| "CliError_fmt (CliEncryptEditedSecret target) =
    ''could not encrypt edited secret for '' @ [CHR 0x27] @ to_string_lossy target @ [CHR 0x27] @
     ''; ensure .sops.yaml has a matching creation rule''"
| "CliError_fmt (CliSopsCiphertextTooLarge limit) =
    ''sops produced more than '' @ nat_to_string limit @ '' bytes of ciphertext; refusing to stage it''"
| "CliError_fmt CliInstallEditedSecret = ''could not install encrypted secret''"
| "CliError_fmt (CliPipedHumanRead e) = ''could not read piped secret: '' @ fail_text e"
| "CliError_fmt (CliEmptyPipedHumanSecret name) =
    ''piped secret '' @ [CHR 0x27] @ as_str name @ [CHR 0x27] @ '' value must not be empty''"
| "CliError_fmt (CliInvalidPipedHumanSecret name) =
    ''piped secret '' @ [CHR 0x27] @ as_str name @ [CHR 0x27] @ '' must be one single-line assignment value''"
| "CliError_fmt (CliHardening e) = ''could not disable core dumps: '' @ HardeningError_fmt e"
| "CliError_fmt (CliBroker code) = AGENT_NOTICE @ '' '' @ broker_guidance code"
| "CliError_fmt (CliBrokerTransport e) = AGENT_NOTICE @ '' '' @ ClientError_fmt e"
| "CliError_fmt (CliExec e) = ''could not execute command: '' @ fail_text e"
| "CliError_fmt (CliStdout e) = ''could not write secret value: '' @ fail_text e"

text \<open>What \<open>Error::source\<close> may return.\<close>

datatype cli_source = SourceIo io_failure | SourceHardening hardening_error | SourceConfig config_error | SourceClient client_error

fun CliError_source :: "cli_error \<Rightarrow> cli_source option" where
  "CliError_source (CliSopsStart e) = Some (SourceIo e)"
| "CliError_source (CliAgentKeySet e) = Some (SourceIo e)"
| "CliError_source (CliHumanDirectory e) = Some (SourceIo e)"
| "CliError_source (CliExec e) = Some (SourceIo e)"
| "CliError_source (CliStdout e) = Some (SourceIo e)"
| "CliError_source (CliEditorStart e) = Some (SourceIo e)"
| "CliError_source (CliPipedHumanRead e) = Some (SourceIo e)"
| "CliError_source (CliHardening e) = Some (SourceHardening e)"
| "CliError_source (CliConfig e) = Some (SourceConfig e)"
| "CliError_source (CliBrokerTransport e) = Some (SourceClient e)"
| "CliError_source _ = None"

declare broker_guidance.simps [simp del]
declare CliError_fmt.simps [simp del]
declare ClientError_fmt.simps [simp del]

text \<open>Whatever the connection to the daemon failed with, the text opens with the notice.\<close>

lemma from_client_notice: "prefix AGENT_NOTICE (CliError_fmt (CliError_from_client err))"
  by (cases err) (simp_all add: CliError_from_client_def CliError_from_broker_def CliError_fmt.simps)

end
