(* ===== verification/Tiers.thy ===== *)
theory Tiers
  imports ClientErrors
begin

text \<open>
  The two tiers as the command line sees them: the agent tier (\<open>src/client/agent.rs\<close>), dotenv files that \<open>sops\<close>
  decrypts unattended, and the names of the human tier (\<open>HumanNames\<close> of \<open>src/client/human.rs\<close>). The file system
  and \<open>sops\<close> are arguments. A \<open>BTreeMap\<close> is a list of pairs sorted by key. The lemmas show that the first
  assignment wins across the files, and that the client's list of human keys is the daemon's.
\<close>

section \<open>Ordered maps\<close>

text \<open>The interface the tiers rely on: a map whose \<open>entry().or_insert()\<close> keeps what is there.\<close>

locale entry_map =
  fixes empty :: 'm
    and lookup :: "'m \<Rightarrow> 'k \<Rightarrow> 'v option"
    and or_insert :: "'k \<Rightarrow> 'v \<Rightarrow> 'm \<Rightarrow> 'm"
    and inv :: "'m \<Rightarrow> bool"
  assumes inv_empty: "inv empty"
    and lookup_empty: "lookup empty k = None"
    and inv_or_insert: "inv m \<Longrightarrow> inv (or_insert k v m)"
    and lookup_or_insert: "inv m \<Longrightarrow> lookup (or_insert k v m) k' =
      (if k' = k \<and> lookup m k = None then Some v else lookup m k')"
begin

definition insert_all :: "('k \<times> 'v) list \<Rightarrow> 'm \<Rightarrow> 'm" where
  "insert_all ps m = fold (\<lambda>(k, v). or_insert k v) ps m"

lemma inv_insert_all: "inv m \<Longrightarrow> inv (insert_all ps m)"
  unfolding insert_all_def by (induction ps arbitrary: m) (auto intro: inv_or_insert)

text \<open>What was there stays, and of the new pairs the first one of a key counts.\<close>

lemma lookup_insert_all:
  "inv m \<Longrightarrow> lookup (insert_all ps m) k = (case lookup m k of Some v \<Rightarrow> Some v | None \<Rightarrow> map_of ps k)"
  unfolding insert_all_def
proof (induction ps arbitrary: m)
  case (Cons p ps)
  then show ?case
    by (cases p) (auto simp: inv_or_insert lookup_or_insert split: option.split)
qed (simp split: option.split)

end

type_synonym 'v btree = "(secret_name \<times> 'v) list"

fun btree_or_insert :: "secret_name \<Rightarrow> 'v \<Rightarrow> 'v btree \<Rightarrow> 'v btree" where
  "btree_or_insert k v [] = [(k, v)]"
| "btree_or_insert k v ((k', v') # m) =
     (if k < k' then (k, v) # (k', v') # m
      else if k = k' then (k', v') # m
      else (k', v') # btree_or_insert k v m)"

definition btree_ok :: "'v btree \<Rightarrow> bool" where
  "btree_ok m \<longleftrightarrow> sorted (map fst m) \<and> distinct (map fst m)"

lemma btree_or_insert_keys: "set (map fst (btree_or_insert k v m)) = insert k (set (map fst m))"
  by (induction k v m rule: btree_or_insert.induct) auto

lemma btree_ok_or_insert: "btree_ok m \<Longrightarrow> btree_ok (btree_or_insert k v m)"
proof (induction k v m rule: btree_or_insert.induct)
  case (2 k v k' v' m)
  then show ?case
    using btree_or_insert_keys [of k v m] by (auto simp: btree_ok_def image_iff)
qed (simp add: btree_ok_def)

lemma map_of_btree_or_insert:
  "btree_ok m \<Longrightarrow> map_of (btree_or_insert k v m) k' = (if k' = k \<and> map_of m k = None then Some v else map_of m k')"
proof (induction k v m rule: btree_or_insert.induct)
  case (2 k v k1 v1 m)
  have "map_of m k = None" if "k < k1"
    using 2(2) that by (fastforce simp: btree_ok_def map_of_eq_None_iff)
  with 2 show ?case by (auto simp: btree_ok_def)
qed simp

interpretation btree: entry_map "[] :: 'v btree" map_of btree_or_insert btree_ok
  by unfold_locales (simp_all add: btree_ok_or_insert map_of_btree_or_insert, simp add: btree_ok_def)

section \<open>The agent tier\<close>

text \<open>What the client asks of the file system, and of \<open>sops\<close>: whether it starts, whether it succeeds and
  what it prints.\<close>

record client_fs =
  cfs_is_file :: "string \<Rightarrow> bool"
  cfs_read :: "string \<Rightarrow> io_failure + string"
  cfs_is_dir :: "string \<Rightarrow> bool"
  cfs_read_dir :: "string \<Rightarrow> io_failure + (io_failure + string) list"

type_synonym sops_decrypt = "string list \<Rightarrow> io_failure + bool \<times> string"

record agent_store =
  as_files :: "string list"
  as_sops_bin :: string

text \<open>One line of a dotenv file: nothing, or a name and a value.\<close>

definition dotenv_pair :: "string \<Rightarrow> cli_error + (secret_name \<times> string) option" where
  "dotenv_pair raw =
     (let line = strip_cr raw in
      if skipped_line line then Inr None
      else case split_once CHR ''='' line of
          None \<Rightarrow> Inl CliInvalidDotenv
        | Some (raw_name, val) \<Rightarrow>
            and_then (ok_or CliInvalidDotenv (from_utf8 raw_name)) (\<lambda>text.
            and_then (map_err (\<lambda>_. CliInvalidSecretName) (SecretName_parse text)) (\<lambda>name.
              Inr (Some (name, val)))))"

fun parse_dotenv_lines :: "secret_bytes btree \<Rightarrow> string list \<Rightarrow> cli_error + secret_bytes btree" where
  "parse_dotenv_lines vals [] = Inr vals"
| "parse_dotenv_lines vals (raw # rest) =
     and_then (dotenv_pair raw) (\<lambda>p.
       case p of
         None \<Rightarrow> parse_dotenv_lines vals rest
       | Some (name, val) \<Rightarrow>
           if nul \<in> set val then Inl CliInvalidDotenv
           else parse_dotenv_lines (btree_or_insert name val vals) rest)"

definition parse_dotenv :: "string \<Rightarrow> cli_error + secret_bytes btree" where
  "parse_dotenv plaintext = parse_dotenv_lines [] (split_on newline plaintext)"

fun names_in_lines :: "secret_name list \<Rightarrow> string list \<Rightarrow> cli_error + secret_name list" where
  "names_in_lines names [] = Inr names"
| "names_in_lines names (raw # rest) =
     and_then (dotenv_pair raw) (\<lambda>p.
       case p of
         None \<Rightarrow> names_in_lines names rest
       | Some (name, _) \<Rightarrow>
           names_in_lines (if prefix ''sops_'' (as_str name) then names else names @ [name]) rest)"

definition AgentStore_names_in :: "client_fs \<Rightarrow> string \<Rightarrow> cli_error + secret_name list" where
  "AgentStore_names_in fs path =
     and_then (map_err CliAgentKeySet (cfs_read fs path)) (\<lambda>encrypted. names_in_lines [] (split_on newline encrypted))"

definition AgentStore_decrypt_command :: "agent_store \<Rightarrow> string \<Rightarrow> string list" where
  "AgentStore_decrypt_command store path =
     [as_sops_bin store, ''-d'', ''--input-type'', ''dotenv'', ''--output-type'', ''dotenv'', path]"

definition AgentStore_decrypt_all :: "sops_decrypt \<Rightarrow> agent_store \<Rightarrow> string \<Rightarrow> cli_error + secret_bytes btree" where
  "AgentStore_decrypt_all sops store path =
     and_then (map_err CliSopsStart (sops (AgentStore_decrypt_command store path))) (\<lambda>(success, stdout).
       if \<not> success then Inl CliSopsFailed else parse_dotenv stdout)"

definition AgentStore_merge_first_values :: "secret_bytes btree \<Rightarrow> secret_bytes btree \<Rightarrow> secret_bytes btree" where
  "AgentStore_merge_first_values destination source = fold (\<lambda>(name, val). btree_or_insert name val) source destination"

fun merge_files :: "client_fs \<Rightarrow> sops_decrypt \<Rightarrow> agent_store \<Rightarrow> secret_bytes btree \<Rightarrow> string list \<Rightarrow> cli_error + secret_bytes btree" where
  "merge_files fs sops store vals [] = Inr vals"
| "merge_files fs sops store vals (path # paths) =
     (if cfs_is_file fs path
      then and_then (AgentStore_decrypt_all sops store path) (\<lambda>source.
             merge_files fs sops store (AgentStore_merge_first_values vals source) paths)
      else merge_files fs sops store vals paths)"

definition AgentStore_all :: "client_fs \<Rightarrow> sops_decrypt \<Rightarrow> agent_store \<Rightarrow> cli_error + secret_bytes btree" where
  "AgentStore_all fs sops store = merge_files fs sops store [] (as_files store)"

definition AgentStore_value :: "client_fs \<Rightarrow> sops_decrypt \<Rightarrow> agent_store \<Rightarrow> secret_name \<Rightarrow> cli_error + secret_bytes" where
  "AgentStore_value fs sops store name =
     and_then (AgentStore_all fs sops store) (\<lambda>vals. ok_or (CliMissingSecret name) (map_of vals name))"

fun contains_in :: "client_fs \<Rightarrow> secret_name \<Rightarrow> string list \<Rightarrow> cli_error + bool" where
  "contains_in fs name [] = Inr False"
| "contains_in fs name (path # paths) =
     (if cfs_is_file fs path
      then and_then (AgentStore_names_in fs path) (\<lambda>names.
             if name \<in> set names then Inr True else contains_in fs name paths)
      else contains_in fs name paths)"

definition AgentStore_contains :: "client_fs \<Rightarrow> agent_store \<Rightarrow> secret_name \<Rightarrow> cli_error + bool" where
  "AgentStore_contains fs store name = contains_in fs name (as_files store)"

section \<open>The names of the human tier\<close>

record human_location =
  hl_label :: string
  hl_path :: string

type_synonym human_names = "human_location btree"

text \<open>The loop over the entries of one root's directory, which come sorted by name.\<close>

fun load_entries :: "source_root \<Rightarrow> human_names \<Rightarrow> string list \<Rightarrow> cli_error + human_names" where
  "load_entries root names [] = Inr names"
| "load_entries root names (entry # entries) =
     (case from_utf8 entry of
        None \<Rightarrow> Inl CliInvalidHumanFile
      | Some text \<Rightarrow>
          (case parse_human_file_name text of
             Ignored \<Rightarrow> load_entries root names entries
           | Invalid \<Rightarrow> Inl CliInvalidHumanFile
           | Key name is_local \<Rightarrow>
               let label = (if is_local then so_name root @ ''.local'' else so_name root);
                   location = \<lparr>hl_label = label, hl_path = path_join (SourceRoot_human_dir root) entry\<rparr>
               in case map_of names name of
                    None \<Rightarrow> load_entries root (btree_or_insert name location names) entries
                  | Some first \<Rightarrow> Inl (CliDuplicateHumanKey name (hl_label first) label)))"

text \<open>\<open>collect\<close> into a \<open>Result\<close>: the first failure, or all entries.\<close>

fun collect_results :: "('e + 'a) list \<Rightarrow> 'e + 'a list" where
  "collect_results [] = Inr []"
| "collect_results (r # rs) = and_then r (\<lambda>x. and_then (collect_results rs) (\<lambda>xs. Inr (x # xs)))"

definition sorted_entries :: "client_fs \<Rightarrow> string \<Rightarrow> cli_error + string list" where
  "sorted_entries fs directory =
     and_then (map_err CliHumanDirectory (and_then (cfs_read_dir fs directory) collect_results)) (\<lambda>entries.
       Inr (sort entries))"

fun load_roots :: "client_fs \<Rightarrow> human_names \<Rightarrow> source_root list \<Rightarrow> cli_error + human_names" where
  "load_roots fs names [] = Inr names"
| "load_roots fs names (root # roots) =
     (let directory = SourceRoot_human_dir root in
      if \<not> cfs_is_dir fs directory then load_roots fs names roots
      else and_then (sorted_entries fs directory) (\<lambda>entries.
           and_then (load_entries root names entries) (\<lambda>names'. load_roots fs names' roots)))"

definition HumanNames_load :: "client_fs \<Rightarrow> source_root list \<Rightarrow> cli_error + human_names" where
  "HumanNames_load fs roots = load_roots fs [] roots"

definition HumanNames_location :: "human_names \<Rightarrow> secret_name \<Rightarrow> human_location option" where
  "HumanNames_location names name = map_of names name"

definition HumanNames_contains :: "human_names \<Rightarrow> secret_name \<Rightarrow> bool" where
  "HumanNames_contains names name \<longleftrightarrow> map_of names name \<noteq> None"

section \<open>The first assignment wins\<close>

text \<open>The reference: the assignments of a text in their order, the text of a file, and the assignments of all
  the files that are there, in the order of the list.\<close>

definition dotenv_assignments :: "string list \<Rightarrow> (secret_name \<times> string) list" where
  "dotenv_assignments ls = concat (map (\<lambda>l. case dotenv_pair l of Inr (Some p) \<Rightarrow> [p] | _ \<Rightarrow> []) ls)"

definition dotenv_ok :: "string list \<Rightarrow> bool" where
  "dotenv_ok ls \<longleftrightarrow> (\<forall>l \<in> set ls. \<exists>p. dotenv_pair l = Inr p) \<and> (\<forall>(name, val) \<in> set (dotenv_assignments ls). nul \<notin> set val)"

definition decrypted_lines :: "sops_decrypt \<Rightarrow> agent_store \<Rightarrow> string \<Rightarrow> string list" where
  "decrypted_lines sops store path = (case sops (AgentStore_decrypt_command store path) of Inr (_, out) \<Rightarrow> split_on newline out | Inl _ \<Rightarrow> [])"

definition decrypts_ok :: "sops_decrypt \<Rightarrow> agent_store \<Rightarrow> string \<Rightarrow> bool" where
  "decrypts_ok sops store path \<longleftrightarrow> (\<exists>out. sops (AgentStore_decrypt_command store path) = Inr (True, out) \<and> dotenv_ok (split_on newline out))"

definition present_files :: "client_fs \<Rightarrow> agent_store \<Rightarrow> string list" where
  "present_files fs store = filter (cfs_is_file fs) (as_files store)"

definition agent_assignments :: "client_fs \<Rightarrow> sops_decrypt \<Rightarrow> agent_store \<Rightarrow> (secret_name \<times> string) list" where
  "agent_assignments fs sops store = concat (map (\<lambda>p. dotenv_assignments (decrypted_lines sops store p)) (present_files fs store))"

lemma merge_insert_all: "AgentStore_merge_first_values m source = btree.insert_all source m"
  by (simp add: AgentStore_merge_first_values_def btree.insert_all_def)

lemma dotenv_assignments_simps [simp]:
  "dotenv_assignments [] = []"
  "dotenv_assignments (l # ls) = (case dotenv_pair l of Inr (Some p) \<Rightarrow> p # dotenv_assignments ls | _ \<Rightarrow> dotenv_assignments ls)"
  by (auto simp: dotenv_assignments_def split: sum.split option.split)

lemma parse_dotenv_lines_iff:
  "parse_dotenv_lines m ls = Inr m' \<longleftrightarrow> dotenv_ok ls \<and> m' = btree.insert_all (dotenv_assignments ls) m"
proof (induction m ls rule: parse_dotenv_lines.induct)
  case (2 m raw rest)
  show ?case
  proof (cases "dotenv_pair raw")
    case (Inr p)
    with 2 show ?thesis
      by (cases p) (auto simp: dotenv_ok_def btree.insert_all_def split: if_splits)
  qed (simp add: dotenv_ok_def)
qed (auto simp: dotenv_ok_def btree.insert_all_def)

lemma parse_dotenv_iff:
  "parse_dotenv text = Inr m \<longleftrightarrow>
     dotenv_ok (split_on newline text) \<and> m = btree.insert_all (dotenv_assignments (split_on newline text)) []"
  by (simp add: parse_dotenv_def parse_dotenv_lines_iff)

lemma decrypt_all_iff:
  "AgentStore_decrypt_all sops store path = Inr m \<longleftrightarrow>
     decrypts_ok sops store path \<and> m = btree.insert_all (dotenv_assignments (decrypted_lines sops store path)) []"
  by (cases "sops (AgentStore_decrypt_command store path)") (auto simp: AgentStore_decrypt_all_def decrypts_ok_def decrypted_lines_def parse_dotenv_iff map_err_def
      split: if_splits)

lemma merge_files_ok:
  "merge_files fs sops store m paths = Inr m' \<Longrightarrow> btree_ok m \<Longrightarrow>
     btree_ok m' \<and> (\<forall>path \<in> set (filter (cfs_is_file fs) paths). decrypts_ok sops store path)
     \<and> map_of m' name = (case map_of m name of Some v \<Rightarrow> Some v
         | None \<Rightarrow> map_of (concat (map (\<lambda>p. dotenv_assignments (decrypted_lines sops store p)) (filter (cfs_is_file fs) paths))) name)"
proof (induction fs sops store m paths rule: merge_files.induct)
  case (2 fs sops store m path paths)
  show ?case
  proof (cases "cfs_is_file fs path")
    case True
    with 2(3) obtain source where s: "AgentStore_decrypt_all sops store path = Inr source"
      "merge_files fs sops store (btree.insert_all source m) paths = Inr m'"
      by (auto simp: and_then_Inr merge_insert_all)
    have l: "map_of source name = map_of (dotenv_assignments (decrypted_lines sops store path)) name" "decrypts_ok sops store path"
      using s(1) btree.lookup_insert_all [of "[]"] by (auto simp: decrypt_all_iff btree_ok_def)
    have "btree_ok (btree.insert_all source m)" using 2(4) by (rule btree.inv_insert_all)
    with 2(1) [OF True, of source] s(2) l 2(4) True show ?thesis
      by (auto simp: merge_insert_all btree.lookup_insert_all map_add_def split: option.splits)
  qed (use 2 in \<open>simp split: option.splits\<close>)
qed (simp split: option.split)

lemma merge_files_total:
  "\<forall>path \<in> set paths. cfs_is_file fs path \<longrightarrow> decrypts_ok sops store path \<Longrightarrow> \<exists>m'. merge_files fs sops store m paths = Inr m'"
proof (induction paths arbitrary: m)
  case (Cons path paths)
  then show ?case using decrypt_all_iff [of sops store path] by (auto simp: and_then_Inr)
qed simp

lemma AgentStore_value_iff:
  "AgentStore_value fs sops store name = Inr v \<longleftrightarrow>
     (\<forall>path \<in> set (present_files fs store). decrypts_ok sops store path)
     \<and> map_of (agent_assignments fs sops store) name = Some v"
proof -
  have empty: "btree_ok ([] :: secret_bytes btree)" by (rule btree.inv_empty)
  show ?thesis
  proof (cases "merge_files fs sops store [] (as_files store)")
    case (Inl err)
    then show ?thesis using merge_files_total [of "as_files store" fs sops store "[]"]
      by (auto simp: AgentStore_value_def AgentStore_all_def present_files_def)
  next
    case (Inr m)
    from merge_files_ok [OF Inr empty, of name] Inr show ?thesis
      by (auto simp: AgentStore_value_def AgentStore_all_def ok_or_Inr agent_assignments_def present_files_def)
  qed
qed

text \<open>C25: The agent tier is the first assignment. A value is served for a name exactly when every file of the list
  that exists decrypts and parses, and the value is the one the first assignment to the name gives, reading
  the files in their order and each from top to bottom: an earlier file, and an earlier line, win.\<close>

theorem agent_value_is_first_assignment:
  "AgentStore_value fs sops store name = Inr v \<longleftrightarrow>
     (\<forall>path \<in> set (present_files fs store). decrypts_ok sops store path)
     \<and> map_of (agent_assignments fs sops store) name = Some v"
  by (rule AgentStore_value_iff)

theorem agent_value_is_first_assignment_witness:
  "AgentStore_value
     \<lparr>cfs_is_file = \<lambda>p. p \<noteq> ''/gone'', cfs_read = \<lambda>_. Inr [], cfs_is_dir = \<lambda>_. False, cfs_read_dir = \<lambda>_. Inr []\<rparr>
     (\<lambda>command. Inr (True, if last command = ''/a'' then ''K=one'' @ [newline] @ ''K=two'' else ''K=three'' @ [newline] @ ''L=four''))
     \<lparr>as_files = [''/gone'', ''/a'', ''/b''], as_sops_bin = ''sops''\<rparr> (SecretName ''K'') = Inr ''one''"
proof (rule agent_value_is_first_assignment [THEN iffD2], intro conjI)
  let ?fs = "\<lparr>cfs_is_file = \<lambda>p. p \<noteq> ''/gone'', cfs_read = \<lambda>_. Inr [], cfs_is_dir = \<lambda>_. False, cfs_read_dir = \<lambda>_. Inr []\<rparr>"
  let ?sops = "\<lambda>command. Inr (True, if last command = ''/a'' then ''K=one'' @ [newline] @ ''K=two'' else ''K=three'' @ [newline] @ ''L=four'')"
  let ?store = "\<lparr>as_files = [''/gone'', ''/a'', ''/b''], as_sops_bin = ''sops''\<rparr>"
  have p: "present_files ?fs ?store = [''/a'', ''/b'']" by code_simp
  have a: "dotenv_pair ''K=one'' = Inr (Some (SecretName ''K'', ''one''))" "dotenv_pair ''K=two'' = Inr (Some (SecretName ''K'', ''two''))"
    "dotenv_pair ''K=three'' = Inr (Some (SecretName ''K'', ''three''))" "dotenv_pair ''L=four'' = Inr (Some (SecretName ''L'', ''four''))"
    by code_simp+
  have l: "split_on newline (''K=one'' @ [newline] @ ''K=two'') = [''K=one'', ''K=two'']"
    "split_on newline (''K=three'' @ [newline] @ ''L=four'') = [''K=three'', ''L=four'']" by code_simp+
  show "\<forall>path \<in> set (present_files ?fs ?store). decrypts_ok ?sops ?store path"
    unfolding p using l a by (simp add: decrypts_ok_def dotenv_ok_def nul_def AgentStore_decrypt_command_def)
  show "map_of (agent_assignments ?fs ?sops ?store) (SecretName ''K'') = Some ''one''"
    using p l a by (simp add: agent_assignments_def decrypted_lines_def AgentStore_decrypt_command_def)
qed

section \<open>The client and the daemon see the same keys\<close>

text \<open>The daemon's sources of the client's roots, and the daemon's view of the directories the client reads.\<close>

definition human_sources_of :: "source_root list \<Rightarrow> human_source list" where
  "human_sources_of roots = map (\<lambda>root. \<lparr>hs_label = so_name root, hs_dir = SourceRoot_human_dir root\<rparr>) roots"

text \<open>Reading a path that is not a directory fails: with \<open>NotFound\<close> if nothing is there, and otherwise, for a file
  or for a path that may not be searched, with another kind of error.\<close>

definition same_directories :: "client_fs \<Rightarrow> filesystem \<Rightarrow> bool" where
  "same_directories cfs fs \<longleftrightarrow>
     (\<forall>dir. if cfs_is_dir cfs dir
        then fs_read_dir fs dir =
          (case cfs_read_dir cfs dir of
             Inl _ \<Rightarrow> Inl OtherKind
           | Inr entries \<Rightarrow> Inr (map (map_sum (\<lambda>_. OtherKind) id) entries))
        else fs_read_dir fs dir \<in> {Inl NotFound, Inl OtherKind})"

text \<open>A root whose human directory cannot be read although something is there.\<close>

definition obstructed :: "filesystem \<Rightarrow> source_root list \<Rightarrow> bool" where
  "obstructed fs roots \<longleftrightarrow> (\<exists>root \<in> set roots. fs_read_dir fs (SourceRoot_human_dir root) = Inl OtherKind)"

definition candidate_location :: "candidate \<Rightarrow> human_location" where
  "candidate_location c = \<lparr>hl_label = cd_label c, hl_path = path_join (cd_dir c) (cd_file_name c)\<rparr>"

text \<open>What loading a number of files does to the entry of one key: the files that back the key are \<open>B\<close>.\<close>

definition loads :: "secret_name \<Rightarrow> human_names \<Rightarrow> candidate multiset \<Rightarrow> human_names \<Rightarrow> bool" where
  "loads n names B names' \<longleftrightarrow>
     (case map_of names n of
        Some l \<Rightarrow> map_of names' n = Some l \<and> B = {#}
      | None \<Rightarrow>
          (case map_of names' n of
             None \<Rightarrow> B = {#}
           | Some l \<Rightarrow> \<exists>c. B = {#c#} \<and> candidate_location c = l))"

lemma loads_refl: "loads n names {#} names"
  by (auto simp: loads_def split: option.split)

lemma loads_trans: "loads n a B b \<Longrightarrow> loads n b C c \<Longrightarrow> loads n a (B + C) c"
  by (auto simp: loads_def split: option.splits)

lemma mset_concat_map_perm: "mset xs = mset ys \<Longrightarrow> mset (concat (map f xs)) = mset (concat (map f ys))"
  by (simp add: mset_concat flip: mset_map) (metis mset_map sum_mset_sum_list)

lemma load_entries_loads:
  assumes "load_entries root names es = Inr names'" and "btree_ok names"
    and src: "src = \<lparr>hs_label = so_name root, hs_dir = SourceRoot_human_dir root\<rparr>"
  shows "btree_ok names' \<and> (\<forall>e \<in> set es. \<exists>found. HumanStore_human_file_name src e = Inr found)
    \<and> loads n names (mset (concat (map (backing_of src n) es))) names'"
  using assms(1,2)
proof (induction es arbitrary: names)
  case (Cons e es)
  then obtain t where u: "from_utf8 e = Some t" by (auto split: option.splits)
  show ?case
  proof (cases "parse_human_file_name t")
    case Ignored
    then have f: "HumanStore_human_file_name src e = Inr None" using u by (simp add: HumanStore_human_file_name_def)
    with Cons u Ignored backing_of_file_name [OF f, of n] show ?thesis by auto
  next
    case (Key name is_local)
    then have f: "HumanStore_human_file_name src e = Inr (Some (name, is_local, t))"
      using u by (simp add: HumanStore_human_file_name_def)
    let ?c = "candidate_of src (name, is_local, t)"
    let ?names = "btree_or_insert name (candidate_location ?c) names"
    have "t = e" using f human_file_name_Some by blast
    then have "candidate_location ?c = \<lparr>hl_label = if is_local then so_name root @ ''.local'' else so_name root,
        hl_path = path_join (SourceRoot_human_dir root) e\<rparr>"
      by (simp add: candidate_location_def candidate_of_def label_of_def src)
    then have l: "load_entries root ?names es = Inr names'" "map_of names name = None"
      using Cons.prems(1) u Key by (auto simp: Let_def split: option.splits)
    have ok: "btree_ok ?names" using Cons.prems(2) by (rule btree.inv_or_insert)
    have "loads n names (mset (backing_of src n e)) ?names"
      using btree.lookup_or_insert [OF Cons.prems(2)] l(2) backing_of_file_name [OF f, of n]
      by (auto simp: loads_def split: option.split)
    from loads_trans [OF this] Cons.IH [OF l(1) ok] f show ?thesis by auto
  qed (use Cons.prems u in simp)
qed (simp add: loads_refl)

lemma load_entries_btree: "load_entries root names es = Inr names' \<Longrightarrow> btree_ok names \<Longrightarrow> btree_ok names'"
  using load_entries_loads [of root names es names' _ undefined] by blast

lemma load_roots_btree: "load_roots cfs names roots = Inr names' \<Longrightarrow> btree_ok names \<Longrightarrow> btree_ok names'"
  by (induction roots arbitrary: names) (auto simp: Let_def and_then_Inr split: if_splits dest: load_entries_btree)

lemma collect_results_Inr: "collect_results rs = Inr xs \<longleftrightarrow> rs = map Inr xs"
proof (induction rs arbitrary: xs)
  case (Cons r rs)
  then show ?case by (cases r; cases xs) (auto simp: and_then_Inr)
qed auto

lemma scan_entries_total:
  "\<forall>e \<in> set es. \<exists>found. HumanStore_human_file_name src e = Inr found \<Longrightarrow> \<exists>files. scan_entries src (map Inr es) = Inr files"
  by (induction es) (auto simp: and_then_Inr)

lemma load_roots_loads:
  assumes "load_roots cfs names roots = Inr names'" and "btree_ok names" and "same_directories cfs fs" and "\<not> obstructed fs roots"
  shows "btree_ok names' \<and> (\<exists>ns. names_in_sources fs (human_sources_of roots) = Inr ns)
    \<and> loads n names (mset (backing_files fs (human_sources_of roots) n)) names'"
  using assms(1,2,4)
proof (induction roots arbitrary: names)
  case (Cons root roots)
  from Cons.prems(3) have rest: "\<not> obstructed fs roots" and here: "fs_read_dir fs (SourceRoot_human_dir root) \<noteq> Inl OtherKind"
    by (simp_all add: obstructed_def)
  let ?src = "\<lparr>hs_label = so_name root, hs_dir = SourceRoot_human_dir root\<rparr>"
  have view: "if cfs_is_dir cfs (SourceRoot_human_dir root)
      then fs_read_dir fs (SourceRoot_human_dir root) =
        (case cfs_read_dir cfs (SourceRoot_human_dir root) of
           Inl _ \<Rightarrow> Inl OtherKind | Inr entries \<Rightarrow> Inr (map (map_sum (\<lambda>_. OtherKind) id) entries))
      else fs_read_dir fs (SourceRoot_human_dir root) = Inl NotFound"
    using assms(3) here unfolding same_directories_def by (auto split: if_splits)
  show ?case
  proof (cases "cfs_is_dir cfs (SourceRoot_human_dir root)")
    case False
    with Cons rest view show ?thesis
      by (auto simp: human_sources_of_def backing_files_def raw_names_def scan_source_def directory_entries_def and_then_Inr)
  next
    case True
    with Cons.prems(1) obtain es names1 where r: "cfs_read_dir cfs (SourceRoot_human_dir root) = Inr (map Inr es)"
        "load_entries root names (sort es) = Inr names1" "load_roots cfs names1 roots = Inr names'"
      by (auto simp: Let_def sorted_entries_def and_then_Inr map_err_def collect_results_Inr split: sum.splits)
    note e = load_entries_loads [OF r(2) Cons.prems(2) refl, of n]
    have dir: "fs_read_dir fs (SourceRoot_human_dir root) = Inr (map Inr es)" using view r(1) True by simp
    then have raw: "raw_names fs (SourceRoot_human_dir root) = es" by (simp add: raw_names_def comp_def)
    obtain files where "scan_entries ?src (map Inr es) = Inr files" using e scan_entries_total [of es ?src] by auto
    then have scan: "scan_source fs ?src = Inr files" using dir by (simp add: scan_source_def directory_entries_def and_then_Inr)
    have "mset (concat (map (backing_of ?src n) (sort es))) = mset (concat (map (backing_of ?src n) es))"
      by (rule mset_concat_map_perm) simp
    with e loads_trans Cons.IH [OF r(3) _ rest] have
      "loads n names (mset (concat (map (backing_of ?src n) es)) + mset (backing_files fs (human_sources_of roots) n)) names'"
      by metis
    with Cons.IH [OF r(3) _ rest] e raw scan show ?thesis
      by (auto simp: human_sources_of_def backing_files_def and_then_Inr)
  qed
qed (simp add: loads_refl human_sources_of_def backing_files_def)

text \<open>A source that cannot be read is an internal error to the daemon, whatever the key.\<close>

lemma scan_entries_error: "scan_entries src es = Inl err \<Longrightarrow> err = Internal"
  by (induction es rule: scan_entries.induct [case_names Nil Err Ok])
     (auto simp: and_then_Inl HumanStore_human_file_name_def split: option.splits human_file_name.splits)

lemma scan_source_error: "scan_source fs src = Inl err \<Longrightarrow> err = Internal"
  by (auto simp: scan_source_def and_then_Inl directory_entries_def
      split: option.splits sum.splits io_kind.splits dest: scan_entries_error)

lemma candidates_in_error: "candidates_in fs n srcs = Inl err \<Longrightarrow> err = Internal"
  by (induction srcs) (auto simp: and_then_Inl dest: scan_source_error)

lemma candidates_in_obstructed:
  "src \<in> set srcs \<Longrightarrow> fs_read_dir fs (hs_dir src) = Inl OtherKind \<Longrightarrow> candidates_in fs n srcs = Inl Internal"
proof (induction srcs)
  case (Cons s srcs)
  show ?case
  proof (cases "candidates_in fs n (s # srcs)")
    case (Inl err)
    then show ?thesis using candidates_in_error by blast
  next
    case (Inr cs)
    then have "\<exists>files. scan_source fs s = Inr files" "\<exists>rest. candidates_in fs n srcs = Inr rest" by (auto simp: and_then_Inr)
    with Cons show ?thesis by (auto simp: scan_source_def directory_entries_def and_then_def)
  qed
qed simp

text \<open>C20: Where the command line and the daemon agree on the human tier, and where not. Let the client list the human keys
  of its roots, and let the daemon be configured with the same roots and read the same directories. If every
  human directory is there or absent, the daemon finds exactly those keys, none of them ambiguous, each under
  the label the client shows; every other name is no human key to it. If one of them is something else than a
  directory or may not be searched, the client passes over it, but the daemon answers every key with
  \<open>Internal\<close>, also those the client lists.\<close>

theorem client_lists_daemon_keys:
  assumes "HumanNames_load cfs roots = Inr names" and "same_directories cfs fs"
  shows "HumanStore_locate fs \<lparr>hs_sources = human_sources_of roots\<rparr> n =
      (if \<exists>root \<in> set roots. fs_read_dir fs (SourceRoot_human_dir root) = Inl OtherKind then Inl Internal
       else case HumanNames_location names n of Some l \<Rightarrow> Inr (hl_label l) | None \<Rightarrow> Inl NotHumanKey)
    \<and> sorted (map fst names) \<and> distinct (map fst names)"
proof -
  have sorted: "btree_ok names"
    using load_roots_btree [of cfs "[]" roots names] btree.inv_empty assms(1) by (simp add: HumanNames_load_def)
  show ?thesis
  proof (cases "obstructed fs roots")
    case True
    then obtain root where "root \<in> set roots" "fs_read_dir fs (SourceRoot_human_dir root) = Inl OtherKind"
      by (auto simp: obstructed_def)
    then have "\<lparr>hs_label = so_name root, hs_dir = SourceRoot_human_dir root\<rparr> \<in> set (human_sources_of roots)"
      "fs_read_dir fs (hs_dir \<lparr>hs_label = so_name root, hs_dir = SourceRoot_human_dir root\<rparr>) = Inl OtherKind"
      by (simp_all add: human_sources_of_def)
    from candidates_in_obstructed [OF this, of n] True sorted show ?thesis
      by (simp add: HumanStore_locate_def HumanStore_candidates_def and_then_def obstructed_def btree_ok_def)
  next
    case False
    have l: "\<exists>ns. names_in_sources fs (human_sources_of roots) = Inr ns"
      "loads n [] (mset (backing_files fs (human_sources_of roots) n)) names"
      using load_roots_loads [OF _ btree.inv_empty assms(2) False, of names n] assms(1) by (simp_all add: HumanNames_load_def)
    obtain cs where cs: "candidates_in fs n (human_sources_of roots) = Inr cs"
      using l(1) candidates_ok_iff_names_ok by blast
    with candidates_in_backing have "cs = backing_files fs (human_sources_of roots) n" by blast
    with l(2) cs have "HumanStore_locate fs \<lparr>hs_sources = human_sources_of roots\<rparr> n =
        (case HumanNames_location names n of Some l \<Rightarrow> Inr (hl_label l) | None \<Rightarrow> Inl NotHumanKey)"
      by (cases "map_of names n")
         (auto simp: loads_def HumanStore_locate_def HumanStore_candidates_def HumanNames_location_def sole_candidate_def
          candidate_location_def)
    with sorted False show ?thesis by (simp add: btree_ok_def obstructed_def)
  qed
qed

text \<open>A root with two keys; then a second root as well, where a file stands in the directory's place.\<close>

definition two_roots_fs :: filesystem where
  "two_roots_fs =
     \<lparr>fs_read_dir = \<lambda>dir. if dir = ''/r/secrets.human.d'' then Inr [Inr ''B.env'', Inr ''A.local.env'', Inr ''.gitkeep'']
                          else if dir = ''/q/secrets.human.d'' then Inl OtherKind else Inl NotFound,
      fs_open_dir = \<lambda>_. True, fs_openat = \<lambda>_ _. None, fs_exists = \<lambda>_. True\<rparr>"

definition two_roots_client :: client_fs where
  "two_roots_client =
     \<lparr>cfs_is_file = \<lambda>_. False, cfs_read = \<lambda>_. Inr [], cfs_is_dir = \<lambda>dir. dir = ''/r/secrets.human.d'',
      cfs_read_dir = \<lambda>_. Inr [Inr ''B.env'', Inr ''A.local.env'', Inr ''.gitkeep'']\<rparr>"

theorem client_lists_daemon_keys_witness:
  "HumanStore_locate two_roots_fs \<lparr>hs_sources = human_sources_of [\<lparr>so_name = ''dots'', so_path = ''/r''\<rparr>]\<rparr> (SecretName ''A'') = Inr ''dots.local''
   \<and> HumanStore_locate two_roots_fs
       \<lparr>hs_sources = human_sources_of [\<lparr>so_name = ''dots'', so_path = ''/r''\<rparr>, \<lparr>so_name = ''more'', so_path = ''/q''\<rparr>]\<rparr> (SecretName ''A'') = Inl Internal"
proof -
  let ?names = "[(SecretName ''A'', \<lparr>hl_label = ''dots.local'', hl_path = ''/r/secrets.human.d/A.local.env''\<rparr>),
      (SecretName ''B'', \<lparr>hl_label = ''dots'', hl_path = ''/r/secrets.human.d/B.env''\<rparr>)]"
  let ?r = "\<lparr>so_name = ''dots'', so_path = ''/r''\<rparr>" and ?q = "\<lparr>so_name = ''more'', so_path = ''/q''\<rparr>"
  have l: "HumanNames_load two_roots_client [?r] = Inr ?names" "HumanNames_load two_roots_client [?r, ?q] = Inr ?names"
    "SourceRoot_human_dir ?r = ''/r/secrets.human.d''" "SourceRoot_human_dir ?q = ''/q/secrets.human.d''" by code_simp+
  have d: "same_directories two_roots_client two_roots_fs" by (simp add: same_directories_def two_roots_client_def two_roots_fs_def)
  show ?thesis
    using client_lists_daemon_keys [OF l(1) d, of "SecretName ''A''"] client_lists_daemon_keys [OF l(2) d, of "SecretName ''A''"] l(3,4)
    by (simp add: HumanNames_location_def two_roots_fs_def)
qed

section \<open>The key set without decrypting\<close>

text \<open>What \<open>sops\<close> documents of its dotenv files: the encrypted file has the names of the plaintext, each in
  its line, and metadata whose names start with \<open>sops_\<close>. Then asking for the names and decrypting agree.\<close>

definition keeps_names :: "client_fs \<Rightarrow> sops_decrypt \<Rightarrow> agent_store \<Rightarrow> string \<Rightarrow> bool" where
  "keeps_names fs sops store path \<longleftrightarrow>
     (\<exists>names. AgentStore_names_in fs path = Inr names \<and> set names = fst ` set (dotenv_assignments (decrypted_lines sops store path)))"

lemma contains_in_names:
  "\<forall>path \<in> set paths. cfs_is_file fs path \<longrightarrow> keeps_names fs sops store path \<Longrightarrow>
     contains_in fs name paths =
       Inr (map_of (concat (map (\<lambda>p. dotenv_assignments (decrypted_lines sops store p)) (filter (cfs_is_file fs) paths))) name \<noteq> None)"
proof (induction paths)
  case (Cons path paths)
  have append: "map_of (xs @ ys) name = None \<longleftrightarrow> name \<notin> fst ` set xs \<and> map_of ys name = None" for xs ys :: "secret_bytes btree"
    by (simp add: map_of_eq_None_iff image_Un)
  from Cons have IH: "contains_in fs name paths =
      Inr (map_of (concat (map (\<lambda>p. dotenv_assignments (decrypted_lines sops store p)) (filter (cfs_is_file fs) paths))) name \<noteq> None)"
    by (auto simp: comp_def)
  show ?case
  proof (cases "cfs_is_file fs path")
    case True
    then obtain names where "AgentStore_names_in fs path = Inr names"
      "set names = fst ` set (dotenv_assignments (decrypted_lines sops store path))" using Cons.prems by (auto simp: keeps_names_def)
    with True IH show ?thesis by (simp add: append del: map_of_append)
  qed (simp add: IH)
qed simp

lemma AgentStore_contains_names:
  assumes "\<forall>path \<in> set (present_files fs store). keeps_names fs sops store path"
  shows "AgentStore_contains fs store name = Inr (map_of (agent_assignments fs sops store) name \<noteq> None)"
  using assms contains_in_names [of "as_files store" fs sops store name]
  by (auto simp: AgentStore_contains_def agent_assignments_def present_files_def)

end
