(* ===== verification/Report.thy ===== *)
theory Report
  imports Tiers
begin

text \<open>
  What the command line prints about keys without showing their values (\<open>src/client/status.rs\<close>,
  \<open>src/client/sources.rs\<close>): the arguments of \<open>get\<close>, the status of a key, whether the daemon's listing shows a
  grant for the caller, and the diagnostics of the configured roots. A command's output is the list of texts it
  writes, one per call, followed by its result; \<open>print_report\<close> writes them to a standard output that may fail.
\<close>

section \<open>Standard output\<close>

type_synonym stdout = "string \<Rightarrow> io_failure option"
type_synonym report = "string list \<times> (cli_error + unit)"

text \<open>The bytes written, and the result: the first write that fails ends the command.\<close>

fun print_report :: "stdout \<Rightarrow> report \<Rightarrow> string \<times> (cli_error + unit)" where
  "print_report out ([], r) = ([], r)"
| "print_report out (t # ts, r) =
     (case out t of
        Some err \<Rightarrow> ([], Inl (CliStdout err))
      | None \<Rightarrow> (case print_report out (ts, r) of (written, r') \<Rightarrow> (t @ written, r')))"

definition report_then :: "report \<Rightarrow> report \<Rightarrow> report" where
  "report_then a b = (case snd a of Inl err \<Rightarrow> a | Inr _ \<Rightarrow> (fst a @ fst b, snd b))"

definition report_line :: "string \<Rightarrow> report" where
  "report_line s = ([s @ [newline]], Inr ())"

section \<open>The status of a key\<close>

datatype get_output = GetRequest | GetStatus | GetValue

definition is_flag :: "string \<Rightarrow> bool" where
  "is_flag argument \<longleftrightarrow> argument = ''--value'' \<or> argument = ''--no-request''"

definition get_mode :: "string \<Rightarrow> get_output" where
  "get_mode flag = (if flag = ''--value'' then GetValue else GetStatus)"

fun get_arguments :: "string list \<Rightarrow> cli_error + string \<times> get_output" where
  "get_arguments [_, name] = (if \<not> is_flag name then Inr (name, GetRequest) else Inl CliUsage)"
| "get_arguments [_, a, b] =
     (if is_flag b \<and> \<not> is_flag a then Inr (a, get_mode b)
      else if is_flag a \<and> \<not> is_flag b then Inr (b, get_mode a)
      else Inl CliUsage)"
| "get_arguments _ = Inl CliUsage"

datatype tier_status = TierAgent | TierHuman (grant_active: bool)

definition quoted :: "string \<Rightarrow> string" where
  "quoted s = [CHR 0x22] @ s @ [CHR 0x22]"

fun write_status :: "secret_name \<Rightarrow> tier_status \<Rightarrow> report" where
  "write_status name TierAgent =
     report_line (''{'' @ quoted ''key'' @ '':'' @ quoted (as_str name) @ '','' @ quoted ''tier'' @ '':'' @ quoted ''agent'' @ ''}'')"
| "write_status name (TierHuman active) =
     report_line (''{'' @ quoted ''key'' @ '':'' @ quoted (as_str name) @ '','' @ quoted ''tier'' @ '':'' @ quoted ''human''
       @ '','' @ quoted ''grant'' @ '':'' @ (if active then ''true'' else ''false'') @ ''}'')"

datatype caller_scope = CallerSession | CallerTty string | CallerNone

definition caller_scope_of :: "environment \<Rightarrow> string option \<Rightarrow> caller_scope" where
  "caller_scope_of env tty =
     (if env ''SECRETSD_SESSION_TOKEN_FILE'' \<noteq> None then CallerSession
      else case tty of None \<Rightarrow> CallerNone | Some t \<Rightarrow> CallerTty t)"

fun scope_shown :: "caller_scope \<Rightarrow> string \<Rightarrow> bool" where
  "scope_shown CallerSession grant_scope = (grant_scope = ''session'')"
| "scope_shown (CallerTty tty) grant_scope = (strip_prefix ''tty '' grant_scope = Some tty)"
| "scope_shown CallerNone grant_scope = False"

definition line_shows :: "secret_name \<Rightarrow> caller_scope \<Rightarrow> string \<Rightarrow> bool" where
  "line_shows name scope line =
     (case split_on tab line of
        [key, grant_scope, _] \<Rightarrow> key = as_str name \<and> scope_shown scope grant_scope
      | _ \<Rightarrow> False)"

definition active_grant :: "caller_scope \<Rightarrow> secret_name \<Rightarrow> string \<Rightarrow> cli_error + bool" where
  "active_grant scope name grants =
     and_then (ok_or (CliError_from_client CeInvalidResponse) (from_utf8 grants)) (\<lambda>listing.
       Inr (list_ex (line_shows name scope) (lines listing)))"

section \<open>The configured roots\<close>

definition key_label :: "nat \<Rightarrow> string" where
  "key_label n = (if n = 1 then ''key'' else ''keys'')"

record key_files =
  kf_committed :: bool
  kf_local :: bool

record human_counts =
  hn_keys :: "key_files btree"
  hn_invalid :: "string list"

text \<open>An entry of a map that is inserted where it is absent, and then changed.\<close>

definition btree_modify :: "secret_name \<Rightarrow> 'v \<Rightarrow> ('v \<Rightarrow> 'v) \<Rightarrow> 'v btree \<Rightarrow> 'v btree" where
  "btree_modify k v0 f m = map (\<lambda>(k', v). (k', if k' = k then f v else v)) (btree_or_insert k v0 m)"

definition count_entry :: "string \<Rightarrow> human_counts \<Rightarrow> human_counts" where
  "count_entry raw counts =
     (case from_utf8 raw of
        None \<Rightarrow> counts\<lparr>hn_invalid := hn_invalid counts @ [to_string_lossy raw]\<rparr>
      | Some t \<Rightarrow>
          (case parse_human_file_name t of
             Ignored \<Rightarrow> counts
           | Invalid \<Rightarrow> counts\<lparr>hn_invalid := hn_invalid counts @ [t]\<rparr>
           | Key name is_local \<Rightarrow>
               counts\<lparr>hn_keys := btree_modify name \<lparr>kf_committed = False, kf_local = False\<rparr>
                 (\<lambda>files. if is_local then files\<lparr>kf_local := True\<rparr> else files\<lparr>kf_committed := True\<rparr>) (hn_keys counts)\<rparr>))"

definition human_counts_of :: "client_fs \<Rightarrow> string \<Rightarrow> cli_error + human_counts" where
  "human_counts_of fs path =
     and_then (sorted_entries fs path) (\<lambda>entries. Inr (fold count_entry entries \<lparr>hn_keys = [], hn_invalid = []\<rparr>))"

definition write_agent_count :: "client_fs \<Rightarrow> string \<Rightarrow> string \<Rightarrow> report" where
  "write_agent_count fs label path =
     (if \<not> cfs_is_file fs path then report_line (''  '' @ label @ '': absent'')
      else case AgentStore_names_in fs path of
          Inr names \<Rightarrow>
            let n = card (set names) in
            report_line (''  '' @ label @ '': '' @ nat_to_string n @ '' '' @ key_label n)
        | Inl err \<Rightarrow> report_line (''  '' @ label @ '': unreadable ('' @ CliError_fmt err @ '')''))"

definition write_human_count :: "client_fs \<Rightarrow> string \<Rightarrow> report" where
  "write_human_count fs path =
     (if \<not> cfs_is_dir fs path then report_line (''  secrets.human.d: absent'')
      else case human_counts_of fs path of
          Inl err \<Rightarrow> ([], Inl err)
        | Inr counts \<Rightarrow>
            let local_only = length (filter (\<lambda>(_, files). kf_local files \<and> \<not> kf_committed files) (hn_keys counts));
                n = length (hn_keys counts)
            in ([''  secrets.human.d: '' @ nat_to_string n @ '' '' @ key_label n @ '' ('' @ nat_to_string local_only @ '' local)'' @ [newline]]
                @ map (\<lambda>(name, _). ''  warning: key '' @ as_str name @ '' has both committed and local files'' @ [newline])
                    (filter (\<lambda>(_, files). kf_committed files \<and> kf_local files) (hn_keys counts))
                @ map (\<lambda>invalid. ''  warning: invalid human file name '' @ invalid @ [newline]) (hn_invalid counts),
                Inr ()))"

definition write_source :: "client_fs \<Rightarrow> source_root \<Rightarrow> report" where
  "write_source fs root =
     (case SourceRoot_agent_files root of
        [local_file, shared] \<Rightarrow>
          report_then (report_line (''source '' @ so_name root @ '': '' @ to_string_lossy (so_path root)))
          (report_then (write_agent_count fs ''secrets.env'' shared)
          (report_then (write_agent_count fs ''secrets.local.env'' local_file)
             (write_human_count fs (SourceRoot_human_dir root))))
      | _ \<Rightarrow> ([], Inr ()))"

definition sources_run :: "environment \<Rightarrow> config_files \<Rightarrow> toml_reader \<Rightarrow> client_fs \<Rightarrow> report" where
  "sources_run env files toml fs =
     (case Sources_config_path env of
        Inl err \<Rightarrow> ([], Inl (CliConfig err))
      | Inr config_path \<Rightarrow>
          (case Sources_load env files toml of
             Inl err \<Rightarrow> ([], Inl (CliConfig err))
           | Inr sources \<Rightarrow>
               foldl report_then (report_line (''config: '' @ to_string_lossy config_path)) (map (write_source fs) (so_roots sources))))"

section \<open>The daemon's listing, read back\<close>

text \<open>Grants whose rows can be read back: key names, and terminals without a tab or a line break, in ASCII.\<close>

definition renders :: "grant \<Rightarrow> bool" where
  "renders g \<longleftrightarrow> valid_name (as_str (gr_key g))
     \<and> (case gr_scope g of Session _ \<Rightarrow> True | Tty tty _ \<Rightarrow> list_all is_ascii tty \<and> tab \<notin> set tty \<and> newline \<notin> set tty)"

fun scope_text :: "scope \<Rightarrow> string" where
  "scope_text (Session _) = ''session''"
| "scope_text (Tty tty _) = ''tty '' @ tty"

fun matches :: "caller_scope \<Rightarrow> scope \<Rightarrow> bool" where
  "matches CallerSession (Session _) = True"
| "matches (CallerTty t) (Tty tty _) = (t = tty)"
| "matches _ _ = False"

definition row_text :: "instant \<Rightarrow> grant \<Rightarrow> string" where
  "row_text now g = as_str (gr_key g) @ [tab] @ scope_text (gr_scope g) @ [tab]
     @ nat_to_string (as_secs (duration_since now (gr_created g))) @ ''s''"

lemma render_row_text: "render_row now g = row_text now g @ [newline]"
  by (simp add: render_row_def row_text_def split: scope.split)

lemma shown_matches: "scope_shown c (scope_text s) \<longleftrightarrow> matches c s"
  by (cases c; cases s) (auto simp: strip_prefix_Some)

lemma name_ascii: "valid_name s \<Longrightarrow> list_all is_ascii s \<and> tab \<notin> set s \<and> newline \<notin> set s"
  using not_name_char valid_name_chars by (auto simp: list_all_iff intro: is_ascii_name_char)

lemma nat_to_string_ascii: "list_all is_ascii (nat_to_string n) \<and> tab \<notin> set (nat_to_string n)"
  using nat_to_string_digits [of n] by (auto simp: list_all_iff is_ascii_digit_def is_ascii_def tab_def byte_val_def)

lemma literal_chars: "list_all is_ascii ''session''" "list_all is_ascii ''tty ''" "tab \<notin> set ''session''" "tab \<notin> set ''tty ''"
  "newline \<notin> set ''session''" "newline \<notin> set ''tty ''"
  by code_simp+

lemma scope_text_ok: "renders g \<Longrightarrow> list_all is_ascii (scope_text (gr_scope g)) \<and> tab \<notin> set (scope_text (gr_scope g))
    \<and> newline \<notin> set (scope_text (gr_scope g))"
  using literal_chars by (cases "gr_scope g") (auto simp: renders_def)

lemma row_text_ok:
  assumes "renders g"
  shows "list_all is_ascii (row_text now g)" "newline \<notin> set (row_text now g)" "last (row_text now g) \<noteq> carriage_return"
    "line_shows name c (row_text now g) \<longleftrightarrow> gr_key g = name \<and> matches c (gr_scope g)"
proof -
  let ?age = "nat_to_string (as_secs (duration_since now (gr_created g)))"
  have n: "valid_name (as_str (gr_key g))" using assms by (simp add: renders_def)
  have s: "is_ascii CHR ''s''" "CHR ''s'' \<noteq> tab" "CHR ''s'' \<noteq> newline" "CHR ''s'' \<noteq> carriage_return" "tab \<noteq> newline" by code_simp+
  note parts = name_ascii [OF n] scope_text_ok [OF assms] nat_to_string_ascii [of "as_secs (duration_since now (gr_created g))"]
    nat_to_string_no_newline [of "as_secs (duration_since now (gr_created g))"]
  show "list_all is_ascii (row_text now g)" "newline \<notin> set (row_text now g)" "last (row_text now g) \<noteq> carriage_return"
    using parts s is_ascii_tab by (auto simp: row_text_def)
  have "split_on tab (row_text now g) = [as_str (gr_key g), scope_text (gr_scope g), ?age @ ''s'']"
    using parts s by (simp add: row_text_def)
  then show "line_shows name c (row_text now g) \<longleftrightarrow> gr_key g = name \<and> matches c (gr_scope g)"
    by (simp add: line_shows_def shown_matches secret_name.expand) (metis secret_name.expand)
qed

lemma header_rows:
  "list_all is_ascii (''KEY'' @ [tab] @ ''SCOPE'' @ [tab] @ ''AGE'' @ [newline])" "list_all is_ascii (''no active grants'' @ [newline])"
  "lines (''no active grants'' @ [newline]) = [''no active grants'']"
  "split_on tab ''no active grants'' = [''no active grants'']"
  "split_on tab (''KEY'' @ [tab] @ ''SCOPE'' @ [tab] @ ''AGE'') = [''KEY'', ''SCOPE'', ''AGE'']"
  "newline \<notin> set (''KEY'' @ [tab] @ ''SCOPE'' @ [tab] @ ''AGE'')" "strip_prefix ''tty '' ''SCOPE'' = None"
  "last (''KEY'' @ [tab] @ ''SCOPE'' @ [tab] @ ''AGE'') \<noteq> carriage_return"
  by code_simp+

lemma header_not_shown: "\<not> line_shows name c (''KEY'' @ [tab] @ ''SCOPE'' @ [tab] @ ''AGE'')"
  using header_rows(5,7) by (cases c) (simp_all add: line_shows_def)

lemma active_grant_render:
  assumes "\<forall>g \<in> set (gt_grants t). renders g"
  shows "active_grant c name (GrantTable_render now t) =
    Inr (\<exists>g \<in> set (gt_grants t). gr_key g = name \<and> matches c (gr_scope g))"
proof (cases "gt_grants t = []")
  case True
  then show ?thesis
    using header_rows(2-4) from_utf8_ascii
    by (simp add: active_grant_def GrantTable_render_def line_shows_def del: append.simps)
next
  case False
  let ?h = "''KEY'' @ [tab] @ ''SCOPE'' @ [tab] @ ''AGE''"
  let ?rows = "?h # map (row_text now) (gt_grants t)"
  have r: "GrantTable_render now t = concat (map (\<lambda>r. r @ [newline]) ?rows)"
    using False by (simp add: GrantTable_render_def render_row_text [abs_def] comp_def)
  have "lines (concat (map (\<lambda>r. r @ [newline]) ?rows)) = ?rows"
    by (rule lines_rows) (use assms row_text_ok header_rows in \<open>auto simp del: append.simps\<close>)
  moreover have "list_all is_ascii (concat (map (\<lambda>r. r @ [newline]) ?rows))"
    using assms row_text_ok(1) header_rows(1) by (auto simp: list_all_iff)
  ultimately show ?thesis
    using r from_utf8_ascii header_not_shown assms row_text_ok(4)
    by (auto simp: active_grant_def list_ex_iff simp del: append.simps)
qed

text \<open>The status of a key follows the daemon's listing. The listing the daemon renders, read back by the
  client, shows a grant as active exactly when the table has a grant of that key for the caller's terminal or,
  for a caller with a session token, for a session; a caller with neither never sees one.\<close>

theorem active_grant_reads_listing:
  assumes "\<forall>g \<in> set (gt_grants t). renders g"
  shows "active_grant c name (GrantTable_render now t) =
    Inr (\<exists>g \<in> set (gt_grants t). gr_key g = name \<and> matches c (gr_scope g))"
  using assms by (rule active_grant_render)

definition sample_grant :: "scope \<Rightarrow> string \<Rightarrow> grant" where
  "sample_grant s key =
     \<lparr>gr_scope = s, gr_key = SecretName key, gr_value = ''v'',
      gr_origin = \<lparr>go_source = ''test'', go_identity = \<lparr>fi_device = 1, fi_inode = 2, fi_size = 3,
        fi_modified = \<lparr>ts_seconds = 0, ts_nanoseconds = 0\<rparr>, fi_changed = \<lparr>ts_seconds = 0, ts_nanoseconds = 0\<rparr>\<rparr>\<rparr>,
      gr_created = 0\<rparr>"

lemma sample_renders: "renders (sample_grant (Tty ''/dev/pts/3'' ''boot'') ''DB'')"
  "renders (sample_grant (Session (SessionToken [1])) ''DB'')"
  by code_simp+

theorem active_grant_reads_listing_witness:
  "active_grant (CallerTty ''/dev/pts/3'') (SecretName ''DB'')
     (GrantTable_render 0 \<lparr>gt_grants = [sample_grant (Tty ''/dev/pts/3'' ''boot'') ''DB'']\<rparr>) = Inr True"
  using active_grant_reads_listing [of "\<lparr>gt_grants = [sample_grant (Tty ''/dev/pts/3'' ''boot'') ''DB'']\<rparr>"
      "CallerTty ''/dev/pts/3''" "SecretName ''DB''" 0] sample_renders
  by (simp add: sample_grant_def)

text \<open>C30: The listing does not tell sessions apart. When any session holds a grant of a key, a caller of another
  session, which holds none, is told that a grant is active, although a \<open>GET\<close> of it would start a ceremony.\<close>

theorem status_shows_other_sessions_grant:
  assumes "\<forall>g \<in> set (gt_grants t). renders g"
    and "GrantTable_lookup t (Session other) name \<noteq> None" and "GrantTable_lookup t (Session mine) name = None"
  shows "active_grant CallerSession name (GrantTable_render now t) = Inr True"
proof -
  obtain g where "find_grant t (Session other) name = Some g" using assms(2) by (auto simp: GrantTable_lookup_def)
  then have "g \<in> set (gt_grants t)" "gr_key g = name" "gr_scope g = Session other"
    by (auto simp: find_grant_def find_Some_iff)
  then have "\<exists>g \<in> set (gt_grants t). gr_key g = name \<and> matches CallerSession (gr_scope g)" by (metis matches.simps(1))
  with active_grant_render [OF assms(1), of CallerSession name now] show ?thesis by simp
qed

theorem status_shows_other_sessions_grant_witness:
  "active_grant CallerSession (SecretName ''DB'')
     (GrantTable_render 0 \<lparr>gt_grants = [sample_grant (Session (SessionToken [1])) ''DB'']\<rparr>) = Inr True
   \<and> GrantTable_lookup \<lparr>gt_grants = [sample_grant (Session (SessionToken [1])) ''DB'']\<rparr> (Session (SessionToken [2])) (SecretName ''DB'') = None"
proof -
  let ?t = "\<lparr>gt_grants = [sample_grant (Session (SessionToken [1])) ''DB'']\<rparr>"
  have l: "GrantTable_lookup ?t (Session (SessionToken [1])) (SecretName ''DB'') \<noteq> None"
    "GrantTable_lookup ?t (Session (SessionToken [2])) (SecretName ''DB'') = None"
    by (simp_all add: GrantTable_lookup_def find_grant_def sample_grant_def)
  have r: "\<forall>g \<in> set (gt_grants ?t). renders g" using sample_renders by simp
  show ?thesis using status_shows_other_sessions_grant [OF r l, of 0] l by simp
qed

section \<open>Counting the files of a directory\<close>

lemma map_of_btree_modify:
  assumes "btree_ok m"
  shows "map_of (btree_modify k v0 f m) k' =
    (if k' = k then Some (f (case map_of m k of None \<Rightarrow> v0 | Some v \<Rightarrow> v)) else map_of m k')"
proof -
  have "map_of (map (\<lambda>(k', v). (k', if k' = k then f v else v)) xs) k' =
      map_option (\<lambda>v. if k' = k then f v else v) (map_of xs k')" for xs
    by (induction xs) auto
  then show ?thesis
    unfolding btree_modify_def using btree.lookup_or_insert [OF assms] by (auto simp: option.map_ident split: option.split)
qed

lemma btree_ok_modify: "btree_ok m \<Longrightarrow> btree_ok (btree_modify k v0 f m)"
proof -
  assume "btree_ok m"
  then have "btree_ok (btree_or_insert k v0 m)" by (rule btree.inv_or_insert)
  then show ?thesis by (simp add: btree_ok_def btree_modify_def split_def comp_def)
qed

text \<open>The files of a key among raw names: its committed one and its local one.\<close>

definition key_files_in :: "string list \<Rightarrow> secret_name \<Rightarrow> key_files option" where
  "key_files_in es n =
     (if valid_name (as_str n) \<and> (file_name n \<in> set es \<or> local_file_name n \<in> set es)
      then Some \<lparr>kf_committed = file_name n \<in> set es, kf_local = local_file_name n \<in> set es\<rparr> else None)"

lemma count_entry_keys:
  assumes "btree_ok (hn_keys c)" and "map_of (hn_keys c) n = key_files_in es n"
  shows "btree_ok (hn_keys (count_entry e c)) \<and> map_of (hn_keys (count_entry e c)) n = key_files_in (e # es) n"
proof (cases "from_utf8 e = Some e \<and> (\<exists>k l. parse_human_file_name e = Key k l)")
  case True
  then obtain k l where p: "from_utf8 e = Some e" "parse_human_file_name e = Key k l" by blast
  then have k: "valid_name (as_str k)" "e = encode_file (k, l)" by (simp_all add: parse_human_file_name_Key encode_file_def)
  have "e = file_name n \<longleftrightarrow> k = n \<and> \<not> l" "e = local_file_name n \<longleftrightarrow> k = n \<and> l" if "valid_name (as_str n)"
    using human_file.encode_inject [of "(k, l)" "(n, False)"] human_file.encode_inject [of "(k, l)" "(n, True)"] k that
    by (auto simp: encode_file_def split: if_splits)
  with p k assms show ?thesis
    by (auto simp: count_entry_def btree_ok_modify map_of_btree_modify key_files_in_def)
next
  case False
  then have "hn_keys (count_entry e c) = hn_keys c"
    by (auto simp: count_entry_def split: option.splits human_file_name.splits dest: from_utf8_Some)
  moreover have "e \<noteq> encode_file (n, l)" if "valid_name (as_str n)" for l
  proof -
    have "parse_human_file_name (encode_file (n, l)) = Key n l" using that by (simp add: parse_human_file_name_Key encode_file_def)
    with False from_utf8_encode_file [OF that, of l] show ?thesis by auto
  qed
  from this [of False] this [of True] have "key_files_in (e # es) n = key_files_in es n"
    by (auto simp: key_files_in_def encode_file_def)
  ultimately show ?thesis using assms by simp
qed

lemma key_files_in_perm: "set es = set es' \<Longrightarrow> key_files_in es n = key_files_in es' n"
  by (simp add: key_files_in_def)

lemma fold_count_entry:
  assumes "btree_ok (hn_keys c)" and "map_of (hn_keys c) n = key_files_in done n"
  shows "btree_ok (hn_keys (fold count_entry es c)) \<and> map_of (hn_keys (fold count_entry es c)) n = key_files_in (es @ done) n"
  using assms
proof (induction es arbitrary: c "done")
  case (Cons e es)
  with count_entry_keys [OF Cons.prems, of e] Cons.IH [of "count_entry e c" "e # done"] show ?case
    using key_files_in_perm [of "es @ e # done" "(e # es) @ done" n] by auto
qed simp

text \<open>The diagnostics count the files that are there. For a directory that can be listed, the keys counted
  are exactly the valid names with a committed or a local file in it, each once and in order, and each with
  the right one of the two, or both.\<close>

theorem human_counts_exact:
  assumes "cfs_read_dir fs path = Inr (map Inr es)" and "human_counts_of fs path = Inr counts"
  shows "map_of (hn_keys counts) n = key_files_in es n \<and> sorted (map fst (hn_keys counts)) \<and> distinct (map fst (hn_keys counts))"
proof -
  have "counts = fold count_entry (sort es) \<lparr>hn_keys = [], hn_invalid = []\<rparr>"
    using assms by (auto simp: human_counts_of_def sorted_entries_def and_then_Inr map_err_def collect_results_Inr split: sum.splits)
  with fold_count_entry [of "\<lparr>hn_keys = [], hn_invalid = []\<rparr>" n "[]" "sort es"] show ?thesis
    using key_files_in_perm [of "sort es" es n] by (simp add: btree_ok_def key_files_in_def)
qed

theorem human_counts_exact_witness:
  "let fs = \<lparr>cfs_is_file = \<lambda>_. True, cfs_read = \<lambda>_. Inr [], cfs_is_dir = \<lambda>_. True,
             cfs_read_dir = \<lambda>_. Inr (map Inr [''B.env'', ''A.local.env'', ''A.env'', ''README''])\<rparr>;
       counts = \<lparr>hn_keys = [(SecretName ''A'', \<lparr>kf_committed = True, kf_local = True\<rparr>),
                            (SecretName ''B'', \<lparr>kf_committed = True, kf_local = False\<rparr>)], hn_invalid = []\<rparr> in
   human_counts_of fs ''/h'' = Inr counts
   \<and> map_of (hn_keys counts) (SecretName ''A'') = key_files_in [''B.env'', ''A.local.env'', ''A.env'', ''README''] (SecretName ''A'')"
proof -
  let ?es = "[''B.env'', ''A.local.env'', ''A.env'', ''README'']"
  let ?fs = "\<lparr>cfs_is_file = \<lambda>_. True, cfs_read = \<lambda>_. Inr [], cfs_is_dir = \<lambda>_. True, cfs_read_dir = \<lambda>_. Inr (map Inr ?es)\<rparr>"
  let ?counts = "\<lparr>hn_keys = [(SecretName ''A'', \<lparr>kf_committed = True, kf_local = True\<rparr>),
      (SecretName ''B'', \<lparr>kf_committed = True, kf_local = False\<rparr>)], hn_invalid = []\<rparr>"
  have c: "human_counts_of ?fs ''/h'' = Inr ?counts" by code_simp
  have r: "cfs_read_dir ?fs ''/h'' = Inr (map Inr ?es)" by simp
  from human_counts_exact [OF r c, of "SecretName ''A''"] c show ?thesis by (simp add: Let_def)
qed

end
