(* ===== verification/Edit.thy ===== *)
theory Edit
  imports Tiers
begin

text \<open>
  The edit commands up to the file they act on (\<open>src/client/edit.rs\<close>): flags, the choice of a source root, and
  the path of an existing or a new key. What then happens to the file is an \<open>edit_action\<close>, carried out by the
  definitions of the theory \<open>EditNew\<close>. The lemmas give the exact flags a command accepts and show that an edit
  never adds a second file for a key that has one.
\<close>

section \<open>Arguments\<close>

definition parse_name :: "string \<Rightarrow> cli_error + secret_name" where
  "parse_name raw =
     and_then (ok_or CliInvalidSecretName (from_utf8 raw)) (\<lambda>name.
       map_err (\<lambda>_. CliInvalidSecretName) (SecretName_parse name))"

definition argument_at :: "string list \<Rightarrow> nat \<Rightarrow> cli_error + string" where
  "argument_at arguments index = (if index < length arguments then Inr (arguments ! index) else Inl CliUsage)"

record edit_flags =
  ef_source :: "string option"
  ef_local :: bool

text \<open>The loop of \<open>edit_arguments\<close>: a \<open>--source\<close> takes the argument after it.\<close>

fun edit_flags_loop :: "bool \<Rightarrow> edit_flags \<Rightarrow> string list \<Rightarrow> cli_error + edit_flags" where
  "edit_flags_loop accepts_local flags [] = Inr flags"
| "edit_flags_loop accepts_local flags (flag # rest) =
     (if flag = ''--source'' then
        (case rest of
           [] \<Rightarrow> Inl CliUsage
         | v # rest' \<Rightarrow>
             if ef_source flags \<noteq> None \<or> (from_utf8 v \<noteq> None \<and> prefix ''--'' v) then Inl CliUsage
             else edit_flags_loop accepts_local (flags\<lparr>ef_source := Some v\<rparr>) rest')
      else if accepts_local \<and> flag = ''--local'' then
        if ef_local flags then Inl CliUsage else edit_flags_loop accepts_local (flags\<lparr>ef_local := True\<rparr>) rest
      else Inl CliUsage)"

declare edit_flags_loop.simps [simp del]

definition edit_arguments :: "string list \<Rightarrow> nat \<Rightarrow> bool \<Rightarrow> cli_error + edit_flags" where
  "edit_arguments arguments flag_start accepts_local =
     (if length arguments < flag_start then Inl CliUsage
      else edit_flags_loop accepts_local \<lparr>ef_source = None, ef_local = False\<rparr> (drop flag_start arguments))"

section \<open>Choosing a root\<close>

fun join_strings :: "string \<Rightarrow> string list \<Rightarrow> string" where
  "join_strings sep [] = []"
| "join_strings sep [s] = s"
| "join_strings sep (s # t # ss) = s @ sep @ join_strings sep (t # ss)"

definition source_names :: "sources \<Rightarrow> string" where
  "source_names sources = join_strings '', '' (map so_name (so_roots sources))"

definition select_named_root :: "sources \<Rightarrow> string \<Rightarrow> cli_error + source_root" where
  "select_named_root sources raw =
     and_then (ok_or CliUsage (from_utf8 raw)) (\<lambda>source.
       ok_or (CliUnknownEditSource source (source_names sources)) (find (\<lambda>root. so_name root = source) (so_roots sources)))"

definition select_root :: "sources \<Rightarrow> string option \<Rightarrow> cli_error + source_root" where
  "select_root sources source =
     (case source of
        None \<Rightarrow>
          (case so_roots sources of
             [root] \<Rightarrow> Inr root
           | [] \<Rightarrow> Inl (CliConfig NoRoots)
           | _ \<Rightarrow> Inl (CliEditSourceRequired (source_names sources)))
      | Some source \<Rightarrow> select_named_root sources source)"

section \<open>Choosing a file\<close>

record existing_human_edit =
  eh_name :: secret_name
  eh_location :: human_location
  eh_flags :: edit_flags

definition existing_human_path :: "sources \<Rightarrow> existing_human_edit \<Rightarrow> cli_error + string" where
  "existing_human_path sources e =
     (let label = hl_label (eh_location e);
          actual_source = (case strip_suffix ''.local'' label of Some s \<Rightarrow> s | None \<Rightarrow> label);
          conflict = CliEditConflict (eh_name e) label;
          actual_local = (label \<noteq> actual_source)
      in and_then (case ef_source (eh_flags e) of
                     None \<Rightarrow> Inr ()
                   | Some source \<Rightarrow>
                       and_then (select_named_root sources source) (\<lambda>selected.
                         if so_name selected \<noteq> actual_source then Inl conflict else Inr ())) (\<lambda>_.
           if ef_local (eh_flags e) \<and> \<not> actual_local then Inl conflict else Inr (hl_path (eh_location e))))"

text \<open>\<open>create_dir_all\<close> may fail.\<close>

definition new_human_path :: "(string \<Rightarrow> io_failure option) \<Rightarrow> sources \<Rightarrow> secret_name \<Rightarrow> edit_flags \<Rightarrow> cli_error + string" where
  "new_human_path create_dir_all sources name flags =
     and_then (select_root sources (ef_source flags)) (\<lambda>root.
       case create_dir_all (SourceRoot_human_dir root) of
         Some err \<Rightarrow> Inl (CliHumanDirectory err)
       | None \<Rightarrow>
           Inr (path_join (SourceRoot_human_dir root) (if ef_local flags then local_file_name name else file_name name)))"

section \<open>The commands\<close>

datatype edit_action =
    EditExisting string
  | NewAgent string bool
  | NewHuman string secret_name
  | WritePiped string secret_name

definition edit_agent :: "(string \<Rightarrow> bool) \<Rightarrow> sources \<Rightarrow> string list \<Rightarrow> bool \<Rightarrow> cli_error + edit_action" where
  "edit_agent path_exists sources arguments is_local =
     and_then (edit_arguments arguments 1 False) (\<lambda>flags.
     and_then (select_root sources (ef_source flags)) (\<lambda>root.
       case SourceRoot_agent_files root of
         [local_path, shared_path] \<Rightarrow>
           let path = (if is_local then local_path else shared_path) in
           Inr (if path_exists path then EditExisting path else NewAgent path is_local)
       | _ \<Rightarrow> Inl CliUsage))"

definition edit_human ::
  "(string \<Rightarrow> io_failure option) \<Rightarrow> bool \<Rightarrow> sources \<Rightarrow> human_names \<Rightarrow> string list \<Rightarrow> cli_error + edit_action" where
  "edit_human create_dir_all piped sources human arguments =
     and_then (argument_at arguments 1) (\<lambda>raw.
     and_then (parse_name raw) (\<lambda>name.
     and_then (edit_arguments arguments 2 True) (\<lambda>flags.
       case HumanNames_location human name of
         Some location \<Rightarrow>
           and_then (existing_human_path sources \<lparr>eh_name = name, eh_location = location, eh_flags = flags\<rparr>) (\<lambda>path.
             Inr (if piped then WritePiped path name else EditExisting path))
       | None \<Rightarrow>
           and_then (new_human_path create_dir_all sources name
                       (if piped then \<lparr>ef_source = ef_source flags, ef_local = True\<rparr> else flags)) (\<lambda>path.
             Inr (if piped then WritePiped path name else NewHuman path name)))))"

section \<open>The flags that are accepted\<close>

text \<open>A value for \<open>--source\<close> that does not look like a flag.\<close>

definition source_value :: "string \<Rightarrow> bool" where
  "source_value v \<longleftrightarrow> \<not> (from_utf8 v \<noteq> None \<and> prefix ''--'' v)"

lemma local_not_source: "''--local'' \<noteq> ''--source''" by simp

lemma edit_flags_loop_full:
  "edit_flags_loop accepts_local \<lparr>ef_source = Some s, ef_local = True\<rparr> rest = Inr f \<longleftrightarrow>
     rest = [] \<and> f = \<lparr>ef_source = Some s, ef_local = True\<rparr>"
  by (cases rest) (auto simp: edit_flags_loop.simps split: list.split)

lemma edit_flags_loop_source:
  "edit_flags_loop accepts_local \<lparr>ef_source = Some s, ef_local = False\<rparr> rest = Inr f \<longleftrightarrow>
     (rest = [] \<and> f = \<lparr>ef_source = Some s, ef_local = False\<rparr>)
     \<or> (accepts_local \<and> rest = [''--local''] \<and> f = \<lparr>ef_source = Some s, ef_local = True\<rparr>)"
  by (cases rest) (auto simp: edit_flags_loop.simps edit_flags_loop_full split: list.split)

lemma edit_flags_loop_local:
  "edit_flags_loop accepts_local \<lparr>ef_source = None, ef_local = True\<rparr> rest = Inr f \<longleftrightarrow>
     (rest = [] \<and> f = \<lparr>ef_source = None, ef_local = True\<rparr>)
     \<or> (\<exists>v. rest = [''--source'', v] \<and> source_value v \<and> f = \<lparr>ef_source = Some v, ef_local = True\<rparr>)"
  by (cases rest) (auto simp: edit_flags_loop.simps edit_flags_loop_full source_value_def split: list.split)

lemma edit_flags_loop_start:
  "edit_flags_loop accepts_local \<lparr>ef_source = None, ef_local = False\<rparr> rest = Inr f \<longleftrightarrow>
     (rest = [] \<and> f = \<lparr>ef_source = None, ef_local = False\<rparr>)
     \<or> (\<exists>v. rest = [''--source'', v] \<and> source_value v \<and> f = \<lparr>ef_source = Some v, ef_local = False\<rparr>)
     \<or> (accepts_local \<and> rest = [''--local''] \<and> f = \<lparr>ef_source = None, ef_local = True\<rparr>)
     \<or> (accepts_local \<and> (\<exists>v. (rest = [''--source'', v, ''--local''] \<or> rest = [''--local'', ''--source'', v]) \<and> source_value v
          \<and> f = \<lparr>ef_source = Some v, ef_local = True\<rparr>))"
  by (cases rest)
     (auto simp: edit_flags_loop.simps edit_flags_loop_source edit_flags_loop_local source_value_def split: list.split)

section \<open>Where an edit goes\<close>

lemma parse_name_Inr: "parse_name raw = Inr name \<Longrightarrow> raw = as_str name \<and> valid_name (as_str name)"
proof -
  assume "parse_name raw = Inr name"
  then obtain t where t: "from_utf8 raw = Some t" "map_err (\<lambda>_. CliInvalidSecretName) (SecretName_parse t) = Inr name"
    by (auto simp: parse_name_def and_then_Inr ok_or_Inr)
  then have "SecretName_parse t = Inr name" by (cases "SecretName_parse t") (auto simp: map_err_def)
  with t(1) show ?thesis by (auto simp: SecretName_parse_Inr dest: from_utf8_Some)
qed

fun action_path :: "edit_action \<Rightarrow> string" where
  "action_path (EditExisting path) = path"
| "action_path (NewAgent path _) = path"
| "action_path (NewHuman path _) = path"
| "action_path (WritePiped path _) = path"

lemma select_named_root_in: "select_named_root sources raw = Inr root \<Longrightarrow> root \<in> set (so_roots sources) \<and> so_name root = raw"
  by (auto simp: select_named_root_def and_then_Inr ok_or_Inr find_Some_iff dest: from_utf8_Some)

lemma select_root_in: "select_root sources source = Inr root \<Longrightarrow> root \<in> set (so_roots sources)"
  by (cases source) (auto simp: select_root_def dest: select_named_root_in split: list.splits)

lemma existing_human_path_location: "existing_human_path sources e = Inr path \<Longrightarrow> path = hl_path (eh_location e)"
  by (auto simp: existing_human_path_def Let_def and_then_Inr split: if_splits)

text \<open>C28: Editing a human key never gives it a second home. An edit of a key that is listed acts on the one file
  it is listed with, whatever flags are given. An edit of a key that is not listed acts on the file that backs
  the key in one of the configured roots, which the file-name parser reads back as this key; a value that is
  piped in then goes to the machine-local file.\<close>

theorem edit_human_one_home:
  assumes "edit_human create_dir_all piped sources human arguments = Inr action"
  shows "\<exists>name. parse_name (arguments ! 1) = Inr name \<and>
    (case HumanNames_location human name of
       Some location \<Rightarrow> action = (if piped then WritePiped (hl_path location) name else EditExisting (hl_path location))
     | None \<Rightarrow> \<exists>root is_local. root \<in> set (so_roots sources)
          \<and> action = (if piped then WritePiped else NewHuman) (path_join (SourceRoot_human_dir root) (encode_file (name, is_local))) name
          \<and> parse_human_file_name (encode_file (name, is_local)) = Key name is_local \<and> (piped \<longrightarrow> is_local))"
proof -
  obtain name flags where a: "parse_name (arguments ! 1) = Inr name" "edit_arguments arguments 2 True = Inr flags"
    using assms by (auto simp: edit_human_def and_then_Inr argument_at_def split: if_splits)
  then have v: "valid_name (as_str name)" using parse_name_Inr by blast
  have r: "\<exists>root is_local. root \<in> set (so_roots sources) \<and> path = path_join (SourceRoot_human_dir root) (encode_file (name, is_local))
      \<and> parse_human_file_name (encode_file (name, is_local)) = Key name is_local \<and> is_local = ef_local fl"
    if "new_human_path create_dir_all sources name fl = Inr path" for fl path
    using that v select_root_in
    by (force simp: new_human_path_def and_then_Inr encode_file_def parse_human_file_name_Key split: option.splits)
  show ?thesis
  proof (intro exI [of _ name] conjI)
    show "case HumanNames_location human name of
       Some location \<Rightarrow> action = (if piped then WritePiped (hl_path location) name else EditExisting (hl_path location))
     | None \<Rightarrow> \<exists>root is_local. root \<in> set (so_roots sources)
          \<and> action = (if piped then WritePiped else NewHuman) (path_join (SourceRoot_human_dir root) (encode_file (name, is_local))) name
          \<and> parse_human_file_name (encode_file (name, is_local)) = Key name is_local \<and> (piped \<longrightarrow> is_local)"
    proof (cases "HumanNames_location human name")
      case None
      then obtain fl path where "new_human_path create_dir_all sources name fl = Inr path" "piped \<longrightarrow> ef_local fl"
        "action = (if piped then WritePiped path name else NewHuman path name)"
        using assms a by (auto simp: edit_human_def and_then_Inr argument_at_def split: if_splits)
      with r [of fl path] None show ?thesis by auto
    next
      case (Some location)
      with assms a show ?thesis
        by (auto simp: edit_human_def and_then_Inr argument_at_def split: if_splits dest!: existing_human_path_location)
    qed
  qed (rule a)
qed

theorem edit_human_one_home_witness:
  "\<exists>name root is_local. parse_name ''K'' = Inr name
     \<and> WritePiped ''/r/secrets.human.d/K.local.env'' (SecretName ''K'') =
         WritePiped (path_join (SourceRoot_human_dir root) (encode_file (name, is_local))) name
     \<and> parse_human_file_name (encode_file (name, is_local)) = Key name is_local \<and> is_local"
proof -
  let ?args = "[''edit-human'', ''K'']" and ?sources = "\<lparr>so_roots = [\<lparr>so_name = ''dots'', so_path = ''/r''\<rparr>]\<rparr>"
  have e: "edit_human (\<lambda>_. None) True ?sources [] ?args = Inr (WritePiped ''/r/secrets.human.d/K.local.env'' (SecretName ''K''))"
    by code_simp
  from edit_human_one_home [OF e] show ?thesis by (auto simp: HumanNames_location_def)
qed

end
