(* ===== verification/EditNew.thy ===== *)
theory EditNew
  imports Edit
begin

text \<open>
  Creating and rotating an encrypted file (\<open>src/client/edit/new.rs\<close>). A disk maps names to inodes and inodes to
  bytes, so that a file an editor replaces stays visible as the inode it was; the bytes of an inode outlive its
  name. Every system call that may fail is an argument, and so are the editor, any change of the disk, and
  \<open>sops\<close>. The lemmas show what is left of the plaintext on every way out, that only what \<open>sops\<close> printed is ever
  installed, and that a piped value is the one the daemon will read.
\<close>

section \<open>Disks\<close>

record disk =
  dk_inodes :: "nat \<Rightarrow> string"
  dk_names :: "string \<Rightarrow> nat option"

definition set_bytes :: "nat \<Rightarrow> string \<Rightarrow> disk \<Rightarrow> disk" where
  "set_bytes i bytes d = d\<lparr>dk_inodes := (dk_inodes d)(i := bytes)\<rparr>"

definition link_file :: "string \<Rightarrow> nat \<Rightarrow> disk \<Rightarrow> disk" where
  "link_file path i d = d\<lparr>dk_names := (dk_names d)(path \<mapsto> i)\<rparr>"

definition unlink_file :: "string \<Rightarrow> disk \<Rightarrow> disk" where
  "unlink_file path d = d\<lparr>dk_names := (dk_names d)(path := None)\<rparr>"

text \<open>\<open>parent\<close> of an absolute path: the text before the last component, without the separators and the dots
  that end it.\<close>

definition trim_path_end :: "string list \<Rightarrow> string list" where
  "trim_path_end pieces = rev (dropWhile (\<lambda>c. c = [] \<or> c = ''.'') (rev pieces))"

definition path_parent :: "string \<Rightarrow> string option" where
  "path_parent path =
     (case trim_path_end (tl (split_on slash path)) of
        [] \<Rightarrow> None
      | c # cs \<Rightarrow> Some (slash # join_with slash (trim_path_end (butlast (c # cs)))))"

definition runtime_dir :: "environment \<Rightarrow> nat \<Rightarrow> string" where
  "runtime_dir env uid =
     (case Option.bind (env ''XDG_RUNTIME_DIR'') (\<lambda>d. if d = [] then None else Some d) of
        None \<Rightarrow> ''/run/user/'' @ nat_to_string uid
      | Some directory \<Rightarrow> directory)"

section \<open>Scrubbing\<close>

definition SCRUB_BLOCK_LEN :: nat where "SCRUB_BLOCK_LEN = 8192"
definition MAX_SOPS_CIPHERTEXT_BYTES :: nat where "MAX_SOPS_CIPHERTEXT_BYTES = 1024 * 1024"

text \<open>Whether the calls of a scrub succeed; the write of a chunk may fail after some of its bytes.\<close>

record scrub_ops =
  sc_metadata :: bool
  sc_seek :: bool
  sc_write :: "nat \<Rightarrow> nat option"

definition overwrite :: "nat \<Rightarrow> nat \<Rightarrow> string \<Rightarrow> string" where
  "overwrite pos n bytes = take pos bytes @ replicate n nul @ drop (pos + n) bytes"

function scrub_loop :: "(nat \<Rightarrow> nat option) \<Rightarrow> nat \<Rightarrow> nat \<Rightarrow> nat \<Rightarrow> string \<Rightarrow> string" where
  "scrub_loop wr i pos remaining bytes =
     (if remaining = 0 then bytes
      else let amount = min remaining SCRUB_BLOCK_LEN in
        case wr i of
          Some n \<Rightarrow> overwrite pos (min n amount) bytes
        | None \<Rightarrow> scrub_loop wr (Suc i) (pos + amount) (remaining - amount) (overwrite pos amount bytes))"
  by pat_completeness auto
termination
  by (relation "measure (\<lambda>(wr, i, pos, remaining, bytes). remaining)") (auto simp: SCRUB_BLOCK_LEN_def)

declare scrub_loop.simps [simp del]

definition PlaintextTemp_scrub :: "scrub_ops \<Rightarrow> string \<Rightarrow> string" where
  "PlaintextTemp_scrub ops bytes =
     (if \<not> sc_metadata ops \<or> \<not> sc_seek ops then bytes
      else scrub_loop (sc_write ops) 0 0 (length bytes) bytes)"

section \<open>The plaintext file\<close>

text \<open>The environment, and the calls on the plaintext file: the name and the inode it gets, whether its mode can be set, after how many
  bytes the first write fails, the editor, and so on. Removing the name is tried by the destructor and again
  by the destructor of the path it holds; \<open>tp_remove\<close> says whether one of them succeeds.\<close>

record temp_ops =
  tp_env :: environment
  tp_uid :: nat
  tp_temp :: "string \<Rightarrow> (string \<times> nat) option"
  tp_chmod :: bool
  tp_write :: "nat option"
  tp_editor :: "string list \<Rightarrow> disk \<Rightarrow> disk \<times> (io_failure + bool)"
  tp_open :: bool
  tp_metadata :: "(bool \<times> nat \<times> 32 word) option"
  tp_euid :: nat
  tp_rechmod :: bool
  tp_read :: bool
  tp_duplicate :: bool
  tp_scrub_edited :: scrub_ops
  tp_scrub_original :: scrub_ops
  tp_remove :: bool

record plaintext_temp =
  pt_path :: string
  pt_original :: nat
  pt_edited :: "nat option"

definition private_file :: "temp_ops \<Rightarrow> (string \<times> nat) option" where
  "private_file ops = tp_temp ops (runtime_dir (tp_env ops) (tp_uid ops))"

definition PlaintextTemp_create :: "temp_ops \<Rightarrow> disk \<Rightarrow> disk \<times> (cli_error + plaintext_temp)" where
  "PlaintextTemp_create ops d =
     (case private_file ops of
        None \<Rightarrow> (d, Inl CliEditTemp)
      | Some (path, i) \<Rightarrow>
          let d' = link_file path i (set_bytes i [] d) in
          if \<not> tp_chmod ops then (unlink_file path d', Inl CliEditTemp)
          else (d', Inr \<lparr>pt_path = path, pt_original = i, pt_edited = None\<rparr>))"

definition PlaintextTemp_write :: "temp_ops \<Rightarrow> plaintext_temp \<Rightarrow> string \<Rightarrow> disk \<Rightarrow> disk \<times> (cli_error + unit)" where
  "PlaintextTemp_write ops pt contents d =
     (case tp_write ops of
        None \<Rightarrow> (set_bytes (pt_original pt) contents d, Inr ())
      | Some n \<Rightarrow> (set_bytes (pt_original pt) (take n contents) d, Inl CliEditTemp))"

text \<open>The editor's name, from \<open>VISUAL\<close>, \<open>EDITOR\<close> or the default.\<close>

definition editor_command :: "environment \<Rightarrow> string" where
  "editor_command env =
     (let set = (\<lambda>name. Option.bind (env name) (\<lambda>v. if v = [] then None else Some v)) in
      case set ''VISUAL'' of
        Some v \<Rightarrow> v
      | None \<Rightarrow> (case set ''EDITOR'' of Some v \<Rightarrow> v | None \<Rightarrow> ''vi''))"

definition run_editor :: "temp_ops \<Rightarrow> string \<Rightarrow> disk \<Rightarrow> disk \<times> (cli_error + unit)" where
  "run_editor ops path d =
     (case tp_editor ops [editor_command (tp_env ops), path] d of
        (d', Inl err) \<Rightarrow> (d', Inl (CliEditorStart err))
      | (d', Inr success) \<Rightarrow> (d', if success then Inr () else Inl CliEditorExited))"

definition PlaintextTemp_reopen_after_editor :: "temp_ops \<Rightarrow> plaintext_temp \<Rightarrow> disk \<Rightarrow> cli_error + plaintext_temp" where
  "PlaintextTemp_reopen_after_editor ops pt d =
     (case dk_names d (pt_path pt) of
        None \<Rightarrow> Inl CliEditTemp
      | Some i \<Rightarrow>
          if \<not> tp_open ops then Inl CliEditTemp
          else case tp_metadata ops of
              None \<Rightarrow> Inl CliEditTemp
            | Some (is_file, uid, mode) \<Rightarrow>
                if \<not> is_file \<or> uid \<noteq> tp_euid ops then Inl CliEditTemp
                else if mode AND 0x1FF \<noteq> 0x180 \<and> \<not> tp_rechmod ops then Inl CliEditTemp
                else Inr (pt\<lparr>pt_edited := Some i\<rparr>))"

definition PlaintextTemp_read :: "temp_ops \<Rightarrow> plaintext_temp \<Rightarrow> disk \<Rightarrow> cli_error + secret_bytes" where
  "PlaintextTemp_read ops pt d =
     (case pt_edited pt of
        None \<Rightarrow> Inl CliEditTemp
      | Some i \<Rightarrow> if tp_read ops then Inr (dk_inodes d i) else Inl CliEditTemp)"

definition PlaintextTemp_duplicate_at_start :: "temp_ops \<Rightarrow> plaintext_temp \<Rightarrow> cli_error + nat" where
  "PlaintextTemp_duplicate_at_start ops pt =
     (case pt_edited pt of
        None \<Rightarrow> Inl CliEditTemp
      | Some i \<Rightarrow> if tp_duplicate ops then Inr i else Inl CliEditTemp)"

definition PlaintextTemp_drop :: "temp_ops \<Rightarrow> plaintext_temp \<Rightarrow> disk \<Rightarrow> disk" where
  "PlaintextTemp_drop ops pt d =
     (let d1 = (case pt_edited pt of
                  None \<Rightarrow> d
                | Some i \<Rightarrow> set_bytes i (PlaintextTemp_scrub (tp_scrub_edited ops) (dk_inodes d i)) d);
          d2 = set_bytes (pt_original pt) (PlaintextTemp_scrub (tp_scrub_original ops) (dk_inodes d1 (pt_original pt))) d1
      in if tp_remove ops then unlink_file (pt_path pt) d2 else d2)"

definition validate_human :: "temp_ops \<Rightarrow> plaintext_temp \<Rightarrow> secret_name \<Rightarrow> disk \<Rightarrow> cli_error + unit" where
  "validate_human ops pt name d =
     and_then (PlaintextTemp_read ops pt d) (\<lambda>plaintext.
     and_then (map_err (\<lambda>_. CliInvalidEditedHumanSecret name) (parse_single_assignment plaintext name)) (\<lambda>val.
       if val = [] then Inl (CliEmptyEditedHumanSecret name) else Inr ()))"

section \<open>Encrypting the plaintext file\<close>

text \<open>The calls of an encryption: the temporary file beside the target, the \<open>sops\<close> child and the rename.\<close>

record sops_encrypt_run =
  en_temp :: "string \<Rightarrow> (string \<times> nat) option"
  en_clone :: bool
  en_spawn :: bool
  en_output :: "string \<times> string list \<Rightarrow> string \<Rightarrow> string"
  en_stderr_copied :: bool
  en_wait :: "bool option"
  en_persist :: bool

definition sops_encrypt_command :: "string \<Rightarrow> string \<Rightarrow> string \<times> string list" where
  "sops_encrypt_command directory target =
     (directory, [''sops'', ''encrypt'', ''--filename-override'', target, ''--input-type'', ''dotenv'', ''--output-type'', ''dotenv''])"

definition encrypt :: "temp_ops \<Rightarrow> sops_encrypt_run \<Rightarrow> plaintext_temp \<Rightarrow> string \<Rightarrow> disk \<Rightarrow> disk \<times> (cli_error + unit)" where
  "encrypt ops run pt target d =
     (case path_parent target of
        None \<Rightarrow> (d, Inl CliInstallEditedSecret)
      | Some directory \<Rightarrow>
        (case en_temp run directory of
           None \<Rightarrow> (d, Inl CliInstallEditedSecret)
         | Some (cpath, ci) \<Rightarrow>
          let d1 = link_file cpath ci (set_bytes ci [] d);
              fail = (\<lambda>d' err. (unlink_file cpath d', Inl err))
          in (case PlaintextTemp_duplicate_at_start ops pt of
                Inl err \<Rightarrow> fail d1 err
              | Inr i \<Rightarrow>
                  if \<not> en_clone run then fail d1 CliInstallEditedSecret
                  else if \<not> en_spawn run then fail d1 (CliEncryptEditedSecret target)
                  else
                    let d2 = set_bytes ci (en_output run (sops_encrypt_command directory target) (dk_inodes d1 i)) d1 in
                    case en_wait run of
                      None \<Rightarrow> fail d2 (CliEncryptEditedSecret target)
                    | Some success \<Rightarrow>
                        if \<not> en_stderr_copied run \<or> \<not> success then fail d2 (CliEncryptEditedSecret target)
                        else if dk_names d2 target \<noteq> None \<or> \<not> en_persist run then fail d2 CliInstallEditedSecret
                        else (link_file target ci (unlink_file cpath d2), Inr ()))))"

section \<open>Creating a file\<close>

text \<open>The body of \<open>create\<close>, with the plaintext file as it stands when it is dropped.\<close>

definition create_body ::
  "temp_ops \<Rightarrow> sops_encrypt_run \<Rightarrow> plaintext_temp \<Rightarrow> string \<Rightarrow> string \<Rightarrow> secret_name option \<Rightarrow> disk \<Rightarrow>
     disk \<times> plaintext_temp \<times> (cli_error + unit)" where
  "create_body ops run pt path prefill human_name d =
     (case PlaintextTemp_write ops pt prefill d of
        (d1, Inl err) \<Rightarrow> (d1, pt, Inl err)
      | (d1, Inr _) \<Rightarrow>
          (case run_editor ops (pt_path pt) d1 of
             (d2, Inl err) \<Rightarrow> (d2, pt, Inl err)
           | (d2, Inr _) \<Rightarrow>
               (case PlaintextTemp_reopen_after_editor ops pt d2 of
                  Inl err \<Rightarrow> (d2, pt, Inl err)
                | Inr pt' \<Rightarrow>
                    (case (case human_name of None \<Rightarrow> Inr () | Some name \<Rightarrow> validate_human ops pt' name d2) of
                       Inl err \<Rightarrow> (d2, pt', Inl err)
                     | Inr _ \<Rightarrow> (case encrypt ops run pt' path d2 of (d3, r) \<Rightarrow> (d3, pt', r))))))"

definition create_file ::
  "temp_ops \<Rightarrow> sops_encrypt_run \<Rightarrow> string \<Rightarrow> string \<Rightarrow> secret_name option \<Rightarrow> disk \<Rightarrow> disk \<times> (cli_error + unit)" where
  "create_file ops run path prefill human_name d =
     (case PlaintextTemp_create ops d of
        (d1, Inl err) \<Rightarrow> (d1, Inl err)
      | (d1, Inr pt) \<Rightarrow>
          (case create_body ops run pt path prefill human_name d1 of
             (d2, pt', r) \<Rightarrow> (PlaintextTemp_drop ops pt' d2, r)))"

definition new_agent :: "temp_ops \<Rightarrow> sops_encrypt_run \<Rightarrow> string \<Rightarrow> bool \<Rightarrow> disk \<Rightarrow> disk \<times> (cli_error + unit)" where
  "new_agent ops run path is_local d =
     create_file ops run path
       ((if is_local then ''# local agent-tier secrets'' else ''# shared agent-tier secrets'') @ [newline]) None d"

definition new_human :: "temp_ops \<Rightarrow> sops_encrypt_run \<Rightarrow> string \<Rightarrow> secret_name \<Rightarrow> disk \<Rightarrow> disk \<times> (cli_error + unit)" where
  "new_human ops run path name d = create_file ops run path (as_str name @ ''='' @ [newline]) (Some name) d"

section \<open>A piped value\<close>

text \<open>What standard input gives until it ends, without one line ending, as an assignment.\<close>

definition strip_line_ending :: "string \<Rightarrow> string" where
  "strip_line_ending val =
     (if val \<noteq> [] \<and> last val = newline
      then (let v = butlast val in if v \<noteq> [] \<and> last v = carriage_return then butlast v else v)
      else val)"

definition read_piped_assignment :: "io_failure + string \<Rightarrow> secret_name \<Rightarrow> cli_error + secret_bytes" where
  "read_piped_assignment stdin name =
     (case stdin of
        Inl err \<Rightarrow> Inl (CliPipedHumanRead err)
      | Inr input \<Rightarrow>
          let val = strip_line_ending input in
          if val = [] then Inl (CliEmptyPipedHumanSecret name)
          else if newline \<in> set val \<or> carriage_return \<in> set val then Inl (CliInvalidPipedHumanSecret name)
          else
            let assignment = as_str name @ ''='' @ val @ [newline] in
            case parse_single_assignment assignment name of
              Inl _ \<Rightarrow> Inl (CliInvalidPipedHumanSecret name)
            | Inr _ \<Rightarrow> Inr assignment)"

datatype drain_failure = DrainRead | DrainTooLarge

text \<open>The child's output up to its end or to a failing read, and whether the child is killed.\<close>

definition drain_sops_stdout :: "string \<times> bool \<Rightarrow> (drain_failure + string) \<times> bool" where
  "drain_sops_stdout stdout =
     (let (bytes, fails) = stdout;
          output = take (MAX_SOPS_CIPHERTEXT_BYTES + 1) bytes;
          read_err = (fails \<and> length bytes < MAX_SOPS_CIPHERTEXT_BYTES + 1);
          too_large = (MAX_SOPS_CIPHERTEXT_BYTES < length output)
      in if read_err \<or> too_large then (Inl (if read_err then DrainRead else DrainTooLarge), True)
         else (Inr output, False))"

record sops_pipe_run =
  pr_spawn :: bool
  pr_pid :: bool
  pr_pipes :: bool
  pr_stdin :: bool
  pr_stdout :: "string \<times> string list \<Rightarrow> string \<Rightarrow> string \<times> bool"
  pr_join :: bool
  pr_stderr :: bool
  pr_wait :: "bool option"
  pr_temp :: "string \<Rightarrow> (string \<times> nat) option"
  pr_write :: "nat option"
  pr_persist :: bool

definition encrypt_bytes :: "sops_pipe_run \<Rightarrow> secret_bytes \<Rightarrow> string \<Rightarrow> disk \<Rightarrow> disk \<times> (cli_error + unit)" where
  "encrypt_bytes run plaintext target d =
     (let failed = (d, Inl (CliEncryptEditedSecret target)) in
      case path_parent target of
        None \<Rightarrow> (d, Inl CliInstallEditedSecret)
      | Some directory \<Rightarrow>
          if \<not> pr_spawn run \<or> \<not> pr_pid run \<or> \<not> pr_pipes run then failed
          else if \<not> pr_join run then failed
          else case fst (drain_sops_stdout (pr_stdout run (sops_encrypt_command directory target) plaintext)) of
              Inl DrainTooLarge \<Rightarrow> (d, Inl (CliSopsCiphertextTooLarge MAX_SOPS_CIPHERTEXT_BYTES))
            | Inl DrainRead \<Rightarrow> failed
            | Inr output \<Rightarrow>
                if \<not> pr_stdin run \<or> pr_wait run \<noteq> Some True \<or> \<not> pr_stderr run then failed
                else case pr_temp run directory of
                    None \<Rightarrow> (d, Inl CliInstallEditedSecret)
                  | Some (cpath, ci) \<Rightarrow>
                      let d1 = link_file cpath ci (set_bytes ci [] d) in
                      case pr_write run of
                        Some n \<Rightarrow> (unlink_file cpath (set_bytes ci (take n output) d1), Inl CliInstallEditedSecret)
                      | None \<Rightarrow>
                          let d2 = set_bytes ci output d1 in
                          if \<not> pr_persist run then (unlink_file cpath d2, Inl CliInstallEditedSecret)
                          else (link_file target ci (unlink_file cpath d2), Inr ()))"

text \<open>The rest of the world of \<open>write_piped_human\<close>: the hardening calls, standard input, the lock on the
  directory and standard output.\<close>

record piped_ops =
  pi_system :: system
  pi_stdin :: "io_failure + string"
  pi_open_dir :: bool
  pi_flock :: bool
  pi_stdout :: "string \<Rightarrow> io_failure option"

definition write_piped_human :: "piped_ops \<Rightarrow> sops_pipe_run \<Rightarrow> string \<Rightarrow> secret_name \<Rightarrow> disk \<Rightarrow> disk \<times> (cli_error + unit)" where
  "write_piped_human ops run path name d =
     (case snd (apply_no_core_dumps (pi_system ops)) of
        Inl err \<Rightarrow> (d, Inl (CliHardening err))
      | Inr _ \<Rightarrow>
          (case read_piped_assignment (pi_stdin ops) name of
             Inl err \<Rightarrow> (d, Inl err)
           | Inr assignment \<Rightarrow>
               if path_parent path = None \<or> \<not> pi_open_dir ops \<or> \<not> pi_flock ops then (d, Inl CliInstallEditedSecret)
               else
                 let rotated = dk_names d path \<noteq> None in
                 case encrypt_bytes run assignment path d of
                   (d', Inl err) \<Rightarrow> (d', Inl err)
                 | (d', Inr _) \<Rightarrow>
                     (d', case pi_stdout ops ((if rotated then ''rotated'' else ''created'') @ '' '' @ to_string_lossy path @ [newline]) of
                            None \<Rightarrow> Inr () | Some err \<Rightarrow> Inl (CliStdout err))))"

section \<open>Carrying out an edit\<close>

text \<open>An existing file is handed to \<open>sops\<close>, which replaces the process; the call returns only to fail.\<close>

datatype edit_outcome = BecomesSops string | EditReturns disk "cli_error + unit"

fun perform_edit ::
  "temp_ops \<Rightarrow> sops_encrypt_run \<Rightarrow> piped_ops \<Rightarrow> sops_pipe_run \<Rightarrow> io_failure option \<Rightarrow> edit_action \<Rightarrow> disk \<Rightarrow> edit_outcome" where
  "perform_edit ops run pops prun exec_fails (EditExisting path) d =
     (case exec_fails of None \<Rightarrow> BecomesSops path | Some err \<Rightarrow> EditReturns d (Inl (CliExec err)))"
| "perform_edit ops run pops prun exec_fails (NewAgent path is_local) d =
     (case new_agent ops run path is_local d of (d', r) \<Rightarrow> EditReturns d' r)"
| "perform_edit ops run pops prun exec_fails (NewHuman path name) d =
     (case new_human ops run path name d of (d', r) \<Rightarrow> EditReturns d' r)"
| "perform_edit ops run pops prun exec_fails (WritePiped path name) d =
     (case write_piped_human pops prun path name d of (d', r) \<Rightarrow> EditReturns d' r)"

section \<open>What a scrub leaves\<close>

lemma overwrite_length: "pos + n \<le> length bytes \<Longrightarrow> length (overwrite pos n bytes) = length bytes"
  by (simp add: overwrite_def)

lemma scrub_loop_zeroes:
  "\<forall>i. wr i = None \<Longrightarrow> pos + remaining = length bytes \<Longrightarrow> take pos bytes = replicate pos nul \<Longrightarrow>
     scrub_loop wr i pos remaining bytes = replicate (length bytes) nul"
proof (induction wr i pos remaining bytes rule: scrub_loop.induct)
  case (1 wr i pos remaining bytes)
  show ?case
  proof (cases "remaining = 0")
    case True
    with 1(3,4) show ?thesis by (subst scrub_loop.simps) simp
  next
    case False
    let ?n = "min remaining SCRUB_BLOCK_LEN" and ?bytes = "overwrite pos (min remaining SCRUB_BLOCK_LEN) bytes"
    have l: "length ?bytes = length bytes" using 1(3) by (intro overwrite_length) simp
    have t: "take (pos + ?n) ?bytes = replicate (pos + ?n) nul"
      using 1(3,4) by (simp add: overwrite_def replicate_add)
    have "scrub_loop wr (Suc i) (pos + ?n) (remaining - ?n) ?bytes = replicate (length ?bytes) nul"
      by (rule 1(1) [OF False refl _ 1(2)]) (use 1(2,3) l t in simp_all)
    with l False 1(2) show ?thesis by (subst scrub_loop.simps) (simp add: Let_def)
  qed
qed

definition scrub_works :: "scrub_ops \<Rightarrow> bool" where
  "scrub_works ops \<longleftrightarrow> sc_metadata ops \<and> sc_seek ops \<and> (\<forall>i. sc_write ops i = None)"

lemma scrub_zeroes: "scrub_works ops \<Longrightarrow> PlaintextTemp_scrub ops bytes = replicate (length bytes) nul"
  by (simp add: scrub_works_def PlaintextTemp_scrub_def scrub_loop_zeroes)

section \<open>What is left of the plaintext\<close>

definition zeroed :: "string \<Rightarrow> bool" where
  "zeroed bytes \<longleftrightarrow> (\<forall>c \<in> set bytes. c = nul)"

text \<open>The disk as the editor finds it, and as it leaves it.\<close>

definition prefilled :: "string \<Rightarrow> nat \<Rightarrow> string \<Rightarrow> disk \<Rightarrow> disk" where
  "prefilled path i prefill d = set_bytes i prefill (link_file path i (set_bytes i [] d))"

definition edited_disk :: "temp_ops \<Rightarrow> string \<Rightarrow> nat \<Rightarrow> string \<Rightarrow> disk \<Rightarrow> disk" where
  "edited_disk ops path i prefill d = fst (tp_editor ops [editor_command (tp_env ops), path] (prefilled path i prefill d))"

text \<open>A new temporary file is new: neither an inode of the plaintext's nor its name, nor the target's.\<close>

definition fresh_temp :: "sops_encrypt_run \<Rightarrow> string \<Rightarrow> string \<Rightarrow> nat \<Rightarrow> disk \<Rightarrow> bool" where
  "fresh_temp run path target i d \<longleftrightarrow>
     (case Option.bind (path_parent target) (en_temp run) of
        None \<Rightarrow> True
      | Some (cpath, ci) \<Rightarrow> cpath \<noteq> path \<and> cpath \<noteq> target \<and> ci \<noteq> i \<and> dk_names d path \<noteq> Some ci)"

lemma disk_simps [simp]:
  "dk_inodes (set_bytes i bytes d) = (dk_inodes d)(i := bytes)" "dk_names (set_bytes i bytes d) = dk_names d"
  "dk_inodes (link_file path i d) = dk_inodes d" "dk_names (link_file path i d) = (dk_names d)(path \<mapsto> i)"
  "dk_inodes (unlink_file path d) = dk_inodes d" "dk_names (unlink_file path d) = (dk_names d)(path := None)"
  by (simp_all add: set_bytes_def link_file_def unlink_file_def)

text \<open>The destructor zeroes the inodes it holds and removes the name.\<close>

lemma drop_zeroes:
  assumes "scrub_works (tp_scrub_edited ops)" and "scrub_works (tp_scrub_original ops)" and "tp_remove ops"
    and "i = pt_original pt \<or> pt_edited pt = Some i"
  shows "zeroed (dk_inodes (PlaintextTemp_drop ops pt d) i) \<and> dk_names (PlaintextTemp_drop ops pt d) (pt_path pt) = None"
  using assms(3,4) scrub_zeroes [OF assms(1)] scrub_zeroes [OF assms(2)]
  by (auto simp: PlaintextTemp_drop_def Let_def zeroed_def split: option.split)

lemma drop_others:
  "j \<noteq> pt_original pt \<Longrightarrow> pt_edited pt \<noteq> Some j \<Longrightarrow> dk_inodes (PlaintextTemp_drop ops pt d) j = dk_inodes d j"
  by (auto simp: PlaintextTemp_drop_def Let_def split: option.split)

lemma drop_names: "path \<noteq> pt_path pt \<Longrightarrow> dk_names (PlaintextTemp_drop ops pt d) path = dk_names d path"
  by (auto simp: PlaintextTemp_drop_def Let_def split: option.split)

text \<open>The body keeps the path and the first inode; the second inode is the one the editor left under the name.\<close>

lemma create_body_temp:
  "create_body ops run pt path prefill human d = (d', pt', r) \<Longrightarrow>
     pt_path pt' = pt_path pt \<and> pt_original pt' = pt_original pt"
  by (auto simp: create_body_def PlaintextTemp_reopen_after_editor_def
      split: prod.splits sum.splits option.splits if_splits)

lemma create_created:
  "PlaintextTemp_create ops d = (d1, Inr pt) \<Longrightarrow>
     \<exists>path i. private_file ops = Some (path, i) \<and> pt = \<lparr>pt_path = path, pt_original = i, pt_edited = None\<rparr>
       \<and> d1 = link_file path i (set_bytes i [] d)"
  by (auto simp: PlaintextTemp_create_def Let_def split: option.splits prod.splits if_splits)

text \<open>What a successful body did: the editor succeeded, the file under the name was read and encrypted.\<close>

lemma encrypt_Inr:
  assumes "encrypt ops run pt target d = (d', Inr ())"
  obtains directory cpath ci i where "path_parent target = Some directory" "en_temp run directory = Some (cpath, ci)" "pt_edited pt = Some i" "en_wait run = Some True"
    "((dk_names d)(cpath \<mapsto> ci)) target = None"
    "d' = link_file target ci (unlink_file cpath (set_bytes ci (en_output run (sops_encrypt_command directory target) (((dk_inodes d)(ci := [])) i)) (link_file cpath ci (set_bytes ci [] d))))"
  using assms
  by (auto simp: encrypt_def Let_def PlaintextTemp_duplicate_at_start_def split: option.splits prod.splits sum.splits if_splits)

lemma create_body_Inr:
  assumes "create_body ops run pt target prefill human d = (d', pt', Inr ())"
  obtains d2 j where "tp_editor ops [editor_command (tp_env ops), pt_path pt] (set_bytes (pt_original pt) prefill d) = (d2, Inr True)" "dk_names d2 (pt_path pt) = Some j"
    "pt' = pt\<lparr>pt_edited := Some j\<rparr>" "encrypt ops run pt' target d2 = (d', Inr ())"
    "\<forall>name. human = Some name \<longrightarrow> (\<exists>v. v \<noteq> [] \<and> parse_single_assignment (dk_inodes d2 j) name = Inr v)"
proof -
  from assms obtain d2 where e: "tp_editor ops [editor_command (tp_env ops), pt_path pt] (set_bytes (pt_original pt) prefill d) = (d2, Inr True)"
      "PlaintextTemp_reopen_after_editor ops pt d2 = Inr pt'" "encrypt ops run pt' target d2 = (d', Inr ())"
      "(case human of None \<Rightarrow> Inr () | Some name \<Rightarrow> validate_human ops pt' name d2) = Inr ()"
    by (auto simp: create_body_def PlaintextTemp_write_def run_editor_def split: prod.splits sum.splits option.splits if_splits)
  then obtain j where j: "dk_names d2 (pt_path pt) = Some j" "pt' = pt\<lparr>pt_edited := Some j\<rparr>"
    by (auto simp: PlaintextTemp_reopen_after_editor_def split: option.splits prod.splits if_splits)
  have "\<exists>v. v \<noteq> [] \<and> parse_single_assignment (dk_inodes d2 j) name = Inr v" if "human = Some name" for name
    using e(4) j that
    by (cases "parse_single_assignment (dk_inodes d2 j) name")
       (auto simp: validate_human_def PlaintextTemp_read_def and_then_Inr split: if_splits)
  with e j that show ?thesis by blast
qed

text \<open>C17: Creating a secret file leaves no plaintext behind. On every way out, failures included, the bytes of the
  private file that was made for the editor are zeroes and its name is gone, when the scrubbing calls
  succeed. If the command succeeds, the same holds of the file the editor left in its place, the editor
  succeeded, the target is new and holds exactly what \<open>sops\<close> made of that file, and for a human key that
  file had one assignment to the key, with a value.\<close>

theorem create_leaves_no_plaintext:
  assumes "private_file ops = Some (path, i)" and "path \<noteq> target"
    and "scrub_works (tp_scrub_edited ops)" and "scrub_works (tp_scrub_original ops)" and "tp_remove ops"
    and "fresh_temp run path target i (edited_disk ops path i prefill d)"
    and "create_file ops run target prefill human d = (d', r)"
  shows "zeroed (dk_inodes d' i) \<and> dk_names d' path = None \<and>
    (r = Inr () \<longrightarrow> (\<exists>j ci directory. dk_names (edited_disk ops path i prefill d) path = Some j \<and> zeroed (dk_inodes d' j)
       \<and> dk_names (edited_disk ops path i prefill d) target = None
       \<and> path_parent target = Some directory
       \<and> dk_names d' target = Some ci \<and> dk_inodes d' ci = en_output run (sops_encrypt_command directory target) (dk_inodes (edited_disk ops path i prefill d) j)
       \<and> (\<forall>name. human = Some name \<longrightarrow>
            (\<exists>v. v \<noteq> [] \<and> parse_single_assignment (dk_inodes (edited_disk ops path i prefill d) j) name = Inr v))))"
proof (cases "snd (PlaintextTemp_create ops d)")
  case (Inl err)
  with assms(1,7) have "d' = unlink_file path (link_file path i (set_bytes i [] d))" "r \<noteq> Inr ()"
    by (auto simp: create_file_def PlaintextTemp_create_def Let_def split: if_splits)
  then show ?thesis by (simp add: zeroed_def)
next
  case (Inr pt)
  then obtain d1 where c: "PlaintextTemp_create ops d = (d1, Inr pt)" by (cases "PlaintextTemp_create ops d") auto
  then have pt: "pt = \<lparr>pt_path = path, pt_original = i, pt_edited = None\<rparr>" "d1 = link_file path i (set_bytes i [] d)"
    using create_created [OF c] assms(1) by auto
  obtain d2 pt' where b: "create_body ops run pt target prefill human d1 = (d2, pt', r)" "d' = PlaintextTemp_drop ops pt' d2"
    using assms(7) c by (auto simp: create_file_def split: prod.splits)
  have t: "pt_path pt' = path" "pt_original pt' = i" using create_body_temp [OF b(1)] pt(1) by auto
  have first: "zeroed (dk_inodes d' i) \<and> dk_names d' path = None"
    using drop_zeroes [OF assms(3-5), of i pt' d2] t b(2) by simp
  show ?thesis
  proof (intro conjI impI)
    assume "r = Inr ()"
    with b(1) obtain d3 j where e: "tp_editor ops [editor_command (tp_env ops), path] (set_bytes i prefill d1) = (d3, Inr True)" "dk_names d3 path = Some j"
        "pt' = pt\<lparr>pt_edited := Some j\<rparr>" "encrypt ops run pt' target d3 = (d2, Inr ())"
        "\<forall>name. human = Some name \<longrightarrow> (\<exists>v. v \<noteq> [] \<and> parse_single_assignment (dk_inodes d3 j) name = Inr v)"
      by (auto simp: pt(1) elim!: create_body_Inr)
    then have d3: "edited_disk ops path i prefill d = d3" by (simp add: edited_disk_def prefilled_def pt(2))
    obtain directory cpath ci where p: "path_parent target = Some directory" and n: "en_temp run directory = Some (cpath, ci)" "((dk_names d3)(cpath \<mapsto> ci)) target = None"
        "d2 = link_file target ci (unlink_file cpath (set_bytes ci (en_output run (sops_encrypt_command directory target) (((dk_inodes d3)(ci := [])) j))
          (link_file cpath ci (set_bytes ci [] d3))))"
      using encrypt_Inr [OF e(4)] e(3) by (metis option.inject plaintext_temp.select_convs(3) plaintext_temp.surjective plaintext_temp.update_convs(3))
    have f: "cpath \<noteq> path" "cpath \<noteq> target" "ci \<noteq> i" "ci \<noteq> j" using assms(6) p n(1) e(2) d3 by (auto simp: fresh_temp_def)
    have "dk_inodes d' ci = en_output run (sops_encrypt_command directory target) (dk_inodes d3 j)"
      using drop_others [of ci pt' ops d2] b(2) t e(3) f n(3) by (simp add: pt(1))
    moreover have "dk_names d' target = Some ci" using drop_names [of target pt' ops d2] b(2) t assms(2) n(3) by simp
    moreover have "zeroed (dk_inodes d' j)" using drop_zeroes [OF assms(3-5), of j pt' d2] b(2) e(3) by simp
    ultimately show "\<exists>j ci directory. dk_names (edited_disk ops path i prefill d) path = Some j \<and> zeroed (dk_inodes d' j)
       \<and> dk_names (edited_disk ops path i prefill d) target = None
       \<and> path_parent target = Some directory
       \<and> dk_names d' target = Some ci \<and> dk_inodes d' ci = en_output run (sops_encrypt_command directory target) (dk_inodes (edited_disk ops path i prefill d) j)
       \<and> (\<forall>name. human = Some name \<longrightarrow>
            (\<exists>v. v \<noteq> [] \<and> parse_single_assignment (dk_inodes (edited_disk ops path i prefill d) j) name = Inr v))"
      using e(2,5) p n(2) f(2) unfolding d3 by auto
  qed (use first in simp_all)
qed

text \<open>An editor that saves by replacing the file, and a \<open>sops\<close> that marks its input.\<close>

definition sample_scrub :: scrub_ops where
  "sample_scrub = \<lparr>sc_metadata = True, sc_seek = True, sc_write = \<lambda>_. None\<rparr>"

definition sample_temp :: "bool \<Rightarrow> temp_ops" where
  "sample_temp success =
     \<lparr>tp_env = \<lambda>_. None, tp_uid = 7, tp_temp = \<lambda>_. Some (''/run/edit'', 1), tp_chmod = True, tp_write = None,
      tp_editor = \<lambda>_ d. (link_file ''/run/edit'' 2 (set_bytes 2 (''K=hunter2'' @ [newline]) d), Inr success),
      tp_open = True, tp_metadata = Some (True, 7, 0x180), tp_euid = 7, tp_rechmod = True, tp_read = True, tp_duplicate = True,
      tp_scrub_edited = sample_scrub, tp_scrub_original = sample_scrub, tp_remove = True\<rparr>"

definition sample_encrypt :: sops_encrypt_run where
  "sample_encrypt =
     \<lparr>en_temp = \<lambda>_. Some (''/r/.tmp'', 3), en_clone = True, en_spawn = True, en_output = \<lambda>_ s. ''ENC '' @ s,
      en_stderr_copied = True, en_wait = Some True, en_persist = True\<rparr>"

definition blank_disk :: disk where
  "blank_disk = \<lparr>dk_inodes = \<lambda>_. [], dk_names = \<lambda>_. None\<rparr>"

lemma sample_scrub_works: "scrub_works (tp_scrub_edited (sample_temp s))" "scrub_works (tp_scrub_original (sample_temp s))"
  by (simp_all add: sample_temp_def sample_scrub_def scrub_works_def)

theorem create_leaves_no_plaintext_witness:
  "let d' = fst (create_file (sample_temp True) sample_encrypt ''/r/K.env'' ''K='' (Some (SecretName ''K'')) blank_disk) in
   zeroed (dk_inodes d' 1) \<and> zeroed (dk_inodes d' 2) \<and> dk_names d' ''/run/edit'' = None
   \<and> (\<exists>ci. dk_names d' ''/r/K.env'' = Some ci \<and> dk_inodes d' ci = ''ENC K=hunter2'' @ [newline])"
proof -
  let ?c = "create_file (sample_temp True) sample_encrypt ''/r/K.env'' ''K='' (Some (SecretName ''K'')) blank_disk"
  have t: "private_file (sample_temp True) = Some (''/run/edit'', 1)" "''/run/edit'' \<noteq> ''/r/K.env''" "tp_remove (sample_temp True)"
    by (simp_all add: sample_temp_def private_file_def)
  have e: "edited_disk (sample_temp True) ''/run/edit'' 1 ''K='' blank_disk =
      link_file ''/run/edit'' 2 (set_bytes 2 (''K=hunter2'' @ [newline]) (prefilled ''/run/edit'' 1 ''K='' blank_disk))"
    by (simp add: edited_disk_def sample_temp_def)
  have parent: "path_parent ''/r/K.env'' = Some ''/r''" by code_simp
  have f: "fresh_temp sample_encrypt ''/run/edit'' ''/r/K.env'' 1 (edited_disk (sample_temp True) ''/run/edit'' 1 ''K='' blank_disk)"
    unfolding e by (simp add: fresh_temp_def sample_encrypt_def parent)
  have r: "snd ?c = Inr ()" by code_simp
  then have c: "?c = (fst ?c, Inr ())" by (metis prod.collapse)
  have o: "en_output sample_encrypt command s = ''ENC '' @ s" for command s by (simp add: sample_encrypt_def)
  note left = create_leaves_no_plaintext [OF t(1,2) sample_scrub_works t(3) f c, unfolded e o]
  from left obtain j ci where j: "j = 2" "zeroed (dk_inodes (fst ?c) j)" "dk_names (fst ?c) ''/r/K.env'' = Some ci"
      "dk_inodes (fst ?c) ci = ''ENC '' @ ''K=hunter2'' @ [newline]"
    by auto
  with left show ?thesis by (auto simp: Let_def)
qed

text \<open>C29: A failing editor leaves its copy. If the editor replaced the private file, as editors that save by renaming
  do, and then exits with a failure, the file it wrote was never opened by the client: when the removal
  succeeds, its name is gone, and nothing else changes its name; but its bytes, the plaintext, are still there,
  even when every scrub works and zeroes the file that the client had made.\<close>

theorem failed_editor_leaves_plaintext:
  assumes "private_file ops = Some (path, i)" and "tp_chmod ops" and "tp_write ops = None"
    and "tp_editor ops [editor_command (tp_env ops), path] (prefilled path i prefill d) = (d2, Inr False)" and "dk_names d2 path = Some j" and "j \<noteq> i"
    and "tp_remove ops" and "scrub_works (tp_scrub_edited ops)" and "scrub_works (tp_scrub_original ops)"
  shows "snd (create_file ops run target prefill human d) = Inl CliEditorExited
    \<and> dk_names (fst (create_file ops run target prefill human d)) = (dk_names d2)(path := None)
    \<and> zeroed (dk_inodes (fst (create_file ops run target prefill human d)) i)
    \<and> dk_inodes (fst (create_file ops run target prefill human d)) j = dk_inodes d2 j"
proof -
  let ?pt = "\<lparr>pt_path = path, pt_original = i, pt_edited = None\<rparr>"
  have c: "create_file ops run target prefill human d = (PlaintextTemp_drop ops ?pt d2, Inl CliEditorExited)"
    using assms(1-4)
    by (simp add: create_file_def PlaintextTemp_create_def Let_def create_body_def PlaintextTemp_write_def run_editor_def prefilled_def)
  have "dk_names (PlaintextTemp_drop ops ?pt d2) p = ((dk_names d2)(path := None)) p" for p
    using drop_names [of p ?pt ops d2] drop_zeroes [OF assms(8,9,7), of i ?pt d2] by (cases "p = path") simp_all
  then have "dk_names (PlaintextTemp_drop ops ?pt d2) = (dk_names d2)(path := None)" by blast
  with c drop_zeroes [OF assms(8,9,7), of i ?pt d2] drop_others [of j ?pt ops d2] assms(6) show ?thesis by simp
qed

theorem failed_editor_leaves_plaintext_witness:
  "let d' = fst (create_file (sample_temp False) sample_encrypt ''/r/K.env'' ''K='' None blank_disk) in
   dk_names d' ''/run/edit'' = None \<and> zeroed (dk_inodes d' 1) \<and> dk_inodes d' 2 = ''K=hunter2'' @ [newline]"
proof -
  let ?d = "link_file ''/run/edit'' 2 (set_bytes 2 (''K=hunter2'' @ [newline]) (prefilled ''/run/edit'' 1 ''K='' blank_disk))"
  have "private_file (sample_temp False) = Some (''/run/edit'', 1)" "tp_chmod (sample_temp False)" "tp_write (sample_temp False) = None"
    "tp_editor (sample_temp False) [editor_command (tp_env (sample_temp False)), ''/run/edit''] (prefilled ''/run/edit'' 1 ''K='' blank_disk) = (?d, Inr False)"
    "dk_names ?d ''/run/edit'' = Some 2" "(2 :: nat) \<noteq> 1" "tp_remove (sample_temp False)"
    by (simp_all add: sample_temp_def private_file_def)
  from failed_editor_leaves_plaintext [OF this sample_scrub_works] show ?thesis by (simp add: Let_def)
qed

section \<open>What a piped value becomes\<close>

lemma parse_assignment_line:
  assumes "valid_name (as_str name)" and "newline \<notin> set v" and "carriage_return \<notin> set v"
  shows "parse_single_assignment (as_str name @ CHR ''='' # v @ [newline]) name = Inr w \<longleftrightarrow> w = v \<and> nul \<notin> set v"
proof -
  let ?l = "as_str name @ CHR ''='' # v"
  have "as_str name \<noteq> []" using assms(1) by (simp add: valid_name_def)
  then have h: "name_char (hd (as_str name))" using valid_name_chars [OF assms(1)] by simp
  have n: "newline \<notin> set ?l" "carriage_return \<notin> set ?l"
    using assms valid_name_chars [OF assms(1)] not_name_char(4,5) by (auto simp: newline_def carriage_return_def)
  have "hd ?l \<noteq> CHR ''#''" using h not_name_char(7) \<open>as_str name \<noteq> []\<close> by auto
  have "split_on newline (?l @ [newline]) = [?l, []]" using n(1) split_on_append_sep [of newline ?l "[]"] by simp
  moreover have "strip_cr ?l = ?l"
  proof (cases "strip_suffix [carriage_return] ?l")
    case (Some r)
    then have "carriage_return \<in> set ?l" unfolding strip_suffix_Some by (metis in_set_conv_decomp)
    with n(2) show ?thesis by blast
  qed (simp add: strip_cr_def)
  moreover have "strip_cr [] = []" "skipped_line []" by code_simp+
  ultimately have "significant_lines (?l @ [newline]) = [?l]" using \<open>hd ?l \<noteq> CHR ''#''\<close> by (simp add: significant_lines_def skipped_line_def)
  with parse_single_assignment_iff [OF assms(1), of "?l @ [newline]" w] show ?thesis by auto
qed

lemma read_piped_iff:
  assumes "valid_name (as_str name)"
  shows "read_piped_assignment (Inr input) name = Inr a \<longleftrightarrow>
    (let v = strip_line_ending input in
     v \<noteq> [] \<and> newline \<notin> set v \<and> carriage_return \<notin> set v \<and> nul \<notin> set v \<and> a = as_str name @ CHR ''='' # v @ [newline])"
proof (cases "newline \<in> set (strip_line_ending input) \<or> carriage_return \<in> set (strip_line_ending input)")
  case True
  then show ?thesis by (auto simp: read_piped_assignment_def Let_def)
next
  case False
  let ?v = "strip_line_ending input"
  note p = parse_assignment_line [OF assms, of ?v]
  show ?thesis
  proof (cases "parse_single_assignment (as_str name @ CHR ''='' # ?v @ [newline]) name")
    case (Inl err)
    with p [of ?v] False have "nul \<in> set ?v" by auto
    with Inl False show ?thesis by (auto simp: read_piped_assignment_def Let_def)
  next
    case (Inr w)
    with p [of w] False have "nul \<notin> set ?v" by auto
    with Inr False show ?thesis by (auto simp: read_piped_assignment_def Let_def)
  qed
qed

text \<open>A piped value survives the round trip. What standard input gives, without one line ending, is accepted exactly
  when it is not empty and has no line break and no NUL; the assignment that is then encrypted is one that the
  daemon's parser of decrypted text reads back as this very value.\<close>

theorem piped_value_round_trip:
  assumes "valid_name (as_str name)"
  shows "(\<exists>a. read_piped_assignment (Inr input) name = Inr a \<and> parse_single_assignment a name = Inr v) \<longleftrightarrow>
    v = strip_line_ending input \<and> v \<noteq> [] \<and> newline \<notin> set v \<and> carriage_return \<notin> set v \<and> nul \<notin> set v"
  unfolding read_piped_iff [OF assms] Let_def using parse_assignment_line [OF assms, of "strip_line_ending input" v] by auto

theorem piped_value_round_trip_witness:
  "\<exists>a. read_piped_assignment (Inr (''hunter2'' @ [carriage_return, newline])) (SecretName ''K'') = Inr a
     \<and> parse_single_assignment a (SecretName ''K'') = Inr ''hunter2''"
proof -
  have v: "valid_name (as_str (SecretName ''K''))" by code_simp
  have "''hunter2'' = strip_line_ending (''hunter2'' @ [carriage_return, newline])" "''hunter2'' \<noteq> []" "newline \<notin> set ''hunter2''"
    "carriage_return \<notin> set ''hunter2''" "nul \<notin> set ''hunter2''" by code_simp+
  then show ?thesis by (intro piped_value_round_trip [OF v, THEN iffD2] conjI)
qed

text \<open>The temporary file of an installation is new: its name is not the target's and no name has its inode.\<close>

definition fresh_pipe_temp :: "sops_pipe_run \<Rightarrow> string \<Rightarrow> disk \<Rightarrow> bool" where
  "fresh_pipe_temp run target d \<longleftrightarrow>
     (case Option.bind (path_parent target) (pr_temp run) of None \<Rightarrow> True | Some (cpath, ci) \<Rightarrow> cpath \<noteq> target \<and> (\<forall>p. dk_names d p \<noteq> Some ci))"

text \<open>The file under a name: its bytes, if there is one.\<close>

definition file_at :: "disk \<Rightarrow> string \<Rightarrow> string option" where
  "file_at d path = map_option (dk_inodes d) (dk_names d path)"

lemma drain_Inr: "fst (drain_sops_stdout (bytes, fails)) = Inr out \<longleftrightarrow> \<not> fails \<and> out = bytes \<and> length bytes \<le> MAX_SOPS_CIPHERTEXT_BYTES"
  by (auto simp: drain_sops_stdout_def Let_def)

lemma encrypt_bytes_cases:
  assumes "encrypt_bytes run plaintext target d = (d', r)" and "fresh_pipe_temp run target d"
    and "path_parent target = Some directory"
  shows "(r = Inr () \<and> file_at d' target = Some (fst (pr_stdout run (sops_encrypt_command directory target) plaintext))
       \<and> length (fst (pr_stdout run (sops_encrypt_command directory target) plaintext)) \<le> MAX_SOPS_CIPHERTEXT_BYTES \<and> pr_wait run = Some True
       \<and> dk_names d' target \<noteq> dk_names d target)
     \<or> (r \<noteq> Inr () \<and> file_at d' target = file_at d target \<and> dk_names d' target = dk_names d target)"
proof (cases "r = Inr ()")
  case True
  obtain out fails where o: "pr_stdout run (sops_encrypt_command directory target) plaintext = (out, fails)" by fastforce
  from True assms(1,3) o obtain cpath ci where c: "pr_temp run directory = Some (cpath, ci)" "fst (drain_sops_stdout (out, fails)) = Inr out"
      "pr_wait run = Some True"
      "d' = link_file target ci (unlink_file cpath (set_bytes ci out (link_file cpath ci (set_bytes ci [] d))))"
    by (auto simp: encrypt_bytes_def Let_def drain_Inr split: option.splits if_splits sum.splits drain_failure.splits prod.splits)
  then have "file_at d' target = Some out" "dk_names d' target = Some ci" by (simp_all add: file_at_def)
  moreover have "dk_names d target \<noteq> Some ci" using assms(2,3) c(1) by (simp add: fresh_pipe_temp_def)
  ultimately show ?thesis using True c(2,3) o by (auto simp: drain_Inr)
next
  case False
  then have "d' = d \<or> (\<exists>cpath ci out. pr_temp run directory = Some (cpath, ci)
      \<and> d' = unlink_file cpath (set_bytes ci out (link_file cpath ci (set_bytes ci [] d))))"
    using assms(1,3)
    by (auto simp: encrypt_bytes_def Let_def split: option.splits if_splits sum.splits drain_failure.splits prod.splits)
  with False assms(2,3) show ?thesis
    by (cases "dk_names d target") (auto simp: file_at_def fresh_pipe_temp_def)
qed

text \<open>C18: A piped value is installed whole or not at all. Either the target is untouched, and the command fails; or
  the target is a new inode that holds exactly what a successful \<open>sops\<close> printed for an assignment of the
  piped value to the key, within the limit of one mebibyte, core dumps were disabled before the value was
  read, and the command reports success unless standard output is broken.\<close>

theorem piped_write_all_or_nothing:
  assumes "write_piped_human ops run path name d = (d', r)" and "fresh_pipe_temp run path d" and "valid_name (as_str name)"
  shows "(file_at d' path = file_at d path \<and> dk_names d' path = dk_names d path \<and> r \<noteq> Inr ())
    \<or> (\<exists>input a directory. path_parent path = Some directory \<and> pi_stdin ops = Inr input \<and> read_piped_assignment (Inr input) name = Inr a
         \<and> parse_single_assignment a name = Inr (strip_line_ending input)
         \<and> file_at d' path = Some (fst (pr_stdout run (sops_encrypt_command directory path) a))
         \<and> length (fst (pr_stdout run (sops_encrypt_command directory path) a)) \<le> MAX_SOPS_CIPHERTEXT_BYTES
         \<and> pr_wait run = Some True \<and> dk_names d' path \<noteq> dk_names d path
         \<and> apply_no_core_dumps (pi_system ops) = ([SetDumpable, SetCoreLimit], Inr ())
         \<and> (r = Inr () \<or> (\<exists>err. r = Inl (CliStdout err))))"
proof (cases "\<exists>a. snd (apply_no_core_dumps (pi_system ops)) = Inr () \<and> read_piped_assignment (pi_stdin ops) name = Inr a
    \<and> path_parent path \<noteq> None \<and> pi_open_dir ops \<and> pi_flock ops")
  case False
  with assms(1) show ?thesis
    by (auto simp: write_piped_human_def split: sum.splits if_splits)
next
  case True
  then obtain a directory where a: "snd (apply_no_core_dumps (pi_system ops)) = Inr ()" "read_piped_assignment (pi_stdin ops) name = Inr a"
    "path_parent path = Some directory" "pi_open_dir ops" "pi_flock ops" by blast
  then obtain input where i: "pi_stdin ops = Inr input" by (auto simp: read_piped_assignment_def split: sum.splits)
  have round: "parse_single_assignment a name = Inr (strip_line_ending input)"
    using a(2) i read_piped_iff [OF assms(3)] parse_assignment_line [OF assms(3)] by (auto simp: Let_def)
  have calls: "apply_no_core_dumps (pi_system ops) = ([SetDumpable, SetCoreLimit], Inr ())"
    using a(1) by (auto simp: apply_no_core_dumps_def split: sum.splits unit.splits)
  obtain r0 where e: "encrypt_bytes run a path d = (d', r0)" and
    r0: "r = r0 \<and> r0 \<noteq> Inr () \<or> r0 = Inr () \<and> (r = Inr () \<or> (\<exists>err. r = Inl (CliStdout err)))"
    using assms(1) a by (auto simp: write_piped_human_def split: sum.splits prod.splits option.splits)
  from encrypt_bytes_cases [OF e assms(2) a(3)] r0 round calls a(2,3) i show ?thesis by auto
qed

definition sample_pipe :: sops_pipe_run where
  "sample_pipe =
     \<lparr>pr_spawn = True, pr_pid = True, pr_pipes = True, pr_stdin = True, pr_stdout = \<lambda>_ s. (''ENC '' @ s, False), pr_join = True,
      pr_stderr = True, pr_wait = Some True, pr_temp = \<lambda>_. Some (''/r/.tmp'', 3), pr_write = None, pr_persist = True\<rparr>"

definition sample_piped :: "string \<Rightarrow> piped_ops" where
  "sample_piped input =
     \<lparr>pi_system = \<lparr>sy_set_dumpable = Inr (), sy_setrlimit_core = Inr (), sy_getrlimit_memlock = Inr (0, 0), sy_mlockall = Inr ()\<rparr>,
      pi_stdin = Inr input, pi_open_dir = True, pi_flock = True, pi_stdout = \<lambda>_. None\<rparr>"

theorem piped_write_all_or_nothing_witness:
  "file_at (fst (write_piped_human (sample_piped (''hunter2'' @ [newline])) sample_pipe ''/r/K.env'' (SecretName ''K'') blank_disk)) ''/r/K.env''
     = Some (''ENC K=hunter2'' @ [newline])"
proof -
  let ?w = "write_piped_human (sample_piped (''hunter2'' @ [newline])) sample_pipe ''/r/K.env'' (SecretName ''K'') blank_disk"
  have r: "snd ?w = Inr ()" by code_simp
  then have w: "?w = (fst ?w, Inr ())" by (metis prod.collapse)
  have "path_parent ''/r/K.env'' = Some ''/r''" by code_simp
  then have f: "fresh_pipe_temp sample_pipe ''/r/K.env'' blank_disk" by (simp add: fresh_pipe_temp_def sample_pipe_def blank_disk_def)
  have v: "valid_name (as_str (SecretName ''K''))" by code_simp
  have a: "read_piped_assignment (Inr (''hunter2'' @ [newline])) (SecretName ''K'') = Inr (''K=hunter2'' @ [newline])" by code_simp
  from piped_write_all_or_nothing [OF w f v] a show ?thesis by (auto simp: sample_piped_def sample_pipe_def)
qed

end
