(* ===== verification/Cli.thy ===== *)
theory Cli
  imports Report EditNew
begin

text \<open>
  The commands of the \<open>secrets\<close> executable (\<open>src/client/cli.rs\<close>, \<open>src/bin/secrets.rs\<close>): reading a key from the tier
  it is in, injecting keys into a command, listing, and the control requests. The world the process runs in is a
  record; each call to the daemon has its own pair of connections, chosen by the number of the call. A command
  either prints a report, becomes another program or carries out an edit; \<open>None\<close> is a call that is still waiting.
  The lemmas show that a key of both tiers is never served, and what an injected command's environment holds.
\<close>

section \<open>The world and the context\<close>

record cli_world =
  cw_env :: environment
  cw_uid :: nat
  cw_config :: config_files
  cw_toml :: toml_reader
  cw_fs :: client_fs
  cw_sops :: sops_decrypt
  cw_token :: "string \<Rightarrow> string option"
  cw_is_terminal :: bool
  cw_link :: "string option"
  cw_reserves :: "nat \<Rightarrow> bool"
  cw_hello :: "nat \<Rightarrow> transport"
  cw_call :: "nat \<Rightarrow> transport"
  cw_stdout :: stdout
  cw_exec :: "io_failure option"
  cw_exists :: "string \<Rightarrow> bool"
  cw_create_dir_all :: "string \<Rightarrow> io_failure option"
  cw_temp :: temp_ops
  cw_encrypt :: sops_encrypt_run
  cw_piped :: piped_ops
  cw_pipe :: sops_pipe_run
  cw_disk :: disk

record cli_context =
  cx_agent :: agent_store
  cx_human :: human_names
  cx_sources :: sources

definition Context_from_environment :: "cli_world \<Rightarrow> cli_error + cli_context" where
  "Context_from_environment w =
     and_then (map_err CliConfig (Sources_load (cw_env w) (cw_config w) (cw_toml w))) (\<lambda>sources.
     and_then (HumanNames_load (cw_fs w) (so_roots sources)) (\<lambda>human.
       Inr \<lparr>cx_agent = \<lparr>as_files = concat (map SourceRoot_agent_files (so_roots sources)), as_sops_bin = ''sops''\<rparr>,
            cx_human = human, cx_sources = sources\<rparr>))"

text \<open>A human client from the environment, and an operation of it; call number \<open>k\<close> to the daemon.\<close>

definition cli_human_client :: "cli_world \<Rightarrow> client_error + human_client" where
  "cli_human_client w =
     HumanClient_from_environment (cw_env w) (cw_uid w) (cw_token w) (cw_is_terminal w) (cw_link w)"

definition with_human_client ::
  "cli_world \<Rightarrow> (human_client \<Rightarrow> (client_error + 'a) option) \<Rightarrow> (cli_error + 'a) option" where
  "with_human_client w operation =
     (case cli_human_client w of
        Inl err \<Rightarrow> Some (Inl (CliError_from_client err))
      | Inr client \<Rightarrow> map_option (map_err CliError_from_client) (operation client))"

definition Context_broker_call :: "cli_world \<Rightarrow> nat \<Rightarrow> string \<Rightarrow> (cli_error + broker_response) option" where
  "Context_broker_call w k request =
     map_option (map_err CliError_from_client)
       (BrokerClient_call (BrokerClient_from_environment (cw_env w) (cw_uid w)) (cw_reserves w) (cw_hello w k) (cw_call w k) request)"

definition Context_expect_ok :: "cli_world \<Rightarrow> string \<Rightarrow> report option" where
  "Context_expect_ok w request =
     map_option (\<lambda>r. ([], and_then r (\<lambda>response.
         case response of BrOk \<Rightarrow> Inr () | _ \<Rightarrow> Inl (CliError_from_client CeInvalidResponse))))
       (Context_broker_call w 0 request)"

section \<open>Values\<close>

definition Context_reject_duplicates :: "cli_context \<Rightarrow> secret_bytes btree \<Rightarrow> cli_error + unit" where
  "Context_reject_duplicates cx agent =
     (case find (\<lambda>(name, _). map_of agent name \<noteq> None) (cx_human cx) of
        Some (name, _) \<Rightarrow> Inl (CliAmbiguousKey name)
      | None \<Rightarrow> Inr ())"

definition Context_value :: "cli_world \<Rightarrow> nat \<Rightarrow> cli_context \<Rightarrow> secret_name \<Rightarrow> (cli_error + secret_bytes) option" where
  "Context_value w k cx name =
     (case AgentStore_all (cw_fs w) (cw_sops w) (cx_agent cx) of
        Inl err \<Rightarrow> Some (Inl err)
      | Inr agent \<Rightarrow>
          if HumanNames_contains (cx_human cx) name then
            (case Context_reject_duplicates cx agent of
               Inl err \<Rightarrow> Some (Inl err)
             | Inr _ \<Rightarrow>
                 with_human_client w (\<lambda>client.
                   HumanClient_get (cw_reserves w) (cw_hello w k) (cw_call w k) client name))
          else Some (ok_or (CliMissingSecret name) (map_of agent name)))"

section \<open>Status\<close>

definition Context_request_grant :: "cli_world \<Rightarrow> cli_context \<Rightarrow> secret_name \<Rightarrow> report option" where
  "Context_request_grant w cx name =
     (case AgentStore_contains (cw_fs w) (cx_agent cx) name of
        Inl err \<Rightarrow> Some ([], Inl err)
      | Inr agent \<Rightarrow>
          (case (agent, HumanNames_contains (cx_human cx) name) of
             (True, True) \<Rightarrow> Some ([], Inl (CliAmbiguousKey name))
           | (True, False) \<Rightarrow> Some (write_status name TierAgent)
           | (False, True) \<Rightarrow>
               map_option (\<lambda>r. case r of Inl err \<Rightarrow> ([], Inl err) | Inr _ \<Rightarrow> write_status name (TierHuman True))
                 (with_human_client w (\<lambda>client.
                    HumanClient_request_grant (cw_reserves w) (cw_hello w 0) (cw_call w 0) client name))
           | (False, False) \<Rightarrow> Some ([], Inl (CliMissingSecret name))))"

definition Context_status :: "cli_world \<Rightarrow> cli_context \<Rightarrow> secret_name \<Rightarrow> report option" where
  "Context_status w cx name =
     (case AgentStore_contains (cw_fs w) (cx_agent cx) name of
        Inl err \<Rightarrow> Some ([], Inl err)
      | Inr agent \<Rightarrow>
          (case (agent, HumanNames_contains (cx_human cx) name) of
             (True, True) \<Rightarrow> Some ([], Inl (CliAmbiguousKey name))
           | (True, False) \<Rightarrow> Some (write_status name TierAgent)
           | (False, True) \<Rightarrow>
               map_option (\<lambda>r.
                   case and_then r (\<lambda>response.
                          case response of
                            BrBytes grants \<Rightarrow>
                              active_grant (caller_scope_of (cw_env w) (caller_tty (cw_is_terminal w) (cw_link w))) name grants
                          | _ \<Rightarrow> Inl (CliError_from_client CeInvalidResponse)) of
                     Inl err \<Rightarrow> ([], Inl err)
                   | Inr active \<Rightarrow> write_status name (TierHuman active))
                 (Context_broker_call w 0 ''GRANTS'')
           | (False, False) \<Rightarrow> Some ([], Inl (CliMissingSecret name))))"

section \<open>Commands\<close>

definition Context_get :: "cli_world \<Rightarrow> cli_context \<Rightarrow> string \<Rightarrow> get_output \<Rightarrow> report option" where
  "Context_get w cx raw output =
     (case parse_name raw of
        Inl err \<Rightarrow> Some ([], Inl err)
      | Inr name \<Rightarrow>
          (case output of
             GetRequest \<Rightarrow> Context_request_grant w cx name
           | GetStatus \<Rightarrow> Context_status w cx name
           | GetValue \<Rightarrow>
               map_option (\<lambda>r. case r of Inl err \<Rightarrow> ([], Inl err) | Inr v \<Rightarrow> ([v, [newline]], Inr ())) (Context_value w 0 cx name)))"

definition Context_list :: "cli_world \<Rightarrow> cli_context \<Rightarrow> report" where
  "Context_list w cx =
     (case AgentStore_all (cw_fs w) (cw_sops w) (cx_agent cx) of
        Inl err \<Rightarrow> ([], Inl err)
      | Inr agent \<Rightarrow>
          (case Context_reject_duplicates cx agent of
             Inl err \<Rightarrow> ([], Inl err)
           | Inr _ \<Rightarrow>
               (map (\<lambda>(name, _). as_str name @ [newline]) agent
                @ map (\<lambda>(name, location). as_str name @ ''  (human tier: '' @ hl_label location @ '')'' @ [newline]) (cx_human cx),
                Inr ())))"

text \<open>The loop of \<open>inject\<close> over the names; each human key is one more call.\<close>

fun inject_values :: "cli_world \<Rightarrow> nat \<Rightarrow> cli_context \<Rightarrow> string list \<Rightarrow> (cli_error + (string \<times> string) list) option" where
  "inject_values w k cx [] = Some (Inr [])"
| "inject_values w k cx (raw # raws) =
     (case parse_name raw of
        Inl err \<Rightarrow> Some (Inl err)
      | Inr name \<Rightarrow>
          (case Context_value w k cx name of
             None \<Rightarrow> None
           | Some (Inl err) \<Rightarrow> Some (Inl err)
           | Some (Inr v) \<Rightarrow>
               map_option (\<lambda>r. and_then r (\<lambda>rest. Inr ((as_str name, v) # rest))) (inject_values w (Suc k) cx raws)))"

text \<open>\<open>Command::envs\<close>: the variables are added to the inherited ones, one after the other.\<close>

definition command_envs :: "(string \<times> string) list \<Rightarrow> environment \<Rightarrow> environment" where
  "command_envs added inherited = fold (\<lambda>(name, v) env. env(name \<mapsto> v)) added inherited"

text \<open>A command that becomes another program does so with its arguments, the variables that were added, and the whole
  environment that the program then has.\<close>

datatype cli_outcome =
    Prints report
  | Becomes string "string list" "(string \<times> string) list" environment
  | Edits edit_outcome

definition Context_inject :: "cli_world \<Rightarrow> cli_context \<Rightarrow> string list \<Rightarrow> cli_outcome option" where
  "Context_inject w cx arguments =
     (let usage = Some (Prints ([], Inl CliUsage));
          names = takeWhile (\<lambda>a. a \<noteq> ''--'') arguments
      in if length names = length arguments then usage
         else case drop (length names + 1) arguments of
             [] \<Rightarrow> usage
           | command # rest \<Rightarrow>
               if names = [] then usage
               else map_option (\<lambda>r.
                   case r of
                     Inl err \<Rightarrow> Prints ([], Inl err)
                   | Inr env \<Rightarrow>
                       (case cw_exec w of
                          None \<Rightarrow> Becomes command rest env (command_envs env (cw_env w))
                        | Some err \<Rightarrow> Prints ([], Inl (CliExec err)))) (inject_values w 0 cx names))"

definition Context_grants :: "cli_world \<Rightarrow> report option" where
  "Context_grants w =
     map_option (\<lambda>r.
         case r of
           Inl err \<Rightarrow> ([], Inl err)
         | Inr (BrBytes bytes) \<Rightarrow> ([bytes], Inr ())
         | Inr _ \<Rightarrow> ([], Inl (CliError_from_client CeInvalidResponse)))
       (Context_broker_call w 0 ''GRANTS'')"

definition deny_request :: "nat \<Rightarrow> string" where
  "deny_request i = ''DENY'' @ [tab] @ ''id='' @ nat_to_string i"

definition Context_deny :: "cli_world \<Rightarrow> string \<Rightarrow> report option" where
  "Context_deny w raw_id =
     (case Option.bind (from_utf8 raw_id) (parse_unsigned 10 U64_MAX) of
        None \<Rightarrow> Some ([], Inl CliUsage)
      | Some i \<Rightarrow> Context_expect_ok w (deny_request i))"

definition Context_lock :: "cli_world \<Rightarrow> report option" where
  "Context_lock w = Context_expect_ok w ''LOCK''"

definition run_edit :: "cli_world \<Rightarrow> cli_error + edit_action \<Rightarrow> cli_outcome option" where
  "run_edit w action =
     Some (case action of
             Inl err \<Rightarrow> Prints ([], Inl err)
           | Inr a \<Rightarrow> Edits (perform_edit ((cw_temp w)\<lparr>tp_env := cw_env w, tp_uid := cw_uid w\<rparr>) (cw_encrypt w) (cw_piped w) (cw_pipe w) (cw_exec w) a (cw_disk w)))"

definition cli_run :: "cli_world \<Rightarrow> string list \<Rightarrow> cli_outcome option" where
  "cli_run w all_arguments =
     (case tl all_arguments of
        [] \<Rightarrow> Some (Prints ([], Inl CliUsage))
      | command # rest \<Rightarrow>
          let arguments = command # rest in
          if command = ''sources'' then
            Some (Prints (if length arguments \<noteq> 1 then ([], Inl CliUsage)
                          else sources_run (cw_env w) (cw_config w) (cw_toml w) (cw_fs w)))
          else case Context_from_environment w of
              Inl err \<Rightarrow> Some (Prints ([], Inl err))
            | Inr cx \<Rightarrow>
                if command = ''get'' then
                  (case get_arguments arguments of
                     Inl err \<Rightarrow> Some (Prints ([], Inl err))
                   | Inr (raw, output) \<Rightarrow> map_option Prints (Context_get w cx raw output))
                else if command = ''list'' then Some (Prints (Context_list w cx))
                else if command = ''edit'' then run_edit w (edit_agent (cw_exists w) (cx_sources cx) arguments False)
                else if command = ''edit-local'' then run_edit w (edit_agent (cw_exists w) (cx_sources cx) arguments True)
                else if command = ''edit-human'' then
                  run_edit w (edit_human (cw_create_dir_all w) (\<not> cw_is_terminal w) (cx_sources cx) (cx_human cx) arguments)
                else if command = ''grants'' then map_option Prints (Context_grants w)
                else if command = ''deny'' then
                  (case argument_at arguments 1 of
                     Inl err \<Rightarrow> Some (Prints ([], Inl err))
                   | Inr raw_id \<Rightarrow> map_option Prints (Context_deny w raw_id))
                else if command = ''lock'' then map_option Prints (Context_lock w)
                else Context_inject w cx arguments)"

section \<open>The executable\<close>

definition report_failure :: "string \<Rightarrow> string" where
  "report_failure err = ''secrets: '' @ err @ [newline]"

text \<open>What \<open>main\<close> does: it serves, refuses with a text on standard error, or runs a command and then, if that
  failed, writes a text to standard error and exits with a failure.\<close>

datatype main_outcome = MainServes | MainFails string | MainRuns cli_outcome "string option"

definition outcome_result :: "cli_world \<Rightarrow> cli_outcome \<Rightarrow> cli_error + unit" where
  "outcome_result w out =
     (case out of
        Prints report \<Rightarrow> snd (print_report (cw_stdout w) report)
      | Edits (EditReturns _ r) \<Rightarrow> r
      | _ \<Rightarrow> Inr ())"

definition secrets_main :: "cli_world \<Rightarrow> string list \<Rightarrow> main_outcome option" where
  "secrets_main w arguments =
     (if 1 < length arguments \<and> arguments ! 1 = ''serve'' then
        Some (if 2 < length arguments then MainFails (report_failure ''serve does not accept arguments'') else MainServes)
      else map_option (\<lambda>out.
             MainRuns out (case outcome_result w out of Inr _ \<Rightarrow> None | Inl err \<Rightarrow> Some (report_failure (CliError_fmt err))))
             (cli_run w arguments))"

section \<open>A key of both tiers\<close>

lemma AgentStore_all_lookup:
  "AgentStore_all fs sops store = Inr agent \<Longrightarrow> map_of agent name = map_of (agent_assignments fs sops store) name"
  using merge_files_ok [OF _ btree.inv_empty, of fs sops store "as_files store" agent name]
  by (simp add: AgentStore_all_def agent_assignments_def present_files_def)

lemma reject_duplicates_iff:
  "Context_reject_duplicates cx agent = Inr () \<longleftrightarrow> (\<forall>name. HumanNames_contains (cx_human cx) name \<longrightarrow> map_of agent name = None)"
proof (cases "find (\<lambda>(name, _). map_of agent name \<noteq> None) (cx_human cx)")
  case None
  then have "Context_reject_duplicates cx agent = Inr ()" unfolding Context_reject_duplicates_def by simp
  moreover have "map_of agent name = None" if "HumanNames_contains (cx_human cx) name" for name
    using None that unfolding find_None_iff by (auto simp: HumanNames_contains_def dest: map_of_SomeD)
  ultimately show ?thesis by blast
next
  case (Some p)
  then obtain i where "i < length (cx_human cx)" "cx_human cx ! i = p" "map_of agent (fst p) \<noteq> None"
    by (auto simp: find_Some_iff)
  then have "p \<in> set (cx_human cx)" "map_of agent (fst p) \<noteq> None" by auto
  moreover from this(1) have "map_of (cx_human cx) (fst p) \<noteq> None" by (metis image_eqI map_of_eq_None_iff)
  ultimately show ?thesis using Some by (auto simp: Context_reject_duplicates_def HumanNames_contains_def split: prod.splits)
qed

lemma reject_duplicates_cases:
  "Context_reject_duplicates cx agent = Inr () \<or> (\<exists>n. Context_reject_duplicates cx agent = Inl (CliAmbiguousKey n))"
  by (auto simp: Context_reject_duplicates_def split: option.split)

lemma Context_value_Inr:
  assumes "Context_value w k cx name = Some (Inr v)"
  shows "if HumanNames_contains (cx_human cx) name
    then map_of (agent_assignments (cw_fs w) (cw_sops w) (cx_agent cx)) name = None
      \<and> (\<exists>client. cli_human_client w = Inr client
        \<and> HumanClient_get (cw_reserves w) (cw_hello w k) (cw_call w k) client name = Some (Inr v))
    else map_of (agent_assignments (cw_fs w) (cw_sops w) (cx_agent cx)) name = Some v"
proof -
  obtain agent where a: "AgentStore_all (cw_fs w) (cw_sops w) (cx_agent cx) = Inr agent"
    using assms by (auto simp: Context_value_def split: sum.splits)
  note look = AgentStore_all_lookup [OF a, of name]
  show ?thesis
  proof (cases "HumanNames_contains (cx_human cx) name")
    case True
    then have "Context_reject_duplicates cx agent = Inr ()"
      using assms a reject_duplicates_cases [of cx agent] by (auto simp: Context_value_def)
    moreover from this True assms a obtain client r where c: "cli_human_client w = Inr client"
      and "HumanClient_get (cw_reserves w) (cw_hello w k) (cw_call w k) client name = Some r"
      "map_err CliError_from_client r = Inr v"
      by (auto simp: Context_value_def with_human_client_def split: sum.splits)
    then have "HumanClient_get (cw_reserves w) (cw_hello w k) (cw_call w k) client name = Some (Inr v)"
      by (cases r) auto
    ultimately show ?thesis using True look c reject_duplicates_iff [of cx agent] by auto
  next
    case False
    then show ?thesis using assms a look by (simp add: Context_value_def ok_or_Inr)
  qed
qed

lemma inject_values_Inr:
  "inject_values w k cx raws = Some (Inr env) \<Longrightarrow>
     \<exists>names. raws = map as_str names \<and> map fst env = raws \<and> length env = length names
       \<and> (\<forall>i < length names. Context_value w (k + i) cx (names ! i) = Some (Inr (snd (env ! i))))"
proof (induction w k cx raws arbitrary: env rule: inject_values.induct)
  case (2 w k cx raw raws)
  then obtain name v where n: "parse_name raw = Inr name" "Context_value w k cx name = Some (Inr v)"
    by (auto split: sum.splits option.splits)
  then obtain rest where r: "inject_values w (Suc k) cx raws = Some (Inr rest)" "env = (as_str name, v) # rest"
    using 2(2) by (auto simp: and_then_Inr)
  from "2.IH" [OF n(1,2) refl r(1)] obtain names where h: "raws = map as_str names" "map fst rest = raws" "length rest = length names"
    "\<forall>i < length names. Context_value w (Suc k + i) cx (names ! i) = Some (Inr (snd (rest ! i)))" by blast
  have "Context_value w (k + i) cx ((name # names) ! i) = Some (Inr (snd (env ! i)))" if "i < length (name # names)" for i
    using that n(2) r(2) h(4) by (cases i) auto
  then show ?case using parse_name_Inr [OF n(1)] r(2) h by (intro exI [of _ "name # names"]) auto
qed simp

text \<open>With a key of both tiers, what reading any name gives does not depend on the daemon.\<close>

lemma Context_value_duplicate:
  assumes "AgentStore_all (cw_fs w) (cw_sops w) (cx_agent cx) = Inr agent"
    and "Context_reject_duplicates cx agent = Inl (CliAmbiguousKey n)"
  shows "Context_value w k cx name =
    Some (if HumanNames_contains (cx_human cx) name then Inl (CliAmbiguousKey n) else ok_or (CliMissingSecret name) (map_of agent name))"
  using assms by (simp add: Context_value_def)

text \<open>The loop of \<open>inject\<close> when a key is in both tiers, without the daemon.\<close>

fun inject_duplicate :: "cli_context \<Rightarrow> secret_bytes btree \<Rightarrow> secret_name \<Rightarrow> string list \<Rightarrow> cli_error + (string \<times> string) list" where
  "inject_duplicate cx agent n [] = Inr []"
| "inject_duplicate cx agent n (raw # raws) =
     and_then (parse_name raw) (\<lambda>name.
     and_then (if HumanNames_contains (cx_human cx) name then Inl (CliAmbiguousKey n) else ok_or (CliMissingSecret name) (map_of agent name)) (\<lambda>v.
     and_then (inject_duplicate cx agent n raws) (\<lambda>rest. Inr ((as_str name, v) # rest))))"

lemma inject_values_duplicate:
  assumes "AgentStore_all (cw_fs w) (cw_sops w) (cx_agent cx) = Inr agent"
    and "Context_reject_duplicates cx agent = Inl (CliAmbiguousKey n)"
  shows "inject_values w k cx raws = Some (inject_duplicate cx agent n raws)"
proof (induction raws arbitrary: k)
  case (Cons raw raws)
  then show ?case
    by (auto simp: Context_value_duplicate [OF assms] and_then_def ok_or_def split: sum.split option.split)
qed simp

lemma inject_duplicate_fails:
  assumes "HumanNames_contains (cx_human cx) name" and "as_str name \<in> set raws"
  shows "\<exists>err. inject_duplicate cx agent n raws = Inl err"
  using assms(2)
proof (induction raws)
  case (Cons raw raws)
  show ?case
  proof (cases "parse_name raw")
    case (Inr nm)
    have "nm = name" if "raw = as_str name" using parse_name_Inr [OF Inr] that by (metis secret_name.expand)
    with Cons Inr assms(1) show ?thesis by (auto simp: and_then_def ok_or_def split: sum.split option.split)
  qed (simp add: and_then_def)
qed simp

lemma inject_duplicate_ambiguous:
  assumes "HumanNames_contains (cx_human cx) name" and "as_str name \<in> set raws"
    and "\<forall>raw \<in> set raws. \<exists>nm. parse_name raw = Inr nm \<and> (HumanNames_contains (cx_human cx) nm \<or> map_of agent nm \<noteq> None)"
  shows "inject_duplicate cx agent n raws = Inl (CliAmbiguousKey n)"
  using assms(2,3)
proof (induction raws)
  case (Cons raw raws)
  then obtain nm where nm: "parse_name raw = Inr nm" "HumanNames_contains (cx_human cx) nm \<or> map_of agent nm \<noteq> None" by auto
  have "nm = name" if "raw = as_str name" using parse_name_Inr [OF nm(1)] that by (metis secret_name.expand)
  with Cons nm assms(1) show ?case by (auto simp: and_then_def ok_or_def split: sum.split option.split)
qed simp

lemma Context_inject_split:
  assumes "''--'' \<notin> set raws" and "raws \<noteq> []"
  shows "Context_inject w cx (raws @ ''--'' # command # rest) =
    map_option (\<lambda>r. case r of
        Inl err \<Rightarrow> Prints ([], Inl err)
      | Inr env \<Rightarrow> (case cw_exec w of
            None \<Rightarrow> Becomes command rest env (command_envs env (cw_env w))
          | Some err \<Rightarrow> Prints ([], Inl (CliExec err)))) (inject_values w 0 cx raws)"
proof -
  have "takeWhile (\<lambda>a. a \<noteq> ''--'') (raws @ ''--'' # command # rest) = raws"
    using assms(1) by (induction raws) auto
  then show ?thesis using assms(2) by (simp add: Context_inject_def Let_def)
qed

text \<open>C16: A key of both tiers is never served. If a name has an agent-tier assignment and is also a human key, then every
  command that reads keys refuses it. Asking for its value, for a grant or for its status, and listing, fail
  with the ambiguity and without a call to the daemon. Injecting it into a command fails and nothing is
  executed, whatever a daemon would answer; the error is the ambiguity if every name in the list is well formed
  and in some tier, and otherwise it may be that of a bad name before it. (The encrypted files have to show the
  names they hold. The commands that edit are not meant: \<open>edit-human\<close> does not look at the agent tier.)\<close>

theorem ambiguous_key_never_served:
  assumes "AgentStore_all (cw_fs w) (cw_sops w) (cx_agent cx) = Inr agent" and "map_of agent name \<noteq> None"
    and "HumanNames_contains (cx_human cx) name"
    and "\<forall>path \<in> set (present_files (cw_fs w) (cx_agent cx)). keeps_names (cw_fs w) (cw_sops w) (cx_agent cx) path"
  shows "(\<exists>n. Context_value w k cx name = Some (Inl (CliAmbiguousKey n)))
    \<and> Context_request_grant w cx name = Some ([], Inl (CliAmbiguousKey name))
    \<and> Context_status w cx name = Some ([], Inl (CliAmbiguousKey name))
    \<and> (\<exists>n. Context_list w cx = ([], Inl (CliAmbiguousKey n)))
    \<and> (as_str name \<in> set raws \<longrightarrow> ''--'' \<notin> set raws \<longrightarrow>
         (\<exists>err. (\<forall>hello call. Context_inject (w\<lparr>cw_hello := hello, cw_call := call\<rparr>) cx (raws @ ''--'' # command # rest) =
                     Some (Prints ([], Inl err)))
            \<and> ((\<forall>raw \<in> set raws. \<exists>nm. parse_name raw = Inr nm \<and> (HumanNames_contains (cx_human cx) nm \<or> map_of agent nm \<noteq> None)) \<longrightarrow>
                 (\<exists>n. err = CliAmbiguousKey n))))"
proof -
  have look: "map_of (agent_assignments (cw_fs w) (cw_sops w) (cx_agent cx)) name \<noteq> None"
    using AgentStore_all_lookup [OF assms(1)] assms(2) by simp
  have c: "AgentStore_contains (cw_fs w) (cx_agent cx) name = Inr True"
    using AgentStore_contains_names [OF assms(4)] look by simp
  obtain n where d: "Context_reject_duplicates cx agent = Inl (CliAmbiguousKey n)"
    using reject_duplicates_cases [of cx agent] reject_duplicates_iff [of cx agent] assms(2,3) by auto
  have v: "Context_value w k cx name = Some (Inl (CliAmbiguousKey n))"
    using Context_value_duplicate [OF assms(1) d] assms(3) by simp
  have "\<exists>err. (\<forall>hello call. Context_inject (w\<lparr>cw_hello := hello, cw_call := call\<rparr>) cx (raws @ ''--'' # command # rest) =
          Some (Prints ([], Inl err)))
      \<and> ((\<forall>raw \<in> set raws. \<exists>nm. parse_name raw = Inr nm \<and> (HumanNames_contains (cx_human cx) nm \<or> map_of agent nm \<noteq> None)) \<longrightarrow>
          (\<exists>n. err = CliAmbiguousKey n))"
    if raw: "as_str name \<in> set raws" "''--'' \<notin> set raws"
  proof -
    obtain err where err: "inject_duplicate cx agent n raws = Inl err" using inject_duplicate_fails [OF assms(3) raw(1)] by blast
    have "inject_values (w\<lparr>cw_hello := hello, cw_call := call\<rparr>) 0 cx raws = Some (Inl err)" for hello call
      using inject_values_duplicate [of "w\<lparr>cw_hello := hello, cw_call := call\<rparr>" cx agent n 0 raws] assms(1) d err by simp
    moreover have "raws \<noteq> []" using raw(1) by auto
    ultimately have "Context_inject (w\<lparr>cw_hello := hello, cw_call := call\<rparr>) cx (raws @ ''--'' # command # rest) = Some (Prints ([], Inl err))"
      for hello call by (simp add: Context_inject_split [OF raw(2)])
    with inject_duplicate_ambiguous [OF assms(3) raw(1), of agent n] err show ?thesis by auto
  qed
  then show ?thesis
    using v c d assms(1,3) by (auto simp: Context_request_grant_def Context_status_def Context_list_def)
qed

text \<open>A small world: one agent file with the key \<open>K\<close>, no daemon.\<close>

definition sample_transport :: transport where
  "sample_transport = \<lparr>tr_connect = \<lambda>_. Some (IoFailure (KindOther ''NotFound'') ''no daemon''), tr_set_read_timeout = \<lambda>_. None,
     tr_set_write_timeout = \<lambda>_. None, tr_write = \<lambda>_. None, tr_reads = \<lambda>_. []\<rparr>"

definition sample_world :: cli_world where
  "sample_world =
     \<lparr>cw_env = \<lambda>_. None, cw_uid = 1000, cw_config = \<lparr>cf_read_to_string = \<lambda>_. Inl None, cf_is_dir = \<lambda>_. False\<rparr>,
      cw_toml = \<lparr>tr_parse = \<lambda>_. Inl [], tr_try_into = \<lambda>_. Inl []\<rparr>,
      cw_fs = \<lparr>cfs_is_file = \<lambda>p. p = ''/a'', cfs_read = \<lambda>_. Inr (''K=ENC'' @ [newline] @ ''sops_mac=x''),
               cfs_is_dir = \<lambda>_. False, cfs_read_dir = \<lambda>_. Inr []\<rparr>,
      cw_sops = \<lambda>_. Inr (True, ''K=v'' @ [newline]), cw_token = \<lambda>_. None, cw_is_terminal = False, cw_link = None,
      cw_reserves = \<lambda>_. True, cw_hello = \<lambda>_. sample_transport, cw_call = \<lambda>_. sample_transport, cw_stdout = \<lambda>_. None, cw_exec = None,
      cw_exists = \<lambda>_. False, cw_create_dir_all = \<lambda>_. None, cw_temp = sample_temp True, cw_encrypt = sample_encrypt,
      cw_piped = sample_piped ''v'', cw_pipe = sample_pipe, cw_disk = blank_disk\<rparr>"

definition sample_context :: "human_names \<Rightarrow> cli_context" where
  "sample_context human = \<lparr>cx_agent = \<lparr>as_files = [''/a''], as_sops_bin = ''sops''\<rparr>, cx_human = human, cx_sources = \<lparr>so_roots = []\<rparr>\<rparr>"

lemma sample_world_agent:
  "AgentStore_all (cw_fs sample_world) (cw_sops sample_world) (cx_agent (sample_context human)) = Inr [(SecretName ''K'', ''v'')]"
  "present_files (cw_fs sample_world) (cx_agent (sample_context human)) = [''/a'']"
  "AgentStore_names_in (cw_fs sample_world) ''/a'' = Inr [SecretName ''K'']"
  "dotenv_assignments (decrypted_lines (cw_sops sample_world) (cx_agent (sample_context human)) ''/a'') = [(SecretName ''K'', ''v'')]"
proof -
  have "AgentStore_all (cw_fs sample_world) (cw_sops sample_world) \<lparr>as_files = [''/a''], as_sops_bin = ''sops''\<rparr> = Inr [(SecretName ''K'', ''v'')]"
    "present_files (cw_fs sample_world) \<lparr>as_files = [''/a''], as_sops_bin = ''sops''\<rparr> = [''/a'']" by code_simp+
  then show "AgentStore_all (cw_fs sample_world) (cw_sops sample_world) (cx_agent (sample_context human)) = Inr [(SecretName ''K'', ''v'')]"
    "present_files (cw_fs sample_world) (cx_agent (sample_context human)) = [''/a'']"
    by (simp_all add: sample_context_def)
  show "AgentStore_names_in (cw_fs sample_world) ''/a'' = Inr [SecretName ''K'']"
    "dotenv_assignments (decrypted_lines (cw_sops sample_world) (cx_agent (sample_context human)) ''/a'') = [(SecretName ''K'', ''v'')]" by code_simp+
qed

theorem ambiguous_key_never_served_witness:
  "let cx = sample_context [(SecretName ''K'', \<lparr>hl_label = ''dots'', hl_path = ''/h/K.env''\<rparr>)] in
   (\<exists>n. Context_value sample_world 0 cx (SecretName ''K'') = Some (Inl (CliAmbiguousKey n)))
   \<and> Context_request_grant sample_world cx (SecretName ''K'') = Some ([], Inl (CliAmbiguousKey (SecretName ''K'')))
   \<and> (\<exists>n. Context_inject sample_world cx [''K'', ''--'', ''env''] = Some (Prints ([], Inl (CliAmbiguousKey n))))"
proof -
  let ?cx = "sample_context [(SecretName ''K'', \<lparr>hl_label = ''dots'', hl_path = ''/h/K.env''\<rparr>)]"
  have h: "HumanNames_contains (cx_human ?cx) (SecretName ''K'')" by (simp add: sample_context_def HumanNames_contains_def)
  have m: "map_of [(SecretName ''K'', ''v'')] (SecretName ''K'') \<noteq> None" by simp
  have k: "\<forall>path \<in> set (present_files (cw_fs sample_world) (cx_agent ?cx)). keeps_names (cw_fs sample_world) (cw_sops sample_world) (cx_agent ?cx) path"
    unfolding sample_world_agent(2) using sample_world_agent(3,4) by (simp add: keeps_names_def)
  have p: "parse_name ''K'' = Inr (SecretName ''K'')" by code_simp
  have w: "sample_world\<lparr>cw_hello := cw_hello sample_world, cw_call := cw_call sample_world\<rparr> = sample_world" by simp
  from ambiguous_key_never_served [OF sample_world_agent(1) m h k, of 0 "[''K'']" "''env''" "[]"] p h
  obtain err n where "\<forall>hello call. Context_inject (sample_world\<lparr>cw_hello := hello, cw_call := call\<rparr>) ?cx [''K'', ''--'', ''env''] = Some (Prints ([], Inl err))"
      "err = CliAmbiguousKey n"
    by auto
  then have "Context_inject sample_world ?cx [''K'', ''--'', ''env''] = Some (Prints ([], Inl (CliAmbiguousKey n)))" using w by metis
  with ambiguous_key_never_served [OF sample_world_agent(1) m h k, of 0 "[]"] show ?thesis unfolding Let_def by blast
qed

section \<open>Injection\<close>

lemma command_envs_lookup:
  "command_envs added inherited x = (case map_of (rev added) x of Some v \<Rightarrow> Some v | None \<Rightarrow> inherited x)"
  unfolding command_envs_def
  by (induction added arbitrary: inherited) (auto simp: map_add_def split: option.split)

text \<open>C19: An injected command gets exactly what was asked for. If the client becomes the command, the arguments were
  names, a separator and the command with its own arguments; the variables added are those names in their order,
  and each has the value of its one tier: what the daemon answered for a human key, which no agent file
  assigns, and the first assignment otherwise. The environment of the program is the inherited one with these
  variables in it, the last one given if a name was given twice, and every other variable as it was.\<close>

theorem inject_environment_exact:
  assumes "Context_inject w cx arguments = Some (Becomes command rest env child)"
  shows "\<exists>names. arguments = map as_str names @ ''--'' # command # rest \<and> names \<noteq> [] \<and> map fst env = map as_str names
    \<and> (\<forall>i < length names.
         if HumanNames_contains (cx_human cx) (names ! i)
         then map_of (agent_assignments (cw_fs w) (cw_sops w) (cx_agent cx)) (names ! i) = None
           \<and> (\<exists>client. cli_human_client w = Inr client
                \<and> HumanClient_get (cw_reserves w) (cw_hello w i) (cw_call w i) client (names ! i)
                = Some (Inr (snd (env ! i))))
         else map_of (agent_assignments (cw_fs w) (cw_sops w) (cx_agent cx)) (names ! i) = Some (snd (env ! i)))
    \<and> (\<forall>x. child x = (case map_of (rev env) x of Some v \<Rightarrow> Some v | None \<Rightarrow> cw_env w x))"
proof -
  define raws where raws: "raws = takeWhile (\<lambda>a. a \<noteq> ''--'') arguments"
  obtain r where r: "inject_values w 0 cx raws = Some r"
    using assms by (auto simp: Context_inject_def Let_def raws split: if_splits list.splits)
  have s: "length raws \<noteq> length arguments" "drop (length raws + 1) arguments = command # rest" "raws \<noteq> []" "r = Inr env"
      "child = command_envs env (cw_env w)"
    using assms r
    by (auto simp: Context_inject_def Let_def simp flip: raws split: if_splits list.splits sum.splits option.splits)
  obtain y t where t: "dropWhile (\<lambda>a. a \<noteq> ''--'') arguments = y # t"
    using s(1) raws by (cases "dropWhile (\<lambda>a. a \<noteq> ''--'') arguments") (auto simp: takeWhile_eq_all_conv [THEN iffD2])
  then have y: "y = ''--''" using hd_dropWhile [of "\<lambda>a. a \<noteq> ''--''" arguments] by auto
  have a0: "arguments = raws @ ''--'' # t" using takeWhile_dropWhile_id [of "\<lambda>a. a \<noteq> ''--''" arguments] unfolding t y raws by simp
  have "t = command # rest" using s(2) by (subst (asm) a0) simp
  with a0 have a: "arguments = raws @ ''--'' # command # rest" by simp
  from r s(4) have "inject_values w 0 cx raws = Some (Inr env)" by simp
  from inject_values_Inr [OF this] obtain names where n: "raws = map as_str names" "map fst env = raws"
    "\<forall>i < length names. Context_value w i cx (names ! i) = Some (Inr (snd (env ! i)))" by auto
  have "\<forall>x. child x = (case map_of (rev env) x of Some v \<Rightarrow> Some v | None \<Rightarrow> cw_env w x)"
    by (simp add: s(5) command_envs_lookup)
  then show ?thesis
    using a n s(3) Context_value_Inr by (intro exI [of _ names]) (metis list.map_disc_iff)
qed

theorem inject_environment_exact_witness:
  "\<exists>names. [''K'', ''--'', ''env'', ''-0''] = map as_str names @ ''--'' # ''env'' # [''-0''] \<and> names \<noteq> []
     \<and> map fst [(''K'', ''v'')] = map as_str names
     \<and> map_of (agent_assignments (cw_fs sample_world) (cw_sops sample_world) (cx_agent (sample_context []))) (names ! 0) = Some ''v''
     \<and> command_envs [(''K'', ''v'')] (cw_env sample_world) ''K'' = Some ''v''"
proof -
  have v: "inject_values sample_world 0 (sample_context []) [''K''] = Some (Inr [(''K'', ''v'')])" by code_simp
  have "cw_exec sample_world = None" by (simp add: sample_world_def)
  then have i: "Context_inject sample_world (sample_context []) [''K'', ''--'', ''env'', ''-0''] =
      Some (Becomes ''env'' [''-0''] [(''K'', ''v'')] (command_envs [(''K'', ''v'')] (cw_env sample_world)))"
    using v by (simp add: Context_inject_def Let_def del: inject_values.simps)
  have human: "HumanNames_contains (cx_human (sample_context [])) name = False" for name
    by (simp add: sample_context_def HumanNames_contains_def)
  from inject_environment_exact [OF i, unfolded human if_False] obtain names where
    n: "[''K'', ''--'', ''env'', ''-0''] = map as_str names @ ''--'' # ''env'' # [''-0'']" "names \<noteq> []" "map fst [(''K'', ''v'')] = map as_str names"
    and v: "\<forall>i < length names. map_of (agent_assignments (cw_fs sample_world) (cw_sops sample_world) (cx_agent (sample_context []))) (names ! i)
        = Some (snd ([(''K'', ''v'')] ! i))"
    and x: "command_envs [(''K'', ''v'')] (cw_env sample_world) ''K'' =
        (case map_of (rev [(''K'', ''v'')]) ''K'' of Some v \<Rightarrow> Some v | None \<Rightarrow> cw_env sample_world ''K'')"
    by blast
  from n(2) v [rule_format, of 0] n x show ?thesis by (intro exI [of _ names]) simp
qed

section \<open>Control requests\<close>

lemma deny_parses: "i \<le> U64_MAX \<Longrightarrow> parse_request (deny_request i) = Inr (Deny i)"
proof -
  assume i: "i \<le> U64_MAX"
  have l: "length (nat_to_string i) \<le> 20" using i by (intro length_nat_to_string_le) (simp_all add: U64_MAX_def)
  have t: "tab \<notin> set ''DENY''" "tab \<notin> set (''id='' @ nat_to_string i)" "CHR ''='' \<notin> set ''id''"
    using nat_to_string_ascii [of i] by (simp_all add: tab_def)
  have p: "parse_fields [] [''id='' @ nat_to_string i] = Inr [(''id'', nat_to_string i)]"
    using split_once_append [OF t(3), of "nat_to_string i"] by (simp add: field_def)
  have "list_all is_ascii (deny_request i)"
    using nat_to_string_ascii [of i] is_ascii_tab by (simp add: deny_request_def is_ascii_def byte_val_def)
  then have u: "from_utf8 (deny_request i) = Some (deny_request i)" by (rule from_utf8_ascii)
  have "deny_request i = ''DENY'' @ tab # (''id='' @ nat_to_string i)" by (simp add: deny_request_def)
  then have "split_on tab (deny_request i) = [''DENY'', ''id='' @ nat_to_string i]"
    by (simp only: split_on_append_sep [OF t(1)] split_on_no_sep [OF t(2)])
  moreover have "length (deny_request i) \<le> MAX_FRAME_BYTES" using l by (simp add: deny_request_def MAX_FRAME_BYTES_def)
  moreover have "deny_request i \<noteq> []" by (simp add: deny_request_def)
  ultimately show ?thesis
    using u p i by (simp add: parse_request_def build_request_def required_def field_def parse_nat_to_string)
qed

text \<open>The control commands reach their handlers: the frames of \<open>grants\<close> and \<open>lock\<close> are parsed by the daemon as those
  requests, and the frame of \<open>deny\<close> as the denial of exactly the id given on the command line; an id that is no
  64-bit number is refused before anything is sent.\<close>

theorem control_requests_understood:
  "parse_request ''GRANTS'' = Inr Grants \<and> parse_request ''LOCK'' = Inr Lock
   \<and> (i \<le> U64_MAX \<longrightarrow> parse_request (deny_request i) = Inr (Deny i)
        \<and> Context_deny w (nat_to_string i) = Context_expect_ok w (deny_request i))
   \<and> (U64_MAX < i \<longrightarrow> Context_deny w (nat_to_string i) = Some ([], Inl CliUsage))"
proof -
  have "parse_request ''GRANTS'' = Inr Grants" "parse_request ''LOCK'' = Inr Lock" by code_simp+
  moreover have u: "from_utf8 (nat_to_string i) = Some (nat_to_string i)" using nat_to_string_ascii by (blast intro: from_utf8_ascii)
  moreover have "parse_unsigned 10 U64_MAX (nat_to_string i) = None" if "U64_MAX < i"
    using that from_digits_nat_to_string [of i] nat_to_string_no_plus [of i] nat_to_string_nonempty [of i]
    by (auto simp: parse_unsigned_def split: list.splits if_splits)
  ultimately show ?thesis using deny_parses parse_nat_to_string [of i U64_MAX] by (auto simp: Context_deny_def)
qed

theorem control_requests_understood_witness:
  "parse_request (deny_request 42) = Inr (Deny 42) \<and> Context_deny sample_world (nat_to_string 42) = Context_expect_ok sample_world (deny_request 42)"
  using control_requests_understood [of 42 sample_world] by (simp add: U64_MAX_def)

end
