(* ===== verification/Spec2Isabelle.thy ===== *)
theory Spec2Isabelle
  imports Progress Hardening Cli
begin

text \<open>
  \<^bold>\<open>secretsd: a broker of secrets and the command line that asks it\<close>

  \<^bold>\<open>The program.\<close> \<open>secretsd\<close> is a daemon that owns a tier of secrets encrypted to a hardware key. A client
  connects to a Unix socket, sends one line and reads one answer. A request for a value is answered from a
  grant that the caller's scope (a registered session, or a terminal) already holds, or enters an approval
  queue; one worker takes requests from the queue, runs \<open>sops\<close>, for which a human touches the hardware, and
  installs a grant that expires. A capability is approved the same way but gives a receipt, redeemed once.
  The \<open>secrets\<close> executable is the client: it joins the daemon's human tier with an agent tier of dotenv files
  that it decrypts itself, prints values, injects them into a program, and creates and rotates encrypted
  files.

  \<^bold>\<open>Theories and sources\<close> (under \<open>src/src/\<close>), in the order of their imports:

  \<^item> \<open>Prelude\<close>: how Rust's types are read, the standard library that is called (UTF-8, lines, splits, number
    parsing, paths, durations), lemmas about them, and the locale \<open>keyed_table\<close>, a vector used as a map.
  \<^item> \<open>Proto\<close>: \<open>proto.rs\<close>, \<open>proto/response.rs\<close>. Error codes, \<open>parse_request\<close>, headers; locale \<open>wire_codec\<close>.
  \<^item> \<open>Secret\<close>: \<open>secret.rs\<close>. Names, file names of the human tier, the one-assignment rule of plaintext.
  \<^item> \<open>Capability\<close>, \<open>Peer\<close>, \<open>Store\<close>: \<open>capability.rs\<close>, \<open>peer.rs\<close> (pinned peers and ancestry through \<open>/proc\<close>),
    \<open>store.rs\<close> (directories of the human tier: scan, locate, open, identity of a file).
  \<^item> \<open>Grants\<close>: \<open>grants.rs\<close>. Tokens, the registry of sessions, \<open>resolve\<close>, the table of grants.
  \<^item> \<open>Requests\<close>: \<open>requests.rs\<close>. The approval queue: enqueue, start, complete, fail, deny, expiry, cooldown.
  \<^item> \<open>Receipts\<close>: \<open>receipts.rs\<close>. Mint, redeem by the constant-time scan, sweep, clear.
  \<^item> \<open>AuditValue\<close>: \<open>audit.rs\<close>. \<open>Decrypt\<close>: \<open>decrypt.rs\<close>. \<open>Config\<close>: \<open>config.rs\<close> and the settings of \<open>lib.rs\<close>.
    \<open>Hardening\<close>: \<open>hardening.rs\<close> and \<open>serve_main\<close>.
  \<^item> \<open>Server\<close>: \<open>server.rs\<close>. \<open>server_state\<close> is \<open>State\<close>, what one mutex protects; the listener, frames, lanes,
    the accept loop, the audit context.
  \<^item> \<open>Dispatch\<close>: \<open>server/approval.rs\<close>, \<open>server/dispatch.rs\<close>, and admission and audit of a connection from
    \<open>server.rs\<close>. \<open>Worker\<close>: \<open>server/worker.rs\<close>.
  \<^item> \<open>Broker\<close>: the composition of the daemon. \<open>Scenario\<close>: a concrete daemon for the witnesses.
  \<^item> \<open>Service\<close>: \<open>serve_listener\<close> and \<open>start_connection_workers\<close> of \<open>server.rs\<close>, the accept loop, the channels and
    the pools of threads around the daemon; locale \<open>stuttering_refinement\<close>. \<open>Progress\<close>: that requests end.
  \<^item> \<open>ClientWire\<close>: \<open>client.rs\<close>, \<open>client/response.rs\<close>, the calls of \<open>client/human.rs\<close>. \<open>ClientErrors\<close>:
    \<open>client/error.rs\<close>.
  \<^item> \<open>Tiers\<close>: \<open>client/agent.rs\<close>, \<open>HumanNames\<close> of \<open>client/human.rs\<close>; locale \<open>entry_map\<close>. \<open>Report\<close>:
    \<open>client/status.rs\<close>, \<open>client/sources.rs\<close>.
  \<^item> \<open>Edit\<close>: \<open>client/edit.rs\<close>. \<open>EditNew\<close>: \<open>client/edit/new.rs\<close>. \<open>Cli\<close>: \<open>client/cli.rs\<close>, \<open>bin/secrets.rs\<close>.

  \<^bold>\<open>State and operations.\<close> A struct is a record, an enum a datatype, a method \<open>T::f\<close> the definition \<open>T_f\<close>, a
  \<open>Result\<close> a sum with the error on the left; \<open>&mut self\<close> is a state argument and result. Bytes are \<open>char\<close>,
  tokens and receipts lists of 8-bit words. The mutex makes atomic steps: every stretch of a handler or of
  the worker that holds it is one definition, and what runs in between is a program counter (\<open>handler_pc\<close>,
  \<open>worker_pc\<close>). \<open>broker_step\<close> interleaves any number of connections and the worker; each step sees a
  \<open>world\<close> of its own (clock, \<open>/proc\<close>, files, random bytes), so nothing is assumed about what happens between
  two steps. \<open>service_step\<close> adds the sockets, the lanes and the threads that hold a connection from its first
  read to its last write; its view \<open>sv_broker\<close> moves by \<open>broker_step\<close> or stays. The client's socket, \<open>sops\<close>, the editor and the answers of system calls are arguments likewise,
  and the disk of \<open>EditNew\<close> maps names to inodes and inodes to bytes, so that two names of one file and the
  file replaced under an open descriptor are told apart.

  \<^bold>\<open>What the theorems show.\<close>

  \<^item> C1--C8, the whole daemon, by rule induction over \<open>broker_step\<close> through the locale \<open>kept_invariant\<close>: who gets
    a value (C1); that a session's grants end with the session (C2); that \<open>LOCK\<close> voids what is in flight (C4,
    C5). Some go back along the run: the value of a new grant is what the worker's own \<open>sops\<close> printed for
    the approved request (C3, \<open>sops_printed\<close> over the events of a script), and a receipt's connection had seen
    its own request granted in an earlier state (C6, C7, \<open>approval_seen\<close>). C8 shows in general how a foreign
    process takes over an approval in flight.
  \<^item> C9--C14, the threads and progress: the service refines the daemon and serves only its own user (C9); the
    lanes of requests that need no human drain by themselves as long as their peers take the answers (C10; a
    peer that does neither read nor hang up stalls them, \<open>unread_answer_stalls_lane\<close>), while only the main lane
    waits for a human (C13); an approval reaches the one who asked (C11), every handler ends (C12), and no
    connection is lost (C14).
  \<^item> C15, daemon and client together: the bytes the daemon writes for a value are what the client returns.
  \<^item> C16--C20, the command line: no value for a key of both tiers, no plaintext left behind by a new file, a
    piped secret installed as a whole or not at all, the exact environment of \<open>inject\<close>, and where a client's
    listing agrees with the daemon's candidates and where it does not.
  \<^item> C21--C24, the queue and the receipts: a decided request is never granted, one request at the hardware,
    cooldown between touches, a receipt redeemed once.
  \<^item> C25--C30, the client's parts: precedence of agent files, requests and answers understood on the other
    side, one home per human key, and two errors of the program (C29: plaintext left after a failed editor;
    C30: another session's grant shown as one's own).
  \<^item> C31--C40, the components below: the constant-time scan is a search, when minting and decrypting
    return, the grant table refines a map, an agent's terminal stays untrusted, registration never rebinds, hardening before
    serving, sound source roots, plaintext checked exactly, the ancestry walk against its reference.
  \<^item> Further theorems stand beside their components: bounds on the queue and on audit values, an idle worker that
    can start, the streaming decoder equal to the whole-answer one, \<open>locate\<close> by the files that back a key.

  \<^bold>\<open>Bounds and fuel.\<close> Loops over input are structural on what they read. Loops that wait for something outside
  (reads of a socket, polls of a child process) recurse on the list of what is observed, and \<open>None\<close> means that
  it is not over yet; C32 and C36 prove when they return, and the client's theorems assume that the stream
  ends. Writing an answer and reading a child's pipes may also give \<open>None\<close>: the code sets no deadline for them. \<open>await_approval\<close>'s loop is one \<open>handler_step\<close> per wake-up, and C12 bounds
  the wake-ups by the deadline. The ancestry
  walk has the source's own limit of 64 steps, frames \<open>MAX_FRAME_BYTES\<close>, a ciphertext \<open>MAX_SOPS_CIPHERTEXT_BYTES\<close>.
  Counters saturate at \<open>U64_MAX\<close> where the code saturates; instants and durations are nanoseconds.

  \<^bold>\<open>Not modelled.\<close> Zeroization and memory locking of buffers, whose effect is not observable in values;
  the duration of socket timeouts, the reaping of a child that was killed, a poisoned mutex, the end of a worker thread and log output (the audit
  line is modelled); the two TypeScript plugins, which are other programs that speak the protocol;
  tests and packaging. The TOML parser and \<open>sops\<close> are libraries or programs outside the sources and stay
  arguments.
\<close>

section \<open>Who gets a value\<close>

lemma start_outcome:
  "dispatch_start w caller req st = (st', PcDone d) \<Longrightarrow> (\<forall>v. de_outcome d \<noteq> OutBytes v) \<and> (\<forall>r. de_outcome d \<noteq> OutReceipt r)"
  by (cases req)
     (auto simp: dispatch_start_def Let_def dispatch_hello_def dispatch_register_def dispatch_unregister_def
      dispatch_grants_def dispatch_deny_def dispatch_lock_def dispatch_redeem_def plain_decision_def
      split: prod.splits sum.splits option.splits bool.splits if_splits)

lemma access_done_outcome: "access_done p d' = PcDone d \<Longrightarrow> d = d'"
  by (cases p) auto

lemma approved_outcome:
  "approved p s k app = PcDone d \<Longrightarrow> (\<forall>v. de_outcome d \<noteq> OutBytes v) \<and> (\<forall>r. de_outcome d \<noteq> OutReceipt r)"
  by (auto simp: approved_def split: approval.splits if_splits dest!: access_done_outcome)

text \<open>The only stretches that answer with a value or with a receipt.\<close>

lemma answers_from:
  assumes h: "handler_step w caller pc st = (st', PcDone d)" and new: "pc \<noteq> PcDone d" and pc: "pc_ok q req pc"
    and out: "de_outcome d = OutBytes v \<or> de_outcome d = OutReceipt r"
  shows "(\<exists>s k src i. pc = PcRelease s k src i \<and> d = release_value s k src i st \<and> st' = st)
    \<or> (\<exists>c e d0. pc = PcMint c e d0 \<and> finish_authorization w c e d0 st = Some (st', d))"
  using assms start_outcome [of w caller _ st st' d] approved_outcome [of _ _ _ _ d]
  by (cases pc)
     (auto simp: handler_step_def plain_decision_def split: prod.splits sum.splits option.splits
      dest!: access_done_outcome)

lemma mint_outcome_bytes:
  "finish_authorization w c e d0 st = Some (st', d) \<Longrightarrow> \<forall>v. de_outcome d0 \<noteq> OutBytes v \<Longrightarrow> \<forall>v. de_outcome d \<noteq> OutBytes v"
  by (auto simp: finish_authorization_def split: outcome.splits option.splits if_splits prod.splits sum.splits
      elim!: receipt_mint_failure.elims)

lemma reachable_pc_ok:
  "broker_reachable b \<Longrightarrow> br_connections b n = Some c \<Longrightarrow> pc_ok (ss_queue (br_state b)) (cn_request c) (cn_pc c)"
  using reachable_ok [of b] by (auto simp: broker_ok_def Let_def)

lemma reachable_tables: "broker_reachable b \<Longrightarrow> tables_ok (br_state b)"
  using reachable_ok [of b] by (auto simp: broker_ok_def Let_def)

text \<open>C1: A secret value leaves the daemon only as the answer to a \<open>GET\<close> of a key outside the capability
  namespace, only out of the live grant of exactly that key, and only for the scope that the request itself
  names: the session of the token it presents, which is still registered at that moment, or, without a
  token, the terminal it names. A request with a token never falls back to a terminal's grant.\<close>

theorem value_released_only_to_its_scope:
  assumes "broker_reachable b" and "br_connections b n = Some c" and "cn_pc c \<noteq> PcDone d"
    and "handler_step w (cn_caller c) (cn_pc c) (br_state b) = (st', PcDone d)" and "de_outcome d = OutBytes v"
  shows "\<exists>key token_hex tty k s g.
     cn_request c = Get key token_hex tty \<and> \<not> is_capability_key key \<and> SecretName_parse key = Inr k
     \<and> (case token_hex of
          Some h \<Rightarrow> \<exists>t. SessionToken_parse_hex h = Inr t \<and> s = Session t
                       \<and> Registry_registration (ss_registry (br_state b)) t \<noteq> None
        | None \<Rightarrow> \<exists>device boot. tty = Some device \<and> s = Tty device boot)
     \<and> grants_map (ss_grants (br_state b)) (s, k) = Some g \<and> gr_value g = v"
proof -
  note pc = reachable_pc_ok [OF assms(1,2)]
  obtain s k src i where r: "cn_pc c = PcRelease s k src i" "d = release_value s k src i (br_state b)"
    using answers_from [OF assms(4,3) pc] assms(5) pc by (auto dest: mint_outcome_bytes)
  then obtain g where g: "grants_map (ss_grants (br_state b)) (s, k) = Some g" "gr_value g = v"
    using assms(5) by (auto simp: release_value_def GrantTable_lookup_def grants_map_def split: option.splits)
  have "gr_scope g = s" using g(1) by (auto simp: grants_map_find grant_index_def find_Some_iff)
  then have registered: "Registry_registration (ss_registry (br_state b)) t \<noteq> None" if "s = Session t" for t
    using reachable_tables [OF assms(1)] g(1) that unfolding tables_ok_def grants_registered_def by blast
  from pc r obtain key token_hex tty where req: "cn_request c = Get key token_hex tty" "\<not> is_capability_key key"
    by (auto split: request.splits)
  with pc r g registered show ?thesis
    by (intro exI [of _ key] exI [of _ token_hex] exI [of _ tty] exI [of _ k] exI [of _ s] exI [of _ g])
       (auto simp: serves_def scope_matches_def split: option.splits)
qed

lemma demo_served_release:
  "let b = demo_final demo_served in
     (map_option (\<lambda>c. (cn_request c, cn_pc c)) (br_connections b 1),
      GrantTable_lookup (ss_grants (br_state b)) demo_scope (SecretName ''DB'')) =
     (Some (demo_get, PcRelease demo_scope (SecretName ''DB'') (Some ''test'') (Some 1)),
      Some (''hunter2'', ''test'', FileIdentity_from_stat (example_stat 7)))"
  by code_simp

theorem value_released_only_to_its_scope_witness:
  "\<exists>key token_hex tty k s g.
     demo_get = Get key token_hex tty \<and> \<not> is_capability_key key \<and> SecretName_parse key = Inr k
     \<and> (case token_hex of
          Some h \<Rightarrow> \<exists>t. SessionToken_parse_hex h = Inr t \<and> s = Session t
                       \<and> Registry_registration (ss_registry (br_state (demo_final demo_served))) t \<noteq> None
        | None \<Rightarrow> \<exists>device boot. tty = Some device \<and> s = Tty device boot)
     \<and> grants_map (ss_grants (br_state (demo_final demo_served))) (s, k) = Some g \<and> gr_value g = ''hunter2''"
proof -
  let ?b = "demo_final demo_served"
  let ?d = "release_value demo_scope (SecretName ''DB'') (Some ''test'') (Some 1) (br_state ?b)"
  obtain c where c: "br_connections ?b 1 = Some c" "cn_request c = demo_get"
      "cn_pc c = PcRelease demo_scope (SecretName ''DB'') (Some ''test'') (Some 1)"
    using demo_served_release by (auto simp: Let_def)
  have "handler_step (demo_world 22) (cn_caller c) (cn_pc c) (br_state ?b) = (br_state ?b, PcDone ?d)"
    by (simp add: c(3) handler_step_def)
  moreover have "de_outcome ?d = OutBytes ''hunter2''" using demo_served_release by (simp add: Let_def release_value_def)
  ultimately show ?thesis
    using value_released_only_to_its_scope [OF demo_reachable c(1), where d = ?d and v = "''hunter2''"] c(2,3) by simp
qed






lemma check_grant_registry [simp]: "ss_registry (fst (check_grant w s k ff st)) = ss_registry st"
  by (auto simp: check_grant_def Let_def split: option.split)

lemma enter_registry [simp]: "ss_registry (fst (enter_queue w s k st)) = ss_registry st"
  by (auto simp: enter_queue_def split: option.split sum.split prod.split)

lemma poll_registry [simp]: "ss_registry (fst (poll_approval w wa st)) = ss_registry st"
  by (auto simp: poll_approval_def Let_def split: option.split request_state.split)

lemma await_registry [simp]: "ss_registry (fst (await_enter w s k ff st)) = ss_registry st"
proof -
  obtain st1 a where 1: "check_grant w s k ff st = (st1, a)" by fastforce
  obtain st2 r where 2: "enter_queue w s k st1 = (st2, r)" by fastforce
  have e: "ss_registry st1 = ss_registry st" "ss_registry st2 = ss_registry st1"
    using check_grant_registry [of w s k ff st] enter_registry [of w s k st1] 1 2 by simp_all
  have "ss_registry st3 = ss_registry st2" if "poll_approval (later_world w) wa st2 = (st3, r')" for wa st3 r'
    using poll_registry [of "later_world w" wa st2] that by simp
  with 1 2 e show ?thesis by (auto simp: await_enter_def split: option.split sum.split prod.split)
qed













text \<open>C2: A session's grants never outlive its registration: in every reachable state of the daemon, a live
  grant of a session belongs to a token that is registered. Unregistering a session, or displacing its token
  by registering the session again, leaves it nothing, and no decrypt in flight can add to it.\<close>

theorem session_grants_are_registered:
  assumes "broker_reachable b" and "grants_map (ss_grants (br_state b)) (Session t, k) = Some g"
  shows "Registry_registration (ss_registry (br_state b)) t \<noteq> None"
proof -
  have "gr_scope g = Session t" using assms(2) by (auto simp: grants_map_find grant_index_def find_Some_iff)
  then show ?thesis
    using reachable_tables [OF assms(1)] assms(2) unfolding tables_ok_def grants_registered_def by blast
qed

theorem session_grants_are_registered_witness:
  "Registry_registration (ss_registry (br_state (demo_final demo_served))) (SessionToken (replicate 32 0)) \<noteq> None"
proof -
  obtain g where "grants_map (ss_grants (br_state (demo_final demo_served))) (Session (SessionToken (replicate 32 0)), SecretName ''DB'') = Some g"
    using demo_served_release by (auto simp: Let_def GrantTable_lookup_def grants_map_def demo_scope_def)
  from session_grants_are_registered [OF demo_reachable this] show ?thesis .
qed

section \<open>Where grants come from\<close>

text \<open>C3: Every grant has a ceremony behind it. Let a daemon run through the script \<open>es\<close> from its start, and let its next
  step make a grant of a scope and a key that was not there before. Then that step is the worker settling a
  job: the queue has the job's entry, for exactly that scope and key and still being decrypted, and it is
  granted by this step; no \<open>LOCK\<close> came in between. And the value is the one \<open>sops\<close> printed for it in that
  script: the worker picked the job, opened the key's backing file and started \<open>sops\<close> on it, its last step
  was to see this \<open>sops\<close> exit successfully, and the value is the one assignment to the key in what its
  output pipe held. The grant records the label and the identity of the file that was opened.\<close>

theorem grant_has_approved_decrypt:
  assumes "broker_initial b0" and "broker_run es b0 = Some b" and "broker_step b b'"
    and "grants_map (ss_grants (br_state b')) (s, k) = Some g" and "grants_map (ss_grants (br_state b)) (s, k) \<noteq> Some g"
  shows "\<exists>job dec r opened out. br_worker b = WkDecrypted job (Inr dec) \<and> jb_scope job = s \<and> jb_key job = k
     \<and> find_request (ss_queue (br_state b)) (jb_id job) = Some r
     \<and> pr_scope r = s \<and> pr_key r = k \<and> pr_state r = StDecrypting
     \<and> Queue_state_of (ss_queue (br_state b')) (jb_id job) = Some StGranted
     \<and> jb_lock_epoch job = ss_lock_epoch (br_state b')
     \<and> sops_printed b0 es job opened out \<and> parse_single_assignment out k = Inr (gr_value g)
     \<and> gr_origin g = \<lparr>go_source = oh_label opened, go_identity = oh_identity opened\<rparr>"
proof -
  have ok: "broker_ok b" using reachable_ok run_reachable assms(1,2) by blast
  then have t: "ids_ok (ss_queue (br_state b))" by (auto simp: broker_ok_def Let_def wf_queue_def)
  from new_grant_inserted [OF ok assms(3-5)] obtain job dec w where
      d: "br_worker b = WkDecrypted job (Inr dec)" "br_state b' = worker_finish w job (Inr dec) (br_state b)"
    and ins: "ss_lock_epoch (br_state b) = jb_lock_epoch job"
      "snd (Queue_complete (jb_id job) (jb_generation job) (wo_now2 w) (ss_queue (br_state b)))"
      "session_is_active w (jb_scope job) (br_state b)"
    and g: "jb_scope job = s" "jb_key job = k" "gr_value g = dh_value dec"
      "gr_origin g = \<lparr>go_source = dh_source dec, go_identity = dh_identity dec\<rparr>"
    by metis
  have q': "ss_queue (br_state b') = fst (Queue_complete (jb_id job) (jb_generation job) (wo_now2 w) (ss_queue (br_state b)))"
    using d(2) ins by (auto simp: worker_finish_def Let_def split: prod.splits)
  obtain r where r: "find_request (ss_queue (br_state b)) (jb_id job) = Some r" "pr_state r = StDecrypting"
    using complete_grants [OF t ins(2)] by (auto simp: Queue_state_of_def)
  have "is_or_pruned (ss_queue (br_state b)) (jb_id job) s k" using ok d(1) g by (auto simp: broker_ok_def Let_def)
  with r(1) t have "pr_scope r = s" "pr_key r = k" by (auto simp: is_or_pruned_def find_request_Some)
  moreover obtain opened out where "sops_printed b0 es job opened out" "parse_single_assignment out k = Inr (gr_value g)"
      "gr_origin g = \<lparr>go_source = oh_label opened, go_identity = oh_identity opened\<rparr>"
    using run_traced [OF assms(1,2)] d(1) g unfolding worker_traced_def by metis
  ultimately show ?thesis using complete_grants [OF t ins(2)] d ins(1) g r q' by auto
qed

lemma demo_granted_eval:
  "let b = demo_final demo_decrypted; r = broker_run demo_granted demo_start in
     (\<not> Option.is_none r, GrantTable_is_empty (ss_grants (br_state b)),
      map_option (\<lambda>b'. map_option fst (GrantTable_lookup (ss_grants (br_state b')) demo_scope (SecretName ''DB''))) r) =
     (True, True, Some (Some ''hunter2''))"
  by code_simp

theorem grant_has_approved_decrypt_witness:
  "\<exists>job dec r opened out. br_worker (demo_final demo_decrypted) = WkDecrypted job (Inr dec)
     \<and> jb_scope job = demo_scope \<and> jb_key job = SecretName ''DB''
     \<and> find_request (ss_queue (br_state (demo_final demo_decrypted))) (jb_id job) = Some r
     \<and> pr_scope r = demo_scope \<and> pr_key r = SecretName ''DB'' \<and> pr_state r = StDecrypting
     \<and> Queue_state_of (ss_queue (br_state (demo_final demo_granted))) (jb_id job) = Some StGranted
     \<and> jb_lock_epoch job = ss_lock_epoch (br_state (demo_final demo_granted))
     \<and> sops_printed demo_start demo_decrypted job opened out
     \<and> parse_single_assignment out (SecretName ''DB'') = Inr ''hunter2''"
proof -
  let ?b = "demo_final demo_decrypted" and ?b' = "demo_final demo_granted" and ?i = "(demo_scope, SecretName ''DB'')"
  have run: "\<not> Option.is_none (broker_run demo_granted demo_start)" using demo_granted_eval by (simp add: Let_def)
  then have step: "broker_step ?b ?b'"
    using demo_next [of demo_decrypted "demo_work 20 ''DB=hunter2''"] event_step unfolding demo_granted_def by blast
  have start: "broker_run demo_decrypted demo_start = Some ?b"
    using run by (auto simp: demo_granted_def run_snoc demo_final_def Option.is_none_def split: bind_splits option.splits)
  obtain g where g: "grants_map (ss_grants (br_state ?b')) ?i = Some g" "gr_value g = ''hunter2''"
    using demo_granted_eval run
    by (auto simp: Let_def demo_final_def Option.is_none_def GrantTable_lookup_def grants_map_def)
  have "grants_map (ss_grants (br_state ?b)) ?i \<noteq> Some g"
    using demo_granted_eval by (auto simp: Let_def GrantTable_is_empty_def grants_map_def find_grant_def)
  from grant_has_approved_decrypt [OF demo_initial start step g(1) this] g(2) show ?thesis
    by (elim exE conjE) (intro exI conjI; (assumption | simp))
qed

section \<open>From the hardware to the caller\<close>

text \<open>C15: A value that is released arrives. Whenever a handler of a reachable daemon answers a connection's
  \<open>GET\<close> with a value, then over connections that work, in whatever pieces the bytes travel, the client that
  sent the request for the key returns exactly the value of the live grant: the handshake succeeds, the
  value's header and bytes are accepted, nothing is cut or added.\<close>

theorem released_value_reaches_client:
  assumes "broker_reachable b" and "br_connections b n = Some c" and "cn_pc c \<noteq> PcDone d"
    and "handler_step w (cn_caller c) (cn_pc c) (br_state b) = (st', PcDone d)" and "de_outcome d = OutBytes v"
    and "request_is_valid (scoped_frame client ''GET'' key)"
    and "answers tr (scoped_frame client ''GET'' key @ [newline]) (response_bytes (de_outcome d))"
    and "answers tr_hello (hello_request @ [newline]) (response_bytes (de_outcome (snd (dispatch_hello PROTOCOL_VERSION st))))"
    and "random_instance_id (Inr random) = Inr (ss_instance st)" and "length random = 16"
    and "length v \<le> U64_MAX" and "reserves (length v)"
  shows "HumanClient_get reserves tr_hello tr client key = Some (Inr v)
    \<and> (\<exists>s k g. grants_map (ss_grants (br_state b)) (s, k) = Some g \<and> gr_value g = v)"
proof -
  note pc = reachable_pc_ok [OF assms(1,2)]
  obtain s k src i where r: "d = release_value s k src i (br_state b)"
    using answers_from [OF assms(4,3) pc] assms(5) pc by (auto dest: mint_outcome_bytes)
  then obtain g where g: "grants_map (ss_grants (br_state b)) (s, k) = Some g" "gr_value g = v"
    using assms(5) by (auto simp: release_value_def GrantTable_lookup_def grants_map_def split: option.splits)
  have "grants_clean b" using clean.reachable_inv assms(1) unfolding broker_reachable_def by blast
  with g have "nul \<notin> set v" unfolding grants_clean_def by blast
  with assms(5,11,12) have "sendable reserves (de_outcome d)" by simp
  moreover have "header_fits (de_outcome d)" using header_fits_bytes [OF assms(11)] assms(5) by simp
  ultimately show ?thesis using get_returns_outcome [OF assms(8-10,6,7)] assms(5) g by auto
qed

theorem released_value_reaches_client_witness:
  "let reply = (\<lambda>out. \<lparr>tr_connect = \<lambda>_. None, tr_set_read_timeout = \<lambda>_. None, tr_set_write_timeout = \<lambda>_. None, tr_write = \<lambda>_. None,
                        tr_reads = \<lambda>_. [Inr (response_bytes out), Inr []]\<rparr>);
       hello = reply (de_outcome (snd (dispatch_hello PROTOCOL_VERSION (br_state demo_start)))) in
   HumanClient_get (\<lambda>n. n \<le> 4096) hello (reply (OutBytes ''hunter2''))
     (HumanClient_new (BrokerClient_new ''/run/secretsd.sock'') (Some demo_token) None) (SecretName ''DB'') = Some (Inr ''hunter2'')
   \<and> (\<exists>s k g. grants_map (ss_grants (br_state (demo_final demo_served))) (s, k) = Some g \<and> gr_value g = ''hunter2'')"
proof -
  let ?b = "demo_final demo_served" and ?client = "HumanClient_new (BrokerClient_new ''/run/secretsd.sock'') (Some demo_token) None"
  let ?d = "release_value demo_scope (SecretName ''DB'') (Some ''test'') (Some 1) (br_state ?b)"
  let ?reply = "\<lambda>out. \<lparr>tr_connect = \<lambda>_. None, tr_set_read_timeout = \<lambda>_. None, tr_set_write_timeout = \<lambda>_. None, tr_write = \<lambda>_. None,
                        tr_reads = \<lambda>_. [Inr (response_bytes out), Inr []]\<rparr>"
  obtain c where c: "br_connections ?b 1 = Some c" "cn_pc c = PcRelease demo_scope (SecretName ''DB'') (Some ''test'') (Some 1)"
    using demo_served_release by (auto simp: Let_def)
  then have step: "cn_pc c \<noteq> PcDone ?d" "handler_step (demo_world 22) (cn_caller c) (cn_pc c) (br_state ?b) = (br_state ?b, PcDone ?d)"
    by (simp_all add: handler_step_def)
  have out: "de_outcome ?d = OutBytes ''hunter2''" using demo_served_release by (simp add: Let_def release_value_def)
  have a: "answers (?reply out) request (response_bytes out)" if "response_bytes out \<noteq> []" for out request
    unfolding answers_def using that by (intro conjI exI [of _ "[response_bytes out]"] exI [of _ "[]"]) simp_all
  have h: "response_bytes (de_outcome (snd (dispatch_hello PROTOCOL_VERSION (br_state demo_start)))) \<noteq> []"
    "response_bytes (OutBytes ''hunter2'') \<noteq> []" "request_is_valid (scoped_frame ?client ''GET'' (SecretName ''DB''))"
    "random_instance_id (Inr (replicate 16 1)) = Inr (ss_instance (br_state demo_start))"
    by code_simp+
  have a2: "answers (?reply (OutBytes ''hunter2'')) request (response_bytes (de_outcome ?d))" for request
    using a [OF h(2)] out by simp
  have n: "length (replicate 16 (1 :: u8)) = 16" "length ''hunter2'' \<le> U64_MAX" "length ''hunter2'' \<le> 4096"
    by (simp_all add: U64_MAX_def)
  show ?thesis
    using released_value_reaches_client [OF demo_reachable c(1) step out h(3) a2 a [OF h(1)] h(4) n(1,2),
        where reserves = "\<lambda>n. n \<le> 4096"] n(3)
    by (simp add: Let_def out)
qed

section \<open>Locking\<close>

lemma handled_lock:
  assumes "br_connections b n = Some c" and "cn_pc c = PcStart Lock" and "broker_event (EvHandle n w) b = Some b1"
  shows "br_state b1 = fst (dispatch_lock w (br_state b))"
  using assms by (auto simp: handler_step_def dispatch_start_def split: if_splits prod.splits)

lemma lock_state:
  "gt_grants (ss_grants (fst (dispatch_lock w st))) = []" "rt_entries (ss_receipts (fst (dispatch_lock w st))) = []"
  "ss_lock_epoch (fst (dispatch_lock w st)) = saturating_add_u64 (ss_lock_epoch st) 1"
  by (simp_all add: dispatch_lock_def Let_def GrantTable_revoke_all_def ReceiptTable_clear_def split: option.split)

lemma reachable_epochs: "broker_reachable b \<Longrightarrow> epochs_ok b"
  unfolding broker_reachable_def using epochs.reachable_inv by blast

lemma reachable_approvals: "broker_reachable b \<Longrightarrow> approvals_seen b"
  unfolding broker_reachable_def using approvals.reachable_inv by blast

lemma reachable_steps: "broker_reachable b \<Longrightarrow> broker_step\<^sup>*\<^sup>* b b' \<Longrightarrow> broker_reachable b'"
  unfolding broker_reachable_def by (meson rtranclp_trans)

lemma epoch_after_lock:
  assumes "broker_reachable b" and "br_connections b n = Some c" and "cn_pc c = PcStart Lock"
    and "ss_lock_epoch (br_state b) < U64_MAX" and "broker_event (EvHandle n w) b = Some b1" and "broker_step\<^sup>*\<^sup>* b1 b2"
  shows "broker_reachable b2 \<and> ss_lock_epoch (br_state b) < ss_lock_epoch (br_state b2)"
proof -
  have 1: "broker_reachable b1" using reachable_steps [OF assms(1)] event_step [OF assms(5)] by blast
  have "ss_lock_epoch (br_state b) < ss_lock_epoch (br_state b1)"
    using handled_lock [OF assms(2,3,5)] assms(4) by (simp add: lock_state saturating_add_u64_def)
  also have "\<dots> \<le> ss_lock_epoch (br_state b2)" by (rule epochs_steps [OF assms(6) reachable_epochs [OF 1]])
  finally show ?thesis using reachable_steps [OF 1 assms(6)] by simp
qed

text \<open>C4: \<open>LOCK\<close> ends everything that was granted or about to be. Handling it empties the table of grants at once,
  and the job the worker had in hand at that moment, however and whenever its decrypt ends, never installs a
  grant. (The epoch that tells the two apart is a 64-bit counter that stops at its maximum, so the premise
  that it has not got there is needed.)\<close>

theorem lock_stops_decrypt_in_flight:
  assumes "broker_reachable b" and "br_connections b n = Some c" and "cn_pc c = PcStart Lock"
    and "ss_lock_epoch (br_state b) < U64_MAX" and "broker_event (EvHandle n w) b = Some b1" and "broker_step\<^sup>*\<^sup>* b1 b2"
    and "worker_job_of (br_worker b) = Some job"
  shows "gt_grants (ss_grants (br_state b1)) = []
     \<and> ss_grants (worker_finish w' job res (br_state b2)) = ss_grants (br_state b2)"
proof -
  have "jb_lock_epoch job \<le> ss_lock_epoch (br_state b)"
    using reachable_epochs [OF assms(1)] assms(7) by (simp add: epochs_ok_def)
  then have "ss_lock_epoch (br_state b2) \<noteq> jb_lock_epoch job" and "broker_ok b2"
    using epoch_after_lock [OF assms(1-6)] reachable_ok by auto
  moreover from this(2) have "ids_ok (ss_queue (br_state b2))" by (simp add: broker_ok_def Let_def wf_queue_def)
  ultimately show ?thesis
    using finish_grants [of "br_state b2" w' job res] handled_lock [OF assms(2,3,5)] by (auto simp: lock_state)
qed

text \<open>An authorization waits, its decrypt has started, and \<open>LOCK\<close> arrives.\<close>

definition demo_locking :: "event list" where
  "demo_locking = demo_authorize 1 2 @ replicate 2 (demo_work 3 ''CAP_SSH=x'') @ [EvAccept 2 \<lparr>pidfd = 6\<rparr> Lock]"

definition demo_locked :: "event list" where
  "demo_locked = demo_locking @ [EvHandle 2 (demo_world 4)]"

lemma demo_locking_eval:
  "let b = demo_final demo_locking in
     (\<not> Option.is_none (broker_run demo_locked demo_start), ss_lock_epoch (br_state b),
      map_option jb_id (worker_job_of (br_worker b)), map_option cn_pc (br_connections b 2),
      map_option (\<lambda>c. pc_epoch (cn_pc c)) (br_connections b 1)) =
     (True, 0, Some 1, Some (PcStart Lock), Some (Some 0))"
  by code_simp

lemma demo_locked_event:
  "broker_event (EvHandle 2 (demo_world 4)) (demo_final demo_locking) = Some (demo_final demo_locked)"
  using demo_next [of demo_locking "EvHandle 2 (demo_world 4)"] demo_locking_eval by (simp add: Let_def demo_locked_def)

theorem lock_stops_decrypt_in_flight_witness:
  "\<exists>job. worker_job_of (br_worker (demo_final demo_locking)) = Some job
     \<and> gt_grants (ss_grants (br_state (demo_final demo_locked))) = []
     \<and> ss_grants (worker_finish (demo_world 5) job (Inr example_decrypted) (br_state (demo_final demo_locked))) =
         ss_grants (br_state (demo_final demo_locked))"
proof -
  obtain job c where j: "worker_job_of (br_worker (demo_final demo_locking)) = Some job"
      "br_connections (demo_final demo_locking) 2 = Some c" "cn_pc c = PcStart Lock"
      "ss_lock_epoch (br_state (demo_final demo_locking)) < U64_MAX"
    using demo_locking_eval by (auto simp: Let_def U64_MAX_def)
  from lock_stops_decrypt_in_flight [OF demo_reachable j(2-4) demo_locked_event rtranclp.rtrancl_refl j(1),
      where w' = "demo_world 5" and res = "Inr example_decrypted"] j(1)
  show ?thesis by blast
qed

text \<open>C5: \<open>LOCK\<close> revokes outstanding receipts and voids authorizations in progress. Handling it empties the table of
  receipts. A connection whose \<open>AUTHORIZE\<close> had read the lock epoch before (\<open>pc_epoch\<close>) never gets a receipt
  afterwards, whatever happens: in every later state it is either still on its way, in the old epoch, or it
  was answered with an error. If its approval does come through, its next step answers \<open>Denied\<close> and mints
  nothing; if the \<open>LOCK\<close> killed its decrypt, it is answered with the error of that.\<close>

theorem lock_voids_authorization_in_flight:
  assumes "broker_reachable b" and "br_connections b n = Some c" and "cn_pc c = PcStart Lock"
    and "ss_lock_epoch (br_state b) < U64_MAX" and "broker_event (EvHandle n w) b = Some b1" and "broker_step\<^sup>*\<^sup>* b1 b2"
    and "br_connections b m = Some c'" and "pc_epoch (cn_pc c') = Some e"
  shows "rt_entries (ss_receipts (br_state b1)) = []
     \<and> (\<exists>c2. br_connections b2 m = Some c2 \<and> cn_caller c2 = cn_caller c' \<and> cn_request c2 = cn_request c'
          \<and> (pc_epoch (cn_pc c2) = Some e \<or> (\<exists>d code msg. cn_pc c2 = PcDone d \<and> de_outcome d = OutFailed code msg))
          \<and> (\<forall>cap d fs w'. cn_pc c2 = PcMint cap e d \<longrightarrow> de_outcome d = OutFields fs \<longrightarrow>
               handler_step w' (cn_caller c2) (cn_pc c2) (br_state b2) =
                 (br_state b2, PcDone (d\<lparr>de_outcome := OutFailed Denied ''locked during authorization''\<rparr>))))"
proof -
  have b1: "broker_reachable b1" using reachable_steps [OF assms(1)] event_step [OF assms(5)] by blast
  have old: "e \<le> ss_lock_epoch (br_state b)"
    using reachable_epochs [OF assms(1)] assms(7,8) by (auto simp: epochs_ok_def)
  with epoch_after_lock [OF assms(1-5)] have e1: "e < ss_lock_epoch (br_state b1)" by (meson le_less_trans rtranclp.rtrancl_refl)
  from old epoch_after_lock [OF assms(1-6)] have e2: "ss_lock_epoch (br_state b2) \<noteq> e" and b2: "broker_reachable b2" by auto
  have "m \<noteq> n" using assms(2,3,7,8) by auto
  then have m: "br_connections b1 m = Some c'" using assms(5,7) by (auto split: option.splits if_splits prod.splits)
  have dec: "mints_decided b1" "mints_decided b2"
    using decided.reachable_inv b1 b2 unfolding broker_reachable_def by blast+
  obtain c2 where c2: "br_connections b2 m = Some c2" "cn_request c2 = cn_request c'" "cn_caller c2 = cn_caller c'"
      "overtaken e (cn_pc c2)"
    using overtaken_steps [OF assms(6) reachable_ok [OF b1] dec(1) reachable_epochs [OF b1] e1 m] assms(8)
    by (auto simp: overtaken_def)
  have "mint_decided (cn_pc c2)" using dec(2) c2(1) by (simp add: mints_decided_def)
  with e2 c2 handled_lock [OF assms(2,3,5)] show ?thesis
    by (intro conjI exI [of _ c2]) (auto simp: lock_state overtaken_def handler_step_def mint_overtaken)
qed

text \<open>The approval came through just before the \<open>LOCK\<close>.\<close>

definition demo_minting :: "event list" where
  "demo_minting = demo_authorized 1 20 @ [EvAccept 2 \<lparr>pidfd = 6\<rparr> Lock]"

definition demo_unminted :: "event list" where
  "demo_unminted = demo_minting @ [EvHandle 2 (demo_world 21)]"

definition demo_granted_decision :: decision where
  "demo_granted_decision = \<lparr>de_outcome = OutFields ''status=granted'', de_scope_kind = Some TokenlessTty,
     de_source = Some ''test'', de_request_id = Some 1\<rparr>"

lemma demo_minting_eval:
  "let b = demo_final demo_minting in
     (\<not> Option.is_none (broker_run demo_unminted demo_start), ss_lock_epoch (br_state b),
      map_option cn_pc (br_connections b 2), map_option cn_pc (br_connections b 1),
      map_option cn_pc (br_connections (demo_final demo_unminted) 1)) =
     (True, 0, Some (PcStart Lock), Some (PcMint (Capability ''ssh'') 0 demo_granted_decision),
      Some (PcMint (Capability ''ssh'') 0 demo_granted_decision))"
  by code_simp

theorem lock_voids_authorization_in_flight_witness:
  "rt_entries (ss_receipts (br_state (demo_final demo_unminted))) = []
     \<and> (\<exists>c2. br_connections (demo_final demo_unminted) 1 = Some c2
          \<and> handler_step (demo_world 22) (cn_caller c2) (cn_pc c2) (br_state (demo_final demo_unminted)) =
              (br_state (demo_final demo_unminted),
               PcDone (demo_granted_decision\<lparr>de_outcome := OutFailed Denied ''locked during authorization''\<rparr>)))"
proof -
  let ?b = "demo_final demo_minting" and ?b1 = "demo_final demo_unminted"
  obtain c c' c1 where j: "br_connections ?b 2 = Some c" "cn_pc c = PcStart Lock" "ss_lock_epoch (br_state ?b) < U64_MAX"
      "br_connections ?b 1 = Some c'" "pc_epoch (cn_pc c') = Some 0"
      and c1: "br_connections ?b1 1 = Some c1" "cn_pc c1 = PcMint (Capability ''ssh'') 0 demo_granted_decision"
    using demo_minting_eval by (auto simp: Let_def U64_MAX_def)
  have ev: "broker_event (EvHandle 2 (demo_world 21)) ?b = Some ?b1"
    using demo_next [of demo_minting "EvHandle 2 (demo_world 21)"] demo_minting_eval by (simp add: Let_def demo_unminted_def)
  from lock_voids_authorization_in_flight [OF demo_reachable j(1-3) ev rtranclp.rtrancl_refl j(4,5)] c1
  show ?thesis by (auto simp: demo_granted_decision_def)
qed

section \<open>Receipts\<close>




lemma granted_or_pruned_state:
  "ids_ok q \<Longrightarrow> granted_or_pruned q i \<Longrightarrow> Queue_state_of q i \<in> {None, Some StGranted}"
  by (cases "find_request q i") (auto simp: granted_or_pruned_def Queue_state_of_def find_request_Some)

text \<open>C7: One approval, one receipt. In a reachable daemon no two connections were answered with receipts for the
  same approved request: requests for capabilities are never shared, so every receipt cost a touch of its
  own. Each connection had seen its own request granted, and the queue still says so unless it has dropped
  the entry since.\<close>

theorem one_receipt_per_approval:
  assumes "broker_reachable b" and "br_connections b n = Some c" and "br_connections b m = Some c'" and "n \<noteq> m"
    and "cn_pc c = PcDone d" and "cn_pc c' = PcDone d'"
    and "de_outcome d = OutReceipt r" and "de_outcome d' = OutReceipt r'"
  shows "\<exists>i j. de_request_id d = Some i \<and> de_request_id d' = Some j \<and> i \<noteq> j
     \<and> Queue_state_of (ss_queue (br_state b)) i \<in> {None, Some StGranted}
     \<and> Queue_state_of (ss_queue (br_state b)) j \<in> {None, Some StGranted}
     \<and> (\<exists>s k. approval_seen b n (cn_request c) i s k) \<and> (\<exists>s k. approval_seen b m (cn_request c') j s k)"
proof -
  have fresh: "freshly_granted (ss_queue (br_state b)) (cn_request c) d" "freshly_granted (ss_queue (br_state b)) (cn_request c') d'"
    using reachable_pc_ok [OF assms(1,2)] reachable_pc_ok [OF assms(1,3)] assms(5-8) by simp_all
  then obtain i j where ij: "de_request_id d = Some i" "de_request_id d' = Some j"
      "granted_or_pruned (ss_queue (br_state b)) i" "granted_or_pruned (ss_queue (br_state b)) j"
    by (auto simp: freshly_granted_def)
  have "claims_ok b" using claims.reachable_inv assms(1) unfolding broker_reachable_def by blast
  moreover have "receipt_claim (cn_pc c) = Some i" "receipt_claim (cn_pc c') = Some j" using assms(5-8) ij by simp_all
  ultimately have "i \<noteq> j" using assms(2-4) unfolding claims_ok_def claims_in_def by blast
  moreover have "\<exists>s k. approval_seen b n (cn_request c) i s k" "\<exists>s k. approval_seen b m (cn_request c') j s k"
    using reachable_approvals [OF assms(1)] assms(2,3,5-8) ij unfolding approvals_seen_def by fastforce+
  moreover have "ids_ok (ss_queue (br_state b))" using reachable_ok [OF assms(1)] by (simp add: broker_ok_def Let_def wf_queue_def)
  with ij(3,4) have "Queue_state_of (ss_queue (br_state b)) i \<in> {None, Some StGranted}"
      "Queue_state_of (ss_queue (br_state b)) j \<in> {None, Some StGranted}"
    using granted_or_pruned_state by blast+
  ultimately show ?thesis using ij(1,2) by blast
qed

definition demo_twice :: "event list" where
  "demo_twice = demo_authorized 1 20 @ [EvHandle 1 (demo_world 20)] @ demo_authorized 2 60 @ [EvHandle 2 (demo_world 60)]"

lemma demo_twice_eval:
  "let b = demo_final demo_twice in
     (map_option cn_pc (br_connections b 1), map_option cn_pc (br_connections b 2)) =
     (Some (PcDone (demo_granted_decision\<lparr>de_outcome := OutReceipt (hex (replicate 32 20))\<rparr>)),
      Some (PcDone (demo_granted_decision\<lparr>de_outcome := OutReceipt (hex (replicate 32 60)), de_request_id := Some 2\<rparr>)))"
  by code_simp

theorem one_receipt_per_approval_witness:
  "\<exists>i j. de_request_id demo_granted_decision = Some i \<and> Some 2 = Some j \<and> i \<noteq> j
     \<and> Queue_state_of (ss_queue (br_state (demo_final demo_twice))) i \<in> {None, Some StGranted}
     \<and> Queue_state_of (ss_queue (br_state (demo_final demo_twice))) j \<in> {None, Some StGranted}
     \<and> (\<exists>req s k. approval_seen (demo_final demo_twice) 1 req i s k)
     \<and> (\<exists>req s k. approval_seen (demo_final demo_twice) 2 req j s k)"
proof -
  let ?b = "demo_final demo_twice"
  let ?d = "\<lambda>r i. demo_granted_decision\<lparr>de_outcome := OutReceipt r, de_request_id := i\<rparr>"
  obtain c c' where c: "br_connections ?b 1 = Some c" "br_connections ?b 2 = Some c'"
      "cn_pc c = PcDone (?d (hex (replicate 32 20)) (Some 1))" "cn_pc c' = PcDone (?d (hex (replicate 32 60)) (Some 2))"
    using demo_twice_eval by (auto simp: Let_def demo_granted_decision_def)
  from one_receipt_per_approval [OF demo_reachable c(1,2) _ c(3,4)] show ?thesis
    by (simp add: demo_granted_decision_def) blast
qed

section \<open>What the daemon does not prevent\<close>










end
